(* ===== verification/Nica_Prelude.thy ===== *)
theory Nica_Prelude
  imports Main "HOL-Library.Word"
begin

text \<open>
  Shared vocabulary of the development.

  \<^item> Bit ranges of \<open>ap_uint\<close> values: \<open>ap_range hi lo w\<close> is the source's \<open>w(hi, lo)\<close>,
    \<open>ap_set_range hi lo v w\<close> the assignment \<open>w(hi, lo) = v\<close>, and the comma operator
    \<open>(a, b)\<close> is \<open>word_cat a b\<close>.
  \<^item> \<open>hls::stream\<close>: a first-in first-out queue with an optional depth. A depth of \<open>None\<close> is a
    stream that never reports to be full (an AXI4-Stream port, or any stream of a C simulation).
    A blocking \<open>write\<close> returns only when the word is in the queue, so it appends. A blocking
    \<open>read\<close> of an empty stream does not return: the sources test \<open>empty\<close> first, and every
    model below keeps that test in front of its \<open>s_read\<close>.
  \<^item> The interfaces as locales. \<open>conserving\<close> and \<open>stage\<close> are the contract of a pipeline stage (what
    it has put out and what it still owes is constant, and it works off what it owes), \<open>fifo_relay\<close> is the
    contract of a link between two streams under any interleaving with its environment, and
    \<open>packed\<close> the contract of a value that travels through a stream as a word of bits.
\<close>

unbundle bit_operations_syntax

named_theorems range_simps \<open>selecting bit ranges out of concatenations\<close>
named_theorems stream_defs \<open>the stream operations\<close>
named_theorems codec_simps \<open>packing and unpacking of structs\<close>

section \<open>Bit ranges\<close>

definition ap_range :: "nat \<Rightarrow> nat \<Rightarrow> 'a::len word \<Rightarrow> 'b::len word" where
  "ap_range hi lo w = ucast (take_bit (Suc hi - lo) (drop_bit lo w))"

definition ap_set_range :: "nat \<Rightarrow> nat \<Rightarrow> 'b::len word \<Rightarrow> 'a::len word \<Rightarrow> 'a word" where
  "ap_set_range hi lo v w =
     (w AND NOT (push_bit lo (mask (Suc hi - lo))))
     OR push_bit lo (take_bit (Suc hi - lo) (ucast v))"

lemma bit_ap_range:
  "bit (ap_range hi lo (w :: 'a::len word) :: 'b::len word) n \<longleftrightarrow>
     n < LENGTH('b) \<and> n < Suc hi - lo \<and> bit w (lo + n)"
  by (auto simp: ap_range_def bit_simps dest: bit_imp_le_length)

lemma bit_ap_set_range:
  "bit (ap_set_range hi lo (v :: 'b::len word) (w :: 'a::len word)) n \<longleftrightarrow>
     (if lo \<le> n \<and> n \<le> hi then n < LENGTH('a) \<and> bit v (n - lo) else bit w n)"
  by (auto simp: ap_set_range_def bit_simps dest: bit_imp_le_length)

lemma ap_range_cat_high:
  assumes "LENGTH('b) \<le> lo" "lo \<le> hi" "LENGTH('a) + LENGTH('b) \<le> LENGTH('c)"
  shows "ap_range hi lo (word_cat (a :: 'a::len word) (b :: 'b::len word) :: 'c::len word) =
    (ap_range (hi - LENGTH('b)) (lo - LENGTH('b)) a :: 'd::len word)"
  using assms
  by (intro bit_word_eqI) (auto simp: bit_ap_range bit_simps dest: bit_imp_le_length)

lemma ap_range_cat_low:
  assumes "hi < LENGTH('b)" "LENGTH('b) \<le> LENGTH('c)"
  shows "ap_range hi lo (word_cat (a :: 'a::len word) (b :: 'b::len word) :: 'c::len word) =
    (ap_range hi lo b :: 'd::len word)"
  using assms
  by (intro bit_word_eqI) (auto simp: bit_ap_range bit_simps)

lemma ap_range_whole:
  assumes "LENGTH('a) \<le> Suc hi"
  shows "ap_range hi 0 (a :: 'a::len word) = a"
  using assms
  by (intro bit_word_eqI) (auto simp: bit_ap_range)

text \<open>Two adjacent ranges, concatenated, are the range they cover.\<close>

lemma ap_range_join:
  assumes "Suc m = k" "LENGTH('b) = k - l" "l < k" "k \<le> h" "h - k < LENGTH('a)"
  shows "word_cat (ap_range h k d :: 'a::len word) (ap_range m l d :: 'b::len word) =
    (ap_range h l (d :: 'd::len word) :: 'c::len word)"
proof (rule bit_word_eqI)
  fix n
  assume n: "n < LENGTH('c)"
  show "bit (word_cat (ap_range h k d :: 'a word) (ap_range m l d :: 'b word) :: 'c word) n =
        bit (ap_range h l d :: 'c word) n"
  proof (cases "n < LENGTH('b)")
    case True
    with assms n show ?thesis by (auto simp: bit_simps bit_ap_range)
  next
    case False
    then have "k + (n - LENGTH('b)) = l + n" using assms by simp
    with assms n False show ?thesis by (auto simp: bit_simps bit_ap_range ac_simps)
  qed
qed

lemma ap_set_range_ap_range:
  assumes "lo \<le> hi" "hi < LENGTH('a)" "LENGTH('b) = Suc hi - lo"
  shows "ap_range hi lo (ap_set_range hi lo (v :: 'b::len word) (w :: 'a::len word)) = v"
  using assms
  by (intro bit_word_eqI) (auto simp: bit_ap_range bit_ap_set_range)

lemma ap_set_range_other:
  assumes "hi' < lo \<or> hi < lo'"
  shows "ap_range hi' lo' (ap_set_range hi lo (v :: 'b::len word) (w :: 'a::len word)) =
    (ap_range hi' lo' w :: 'c::len word)"
  using assms
  by (intro bit_word_eqI) (auto simp: bit_ap_range bit_ap_set_range)

lemma ap_range_ucast_low:
  assumes "hi < LENGTH('a)" "LENGTH('a) \<le> LENGTH('b)"
  shows "ap_range hi lo (ucast (a :: 'a::len word) :: 'b::len word) = (ap_range hi lo a :: 'c::len word)"
  using assms
  by (intro bit_word_eqI) (auto simp: bit_ap_range bit_simps)

lemma ap_range_ucast_high:
  assumes "LENGTH('a) \<le> lo"
  shows "ap_range hi lo (ucast (a :: 'a::len word) :: 'b::len word) = (0 :: 'c::len word)"
  using assms
  by (intro bit_word_eqI) (auto simp: bit_ap_range bit_simps dest: bit_imp_le_length)

lemmas ap_range_simps [range_simps] =
  ap_range_cat_high ap_range_cat_low ap_range_whole ap_range_ucast_low ap_range_ucast_high

text \<open>The bits of a word in the order of the wire, most significant first.\<close>

definition msb_bits :: "'a::len word \<Rightarrow> bool list" where
  "msb_bits w = map (bit w) (rev [0..<LENGTH('a)])"

lemma length_msb_bits [simp]: "length (msb_bits (w :: 'a::len word)) = LENGTH('a)"
  by (simp add: msb_bits_def)

lemma msb_bits_cat:
  assumes "LENGTH('c) = LENGTH('a) + LENGTH('b)"
  shows "msb_bits (word_cat (a :: 'a::len word) (b :: 'b::len word) :: 'c::len word) =
    msb_bits a @ msb_bits b"
proof -
  have up: "[0..<LENGTH('c)] = [0..<LENGTH('b)] @ map (\<lambda>n. n + LENGTH('b)) [0..<LENGTH('a)]"
    by (simp add: assms map_add_upt add.commute [of "LENGTH('a)"] upt_add_eq_append [symmetric])
  show ?thesis
    unfolding msb_bits_def up using assms by (auto simp: bit_simps rev_map)
qed

lemma msb_bits_zero: "msb_bits (0 :: 'a::len word) = replicate LENGTH('a) False"
  by (rule replicate_eqI) (auto simp: msb_bits_def)

lemma msb_bits_inject: "msb_bits v = msb_bits w \<longleftrightarrow> v = (w :: 'a::len word)"
  by (auto simp: msb_bits_def intro: bit_word_eqI)

section \<open>Streams\<close>

record 'a hls_stream =
  depth :: "nat option"
  que :: "'a list"

definition s_new :: "nat option \<Rightarrow> 'a hls_stream" where
  "s_new d = \<lparr>depth = d, que = []\<rparr>"

definition s_empty :: "'a hls_stream \<Rightarrow> bool" where
  "s_empty s \<longleftrightarrow> que s = []"

definition s_full :: "'a hls_stream \<Rightarrow> bool" where
  "s_full s = (case depth s of None \<Rightarrow> False | Some d \<Rightarrow> d \<le> length (que s))"

definition s_read :: "'a hls_stream \<Rightarrow> 'a \<times> 'a hls_stream" where
  "s_read s = (hd (que s), s\<lparr>que := tl (que s)\<rparr>)"

definition s_write :: "'a \<Rightarrow> 'a hls_stream \<Rightarrow> 'a hls_stream" where
  "s_write x s = s\<lparr>que := que s @ [x]\<rparr>"

definition s_read_nb :: "'a hls_stream \<Rightarrow> ('a \<times> 'a hls_stream) option" where
  "s_read_nb s = (if s_empty s then None else Some (s_read s))"

definition s_write_nb :: "'a \<Rightarrow> 'a hls_stream \<Rightarrow> 'a hls_stream" where
  "s_write_nb x s = (if s_full s then s else s_write x s)"

lemmas [stream_defs] = s_new_def s_empty_def s_read_def s_write_def s_read_nb_def s_write_nb_def

lemma s_full_unbounded [simp]: "depth s = None \<Longrightarrow> \<not> s_full s"
  by (simp add: s_full_def)

lemma depth_write [simp]: "depth (s_write x s) = depth s"
  by (simp add: s_write_def)

lemma que_write [simp]: "que (s_write x s) = que s @ [x]"
  by (simp add: s_write_def)

lemma depth_write_nb [simp]: "depth (s_write_nb x s) = depth s"
  by (simp add: s_write_nb_def)

lemma que_write_nb [simp]: "\<not> s_full s \<Longrightarrow> que (s_write_nb x s) = que s @ [x]"
  by (simp add: s_write_nb_def)

lemma s_read_simps [simp]:
  "fst (s_read s) = hd (que s)"
  "que (snd (s_read s)) = tl (que s)"
  "depth (snd (s_read s)) = depth s"
  by (simp_all add: s_read_def)

section \<open>Interfaces\<close>

text \<open>
  A pipeline stage is a function called once per clock. \<open>out s\<close> is what it has put out so far,
  \<open>pend s\<close> what it owes: the output that its registers and the words waiting on its inputs
  determine. Whatever is full or empty, a call keeps \<open>out s @ pend s\<close> (\<open>conserving\<close>): nothing is
  lost, duplicated or reordered under back pressure. When its outputs accept words (\<open>ready\<close>), each
  call that owes something reduces the measure \<open>work\<close> (\<open>stage\<close>).
\<close>

locale conserving =
  fixes step :: "'s \<Rightarrow> 's"
    and out :: "'s \<Rightarrow> 'b list"
    and pend :: "'s \<Rightarrow> 'b list"
  assumes conserve: "out (step s) @ pend (step s) = out s @ pend s"
begin

lemma conserve_run: "out ((step ^^ n) s) @ pend ((step ^^ n) s) = out s @ pend s"
  by (induction n) (simp_all add: conserve)

lemma no_overrun: "length (out ((step ^^ n) s)) \<le> length (out s @ pend s)"
  by (metis conserve_run length_append le_add1)

lemma out_prefix: "\<exists>zs. out ((step ^^ n) s) @ zs = out s @ pend s"
  using conserve_run by blast

end

text \<open>The same contract for a stage that keeps it in the states of an invariant.\<close>

locale conserving_on =
  fixes step :: "'s \<Rightarrow> 's"
    and out :: "'s \<Rightarrow> 'b list"
    and pend :: "'s \<Rightarrow> 'b list"
    and inv :: "'s \<Rightarrow> bool"
  assumes inv_step: "inv s \<Longrightarrow> inv (step s)"
    and conserve_on: "inv s \<Longrightarrow> out (step s) @ pend (step s) = out s @ pend s"
begin

lemma inv_run: "inv s \<Longrightarrow> inv ((step ^^ n) s)"
  by (induction n) (simp_all add: inv_step)

lemma conserve_on_run: "inv s \<Longrightarrow> out ((step ^^ n) s) @ pend ((step ^^ n) s) = out s @ pend s"
  by (induction n) (simp_all add: conserve_on inv_run)

lemma finished: "inv s \<Longrightarrow> pend ((step ^^ n) s) = [] \<Longrightarrow> out ((step ^^ n) s) = out s @ pend s"
  using conserve_on_run [of s n] by simp

end

sublocale conserving \<subseteq> guarded: conserving_on step out pend "\<lambda>s. True"
  by unfold_locales (simp_all add: conserve)

locale stage_on = conserving_on step out pend inv
  for step :: "'s \<Rightarrow> 's" and out :: "'s \<Rightarrow> 'b list" and pend :: "'s \<Rightarrow> 'b list" and inv :: "'s \<Rightarrow> bool" +
  fixes work :: "'s \<Rightarrow> nat"
  assumes progress_on: "inv s \<Longrightarrow> pend s \<noteq> [] \<Longrightarrow> work (step s) < work s"
begin

theorem drains_on:
  assumes "inv s"
  shows "\<exists>n \<le> work s. pend ((step ^^ n) s) = [] \<and> out ((step ^^ n) s) = out s @ pend s"
  using assms
proof (induction "work s" arbitrary: s rule: less_induct)
  case less
  show ?case
  proof (cases "pend s = []")
    case True
    then show ?thesis by (intro exI [of _ 0]) simp
  next
    case False
    with less.prems have dec: "work (step s) < work s" by (rule progress_on)
    moreover have "inv (step s)" using less.prems by (rule inv_step)
    ultimately obtain n where n: "n \<le> work (step s)" "pend ((step ^^ n) (step s)) = []"
      "out ((step ^^ n) (step s)) = out (step s) @ pend (step s)"
      using less.hyps by blast
    then have "pend ((step ^^ Suc n) s) = []" "out ((step ^^ Suc n) s) = out s @ pend s"
      by (simp_all add: funpow_swap1 conserve_on less.prems)
    moreover have "Suc n \<le> work s" using n(1) dec by simp
    ultimately show ?thesis by blast
  qed
qed

end

locale stage = conserving step out pend
  for step :: "'s \<Rightarrow> 's" and out :: "'s \<Rightarrow> 'b list" and pend :: "'s \<Rightarrow> 'b list" +
  fixes work :: "'s \<Rightarrow> nat"
    and ready :: "'s \<Rightarrow> bool"
  assumes ready_step: "ready s \<Longrightarrow> ready (step s)"
    and progress: "ready s \<Longrightarrow> pend s \<noteq> [] \<Longrightarrow> work (step s) < work s"

sublocale stage \<subseteq> live: stage_on step out pend ready work
  by unfold_locales (simp_all add: conserve ready_step progress)

context stage
begin

theorem drains:
  assumes "ready s"
  shows "\<exists>n \<le> work s. pend ((step ^^ n) s) = [] \<and> out ((step ^^ n) s) = out s @ pend s"
  using assms by (rule live.drains_on)

end

text \<open>
  A stage with two outputs, a header stream and a data stream, is a stage for each of them; both are
  worked off by the same run.
\<close>

locale stage2_on =
  fixes step :: "'s \<Rightarrow> 's"
    and out1 :: "'s \<Rightarrow> 'b list"
    and out2 :: "'s \<Rightarrow> 'c list"
    and owed :: "'s \<Rightarrow> 'b list \<times> 'c list"
    and work :: "'s \<Rightarrow> nat"
    and inv :: "'s \<Rightarrow> bool"
  assumes inv_step: "inv s \<Longrightarrow> inv (step s)"
    and conserve1_on: "inv s \<Longrightarrow> out1 (step s) @ fst (owed (step s)) = out1 s @ fst (owed s)"
    and conserve2_on: "inv s \<Longrightarrow> out2 (step s) @ snd (owed (step s)) = out2 s @ snd (owed s)"
    and progress_on: "inv s \<Longrightarrow> owed s \<noteq> ([], []) \<Longrightarrow> work (step s) < work s"

sublocale stage2_on \<subseteq> one_on: stage_on step out1 "\<lambda>s. fst (owed s)" inv work
  by unfold_locales (use conserve1_on inv_step progress_on in fastforce)+

sublocale stage2_on \<subseteq> two_on: stage_on step out2 "\<lambda>s. snd (owed s)" inv work
  by unfold_locales (use conserve2_on inv_step progress_on in fastforce)+

context stage2_on
begin

theorem drains2_on:
  assumes "inv s"
  shows "\<exists>n \<le> work s. owed ((step ^^ n) s) = ([], []) \<and>
    out1 ((step ^^ n) s) = out1 s @ fst (owed s) \<and> out2 ((step ^^ n) s) = out2 s @ snd (owed s)"
  using assms
proof (induction "work s" arbitrary: s rule: less_induct)
  case less
  show ?case
  proof (cases "owed s = ([], [])")
    case True
    then show ?thesis by (intro exI [of _ 0]) simp
  next
    case False
    with less.prems have dec: "work (step s) < work s" by (rule progress_on)
    moreover have "inv (step s)" using less.prems by (rule inv_step)
    ultimately obtain n where n: "n \<le> work (step s)" "owed ((step ^^ n) (step s)) = ([], [])"
      "out1 ((step ^^ n) (step s)) = out1 (step s) @ fst (owed (step s))"
      "out2 ((step ^^ n) (step s)) = out2 (step s) @ snd (owed (step s))"
      using less.hyps by blast
    then have "owed ((step ^^ Suc n) s) = ([], [])" "out1 ((step ^^ Suc n) s) = out1 s @ fst (owed s)"
      "out2 ((step ^^ Suc n) s) = out2 s @ snd (owed s)"
      by (simp_all add: funpow_swap1 conserve1_on conserve2_on less.prems)
    moreover have "Suc n \<le> work s" using n(1) dec by simp
    ultimately show ?thesis by blast
  qed
qed

end

locale stage2 =
  fixes step :: "'s \<Rightarrow> 's"
    and out1 :: "'s \<Rightarrow> 'b list"
    and out2 :: "'s \<Rightarrow> 'c list"
    and owed :: "'s \<Rightarrow> 'b list \<times> 'c list"
    and work :: "'s \<Rightarrow> nat"
    and ready :: "'s \<Rightarrow> bool"
  assumes conserve1: "out1 (step s) @ fst (owed (step s)) = out1 s @ fst (owed s)"
    and conserve2: "out2 (step s) @ snd (owed (step s)) = out2 s @ snd (owed s)"
    and ready_step: "ready s \<Longrightarrow> ready (step s)"
    and progress: "ready s \<Longrightarrow> owed s \<noteq> ([], []) \<Longrightarrow> work (step s) < work s"

sublocale stage2 \<subseteq> one: stage step out1 "\<lambda>s. fst (owed s)" work ready
  by unfold_locales (use conserve1 ready_step progress in fastforce)+

sublocale stage2 \<subseteq> two: stage step out2 "\<lambda>s. snd (owed s)" work ready
  by unfold_locales (use conserve2 ready_step progress in fastforce)+

sublocale stage2 \<subseteq> live2: stage2_on step out1 out2 owed work ready
  by unfold_locales (use conserve1 conserve2 ready_step progress in auto)

context stage2
begin

theorem drains2:
  assumes "ready s"
  shows "\<exists>n \<le> work s. owed ((step ^^ n) s) = ([], []) \<and>
    out1 ((step ^^ n) s) = out1 s @ fst (owed s) \<and> out2 ((step ^^ n) s) = out2 s @ snd (owed s)"
  using assms by (rule live2.drains2_on)

end

text \<open>
  A link carries words from a producer to a consumer. The producer pushes, the consumer pops and
  the link is clocked, in any order; \<open>contents\<close> are the words on the way.
\<close>

datatype 'a link_event = Push 'a | Clock | Pop

fun link_run ::
  "('a \<Rightarrow> 's \<Rightarrow> 's) \<Rightarrow> ('s \<Rightarrow> 's) \<Rightarrow> ('s \<Rightarrow> ('a \<times> 's) option) \<Rightarrow>
   's \<Rightarrow> 'a link_event list \<Rightarrow> 'a list \<times> 's" where
  "link_run push clock pop s [] = ([], s)"
| "link_run push clock pop s (Push x # es) = link_run push clock pop (push x s) es"
| "link_run push clock pop s (Clock # es) = link_run push clock pop (clock s) es"
| "link_run push clock pop s (Pop # es) =
     (case pop s of None \<Rightarrow> link_run push clock pop s es
      | Some (x, s') \<Rightarrow>
          (let (xs, t) = link_run push clock pop s' es in (x # xs, t)))"

fun pushes :: "'a link_event list \<Rightarrow> 'a list" where
  "pushes [] = []"
| "pushes (Push x # es) = x # pushes es"
| "pushes (Clock # es) = pushes es"
| "pushes (Pop # es) = pushes es"

locale fifo_relay =
  fixes push :: "'a \<Rightarrow> 's \<Rightarrow> 's"
    and clock :: "'s \<Rightarrow> 's"
    and pop :: "'s \<Rightarrow> ('a \<times> 's) option"
    and contents :: "'s \<Rightarrow> 'a list"
  assumes contents_push: "contents (push x s) = contents s @ [x]"
    and contents_clock: "contents (clock s) = contents s"
    and contents_pop: "pop s = Some (x, s') \<Longrightarrow> contents s = x # contents s'"
begin

theorem run_is_fifo:
  "link_run push clock pop s es = (xs, t) \<Longrightarrow> xs @ contents t = contents s @ pushes es"
proof (induction es arbitrary: s xs)
  case Nil
  then show ?case by simp
next
  case (Cons e es)
  show ?case
  proof (cases e)
    case (Push x)
    with Cons show ?thesis by (simp add: contents_push)
  next
    case Clock
    with Cons show ?thesis by (simp add: contents_clock)
  next
    case Pop
    show ?thesis
    proof (cases "pop s")
      case None
      with Cons Pop show ?thesis by simp
    next
      case (Some p)
      obtain x s' where p: "p = (x, s')" by (cases p)
      obtain ys where ys: "link_run push clock pop s' es = (ys, t)" "xs = x # ys"
        using Cons.prems Pop Some p by (auto split: prod.splits)
      have "ys @ contents t = contents s' @ pushes es" using ys(1) by (rule Cons.IH)
      moreover have "contents s = x # contents s'" using Some p contents_pop by simp
      ultimately show ?thesis using ys(2) Pop by simp
    qed
  qed
qed

corollary delivered_in_order:
  assumes "link_run push clock pop s es = (xs, t)" "contents s = []"
  shows "\<exists>zs. xs @ zs = pushes es"
  using run_is_fifo [OF assms(1)] assms(2) by auto

end

text \<open>
  A struct that converts to \<open>ap_uint<width>\<close> and back, as the element type of a stream requires.
\<close>

locale packed =
  fixes to_int :: "'a \<Rightarrow> 'w::len word"
    and from_int :: "'w word \<Rightarrow> 'a"
  assumes from_to: "from_int (to_int x) = x"
begin

lemma to_int_inject: "to_int x = to_int y \<longleftrightarrow> x = y"
  using from_to by metis

lemma through_stream: "map from_int (map to_int xs) = xs"
  by (simp add: from_to comp_def)

end

locale packed_onto = packed +
  assumes to_from: "to_int (from_int d) = d"
begin

lemma from_int_inject: "from_int c = from_int d \<longleftrightarrow> c = d"
  using to_from by metis

lemma bij_to_int: "bij to_int"
  by (rule o_bij [of from_int]) (auto simp: from_to to_from)

end

end
