(* ===== verification/Hls_Helper.thy ===== *)
theory Hls_Helper
  imports Nica_Prelude
begin

text \<open>
  The stream plumbing of \<open>src/nica/hls/hls_helper.h\<close>, \<open>link_with_reg.hpp\<close> and \<open>axi_data.hpp\<close>:
  duplicating and linking streams, byte access to wide words, and masking the last word of a
  packet. Each function of the source that is called once per clock is a function from the streams
  (and registers) it touches to their new values.

  \<open>axi_data\<close> (the struct of \<open>ntl\<close> that the sources use through its fields \<open>data\<close>, \<open>keep\<close>, \<open>last\<close>)
  is the record of those fields; a \<open>data_stream\<close> carries such records.
\<close>

record axi_data =
  ad_data :: "256 word"
  ad_keep :: "32 word"
  ad_last :: bool

type_synonym data_stream = "axi_data hls_stream"

section \<open>Duplicating streams\<close>

definition any_full :: "'a hls_stream \<Rightarrow> 'a hls_stream \<Rightarrow> bool" where
  "any_full out1 out2 \<longleftrightarrow> s_full out1 \<or> s_full out2"

definition dup ::
  "'a hls_stream \<Rightarrow> 'a hls_stream \<Rightarrow> 'a hls_stream \<Rightarrow>
   'a hls_stream \<times> 'a hls_stream \<times> 'a hls_stream" where
  "dup inp out1 out2 =
     (if \<not> s_empty inp \<and> \<not> any_full out1 out2 then
        (let (word, inp') = s_read inp in (inp', s_write word out1, s_write word out2))
      else (inp, out1, out2))"

definition dup_array ::
  "'a hls_stream \<Rightarrow> 'a hls_stream list \<Rightarrow> 'a hls_stream \<times> 'a hls_stream list" where
  "dup_array inp outs =
     (if \<not> s_empty inp \<and> \<not> list_ex s_full outs then
        (let (word, inp') = s_read inp in (inp', map (s_write word) outs))
      else (inp, outs))"

definition dup2 ::
  "'a hls_stream \<Rightarrow> 'a hls_stream \<Rightarrow> 'a hls_stream \<Rightarrow>
   'a hls_stream \<times> 'a hls_stream \<times> 'a hls_stream" where
  "dup2 inp out1 out2 =
     (if \<not> s_empty inp \<and> \<not> any_full out1 out2 then
        (let (word, inp') = s_read inp in (inp', s_write word out1, s_write word out2))
      else (inp, out1, out2))"

definition dup3 ::
  "'a hls_stream \<Rightarrow> 'a hls_stream \<Rightarrow> 'a hls_stream \<Rightarrow> 'a hls_stream \<Rightarrow>
   'a hls_stream \<times> 'a hls_stream \<times> 'a hls_stream \<times> 'a hls_stream" where
  "dup3 inp out1 out2 out3 =
     (if \<not> s_empty inp \<and> \<not> (s_full out1 \<or> s_full out2 \<or> s_full out3) then
        (let (word, inp') = s_read inp
         in (inp', s_write word out1, s_write word out2, s_write word out3))
      else (inp, out1, out2, out3))"

text \<open>The registers of a \<open>duplicator\<close> are the two intermediate streams of \<open>dup4\<close>.\<close>

definition dup4 ::
  "'a hls_stream \<times> 'a hls_stream \<Rightarrow>
   'a hls_stream \<Rightarrow> 'a hls_stream \<Rightarrow> 'a hls_stream \<Rightarrow> 'a hls_stream \<Rightarrow> 'a hls_stream \<Rightarrow>
   ('a hls_stream \<times> 'a hls_stream) \<times>
   'a hls_stream \<times> 'a hls_stream \<times> 'a hls_stream \<times> 'a hls_stream \<times> 'a hls_stream" where
  "dup4 im inp out1 out2 out3 out4 =
     (let (inp', im1, im2) = dup2 inp (fst im) (snd im);
          (im1', out1', out2') = dup2 im1 out1 out2;
          (im2', out3', out4') = dup2 im2 out3 out4
      in ((im1', im2'), inp', out1', out2', out3', out4'))"

section \<open>Mapping streams\<close>

definition unary_stream_step ::
  "('a \<Rightarrow> 'b) \<Rightarrow> 'a hls_stream \<Rightarrow> 'b hls_stream \<Rightarrow> 'a hls_stream \<times> 'b hls_stream" where
  "unary_stream_step f inp outp =
     (if \<not> s_empty inp \<and> \<not> s_full outp then
        (let (x, inp') = s_read inp in (inp', s_write (f x) outp))
      else (inp, outp))"

definition binary_stream_step ::
  "('a \<Rightarrow> 'b \<Rightarrow> 'c) \<Rightarrow> 'a hls_stream \<Rightarrow> 'b hls_stream \<Rightarrow> 'c hls_stream \<Rightarrow>
   'a hls_stream \<times> 'b hls_stream \<times> 'c hls_stream" where
  "binary_stream_step f in1 in2 outp =
     (if \<not> s_empty in1 \<and> \<not> s_empty in2 \<and> \<not> s_full outp then
        (let (x, in1') = s_read in1; (y, in2') = s_read in2
         in (in1', in2', s_write (f x y) outp))
      else (in1, in2, outp))"

section \<open>Links\<close>

definition link_axi_stream :: "'a hls_stream \<Rightarrow> 'a hls_stream \<Rightarrow> 'a hls_stream \<times> 'a hls_stream" where
  "link_axi_stream inp outp =
     (case s_read_nb inp of None \<Rightarrow> (inp, outp)
      | Some (flit, inp') \<Rightarrow> (inp', s_write flit outp))"

definition link_fifo :: "'a hls_stream \<Rightarrow> 'a hls_stream \<Rightarrow> 'a hls_stream \<times> 'a hls_stream" where
  "link_fifo inp outp =
     (if s_empty inp \<or> s_full outp then (inp, outp)
      else (let (flit, inp') = s_read inp in (inp', s_write_nb flit outp)))"

definition link_axi_to_fifo :: "'a hls_stream \<Rightarrow> 'a hls_stream \<Rightarrow> 'a hls_stream \<times> 'a hls_stream" where
  "link_axi_to_fifo inp outp =
     (if s_empty inp \<or> s_full outp then (inp, outp)
      else (let (flit, inp') = s_read inp in (inp', s_write_nb flit outp)))"

definition consume :: "'a hls_stream \<Rightarrow> 'a hls_stream" where
  "consume inp = (if \<not> s_empty inp then snd (s_read inp) else inp)"

definition consume_if :: "'a hls_stream \<Rightarrow> bool \<Rightarrow> 'a hls_stream" where
  "consume_if inp enabled = (if enabled \<and> \<not> s_empty inp then snd (s_read inp) else inp)"

text \<open>
  \<open>link_with_reg<T, check_full>\<close>: the register \<open>reg\<close> is meaningful when \<open>valid\<close> is set.
\<close>

record 'a link_reg =
  lr_valid :: bool
  lr_reg :: 'a

definition link_with_reg ::
  "bool \<Rightarrow> 'a link_reg \<Rightarrow> 'a hls_stream \<Rightarrow> 'a hls_stream \<Rightarrow>
   'a link_reg \<times> 'a hls_stream \<times> 'a hls_stream" where
  "link_with_reg check_full r inp outp =
     (let (r1, outp') = (if lr_valid r \<and> (\<not> check_full \<or> \<not> s_full outp)
                         then (r\<lparr>lr_valid := False\<rparr>, s_write (lr_reg r) outp)
                         else (r, outp));
          (r2, inp') = (if \<not> s_empty inp \<and> \<not> lr_valid r1
                        then (let (x, i') = s_read inp in (r1\<lparr>lr_reg := x, lr_valid := True\<rparr>, i'))
                        else (r1, inp))
      in (r2, inp', outp'))"

subsection \<open>Every link is a queue\<close>

text \<open>
  The environment of a link: pushing appends to the input stream, popping takes from the output
  stream. The three links between two streams, the registered link and each branch of the
  duplicators satisfy the contract of a first-in first-out relay, at any stream depths.
\<close>

definition pair_push :: "'a \<Rightarrow> 'a hls_stream \<times> 'r \<Rightarrow> 'a hls_stream \<times> 'r" where
  "pair_push x s = (s_write x (fst s), snd s)"

definition pair_pop ::
  "'b \<times> 'a hls_stream \<Rightarrow> ('a \<times> 'b \<times> 'a hls_stream) option" where
  "pair_pop s = (if s_empty (snd s) then None
                 else Some (hd (que (snd s)), fst s, snd (s_read (snd s))))"

definition pair_contents :: "'a hls_stream \<times> 'a hls_stream \<Rightarrow> 'a list" where
  "pair_contents s = que (snd s) @ que (fst s)"

lemmas link_defs = pair_push_def pair_pop_def pair_contents_def

interpretation lf: fifo_relay pair_push "\<lambda>s. link_fifo (fst s) (snd s)" pair_pop pair_contents
  by unfold_locales
    (auto simp: link_defs link_fifo_def stream_defs split: if_splits)

interpretation laf: fifo_relay pair_push "\<lambda>s. link_axi_to_fifo (fst s) (snd s)" pair_pop pair_contents
  by unfold_locales
    (auto simp: link_defs link_axi_to_fifo_def stream_defs split: if_splits)

interpretation las: fifo_relay pair_push "\<lambda>s. link_axi_stream (fst s) (snd s)" pair_pop pair_contents
  by unfold_locales
    (auto simp: link_defs link_axi_stream_def stream_defs split: if_splits)

definition reg_push ::
  "'a \<Rightarrow> 'a link_reg \<times> 'a hls_stream \<times> 'a hls_stream \<Rightarrow> 'a link_reg \<times> 'a hls_stream \<times> 'a hls_stream" where
  "reg_push x s = (fst s, s_write x (fst (snd s)), snd (snd s))"

definition reg_clock ::
  "bool \<Rightarrow> 'a link_reg \<times> 'a hls_stream \<times> 'a hls_stream \<Rightarrow> 'a link_reg \<times> 'a hls_stream \<times> 'a hls_stream" where
  "reg_clock check_full s = link_with_reg check_full (fst s) (fst (snd s)) (snd (snd s))"

definition reg_pop ::
  "'a link_reg \<times> 'a hls_stream \<times> 'a hls_stream \<Rightarrow>
   ('a \<times> 'a link_reg \<times> 'a hls_stream \<times> 'a hls_stream) option" where
  "reg_pop s = (case s of (r, i, p) \<Rightarrow>
     if s_empty p then None else Some (hd (que p), r, i, snd (s_read p)))"

definition reg_contents :: "'a link_reg \<times> 'a hls_stream \<times> 'a hls_stream \<Rightarrow> 'a list" where
  "reg_contents s =
     que (snd (snd s)) @ (if lr_valid (fst s) then [lr_reg (fst s)] else []) @ que (fst (snd s))"

lemmas reg_link_defs = reg_push_def reg_clock_def reg_pop_def reg_contents_def

interpretation lwr: fifo_relay reg_push "reg_clock check_full" reg_pop reg_contents
  by unfold_locales
    (auto simp: reg_link_defs link_with_reg_def stream_defs Let_def split: if_splits)

definition dup_clock1 :: "'a hls_stream \<Rightarrow> 'a hls_stream \<times> 'a hls_stream \<Rightarrow> 'a hls_stream \<times> 'a hls_stream" where
  "dup_clock1 other s = (case dup (fst s) (snd s) other of (i, o1, o2) \<Rightarrow> (i, o1))"

definition dup_clock2 :: "'a hls_stream \<Rightarrow> 'a hls_stream \<times> 'a hls_stream \<Rightarrow> 'a hls_stream \<times> 'a hls_stream" where
  "dup_clock2 other s = (case dup (fst s) other (snd s) of (i, o1, o2) \<Rightarrow> (i, o2))"

interpretation dup1: fifo_relay pair_push "dup_clock1 other" pair_pop pair_contents
  by unfold_locales
    (auto simp: link_defs dup_clock1_def dup_def stream_defs Let_def split: if_splits)

interpretation dup2: fifo_relay pair_push "dup_clock2 other" pair_pop pair_contents
  by unfold_locales
    (auto simp: link_defs dup_clock2_def dup_def stream_defs Let_def split: if_splits)

section \<open>Bytes of a wide word\<close>

definition swap16 :: "16 word \<Rightarrow> 16 word" where
  "swap16 d = word_cat (ap_range 7 0 d :: 8 word) (ap_range 15 8 d :: 8 word)"

text \<open>Byte \<open>i\<close> counts from the most significant end, the order of the bytes on the wire.\<close>

definition get_byte :: "'a::len word \<Rightarrow> nat \<Rightarrow> 8 word" where
  "get_byte vec i =
     ap_range ((LENGTH('a) - 1) - i * 8) ((LENGTH('a) - 1) - ((i + 1) * 8 - 1)) vec"

definition write_byte :: "'a::len word \<Rightarrow> nat \<Rightarrow> 8 word \<Rightarrow> 'a word" where
  "write_byte vec i val =
     ap_set_range ((LENGTH('a) - 1) - i * 8) ((LENGTH('a) - 1) - ((i + 1) * 8 - 1)) val vec"

definition memcpy_ap :: "nat \<Rightarrow> 'a::len word \<Rightarrow> 'b::len word \<Rightarrow> 'a word" where
  "memcpy_ap sz dest src = fold (\<lambda>i d. write_byte d i (get_byte src i)) [0..<sz] dest"

definition memcpy_array :: "nat \<Rightarrow> 'a list \<Rightarrow> 'a list \<Rightarrow> 'a list" where
  "memcpy_array sz dest src = fold (\<lambda>i d. d[i := src ! i]) [0..<sz] dest"

definition ap_uint_to_char :: "nat \<Rightarrow> 8 word list \<Rightarrow> 'a::len word \<Rightarrow> 8 word list" where
  "ap_uint_to_char sz dst src = fold (\<lambda>i d. d[i := get_byte src i]) [0..<sz] dst"

definition memset_array :: "nat \<Rightarrow> 'a list \<Rightarrow> 'a \<Rightarrow> 'a list" where
  "memset_array sz dest value = fold (\<lambda>i d. d[i := value]) [0..<sz] dest"

definition bytes_to_int :: "8 word list \<Rightarrow> nat \<Rightarrow> 32 word" where
  "bytes_to_int bytes offset =
     (push_bit 24 (ucast (bytes ! (4 * offset)))
      OR push_bit 16 (ucast (bytes ! (4 * offset + 1)) AND 0xFF)
      OR push_bit 8 (ucast (bytes ! (4 * offset + 2)) AND 0xFF)
      OR (ucast (bytes ! (4 * offset + 3)) AND 0xFF))"

definition int_to_bytes :: "32 word \<Rightarrow> 'a::len word \<Rightarrow> nat \<Rightarrow> 'a word" where
  "int_to_bytes src dest offset =
     write_byte (write_byte (write_byte (write_byte dest
       (4 * offset) (ucast (drop_bit 24 src)))
       (4 * offset + 1) (ucast (drop_bit 16 src)))
       (4 * offset + 2) (ucast (drop_bit 8 src)))
       (4 * offset + 3) (ucast src)"

lemma bit_get_byte:
  assumes "(i + 1) * 8 \<le> LENGTH('a)"
  shows "bit (get_byte (vec :: 'a::len word) i) n \<longleftrightarrow> n < 8 \<and> bit vec (LENGTH('a) - (i + 1) * 8 + n)"
  using assms by (auto simp: get_byte_def bit_ap_range)

lemma bit_write_byte:
  assumes "(i + 1) * 8 \<le> LENGTH('a)"
  shows "bit (write_byte (vec :: 'a::len word) i val) n \<longleftrightarrow>
    (if LENGTH('a) - (i + 1) * 8 \<le> n \<and> n < LENGTH('a) - i * 8
     then bit val (n - (LENGTH('a) - (i + 1) * 8)) else bit vec n)"
  using assms by (auto simp: write_byte_def bit_ap_set_range)

lemma get_write_byte:
  assumes "(i + 1) * 8 \<le> LENGTH('a)" "(j + 1) * 8 \<le> LENGTH('a)"
  shows "get_byte (write_byte (vec :: 'a::len word) i val) j = (if i = j then val else get_byte vec j)"
proof (rule bit_word_eqI)
  fix n
  assume n: "n < LENGTH(8)"
  have "i < j \<Longrightarrow> (i + 1) * 8 \<le> j * 8" "j < i \<Longrightarrow> (j + 1) * 8 \<le> i * 8" by simp_all
  with assms n
  show "bit (get_byte (write_byte vec i val) j) n = bit (if i = j then val else get_byte vec j) n"
    by (cases i j rule: linorder_cases) (auto simp: bit_get_byte bit_write_byte)
qed

lemma get_byte_memcpy_ap:
  assumes "sz * 8 \<le> LENGTH('a)" "(j + 1) * 8 \<le> LENGTH('a)"
  shows "get_byte (memcpy_ap sz (dest :: 'a::len word) src) j =
    (if j < sz then get_byte src j else get_byte dest j)"
  using assms(1)
proof (induction sz)
  case 0
  then show ?case by (simp add: memcpy_ap_def)
next
  case (Suc m)
  then have IH: "get_byte (memcpy_ap m dest src) j = (if j < m then get_byte src j else get_byte dest j)"
    and m: "(m + 1) * 8 \<le> LENGTH('a)" by simp_all
  have "memcpy_ap (Suc m) dest src = write_byte (memcpy_ap m dest src) m (get_byte src m)"
    by (simp add: memcpy_ap_def)
  then show ?case using IH get_write_byte [OF m assms(2)] by (auto simp: less_Suc_eq)
qed

lemma word_eq_bytes:
  assumes "LENGTH('a) = 8 * n" "\<And>j. j < n \<Longrightarrow> get_byte (a :: 'a::len word) j = get_byte b j"
  shows "a = b"
proof (rule bit_word_eqI)
  fix m assume "m < LENGTH('a)"
  let ?j = "n - 1 - m div 8"
  have m: "m div 8 < n" using \<open>m < LENGTH('a)\<close> assms(1) by auto
  then have "(?j + 1) * 8 \<le> LENGTH('a)" "LENGTH('a) - (?j + 1) * 8 + m mod 8 = m"
    using assms(1) by (auto simp: algebra_simps)
  moreover have "get_byte a ?j = get_byte b ?j" using assms(2) m by auto
  ultimately show "bit a m = bit b m"
    using bit_get_byte [of ?j a "m mod 8"] bit_get_byte [of ?j b "m mod 8"] by simp
qed

lemma get_byte_fold_write:
  assumes "(off + n) * 8 \<le> LENGTH('a)" "(j + 1) * 8 \<le> LENGTH('a)"
  shows "get_byte (fold (\<lambda>i w. write_byte w (off + i) (f i)) [0..<n] (w :: 'a::len word)) j =
    (if off \<le> j \<and> j < off + n then f (j - off) else get_byte w j)"
  using assms(1)
proof (induction n)
  case 0
  then show ?case by auto
next
  case (Suc n)
  then have "(off + n + 1) * 8 \<le> LENGTH('a)" by simp
  with Suc assms(2) show ?case by (auto simp: get_write_byte)
qed

lemma length_fold_update [simp]: "length (fold (\<lambda>i d. d[i := f i]) is xs) = length xs"
  by (induction "is" arbitrary: xs) simp_all

lemma fold_update_nth:
  "j < length xs \<Longrightarrow> fold (\<lambda>i d. d[i := f i]) [0..<n] xs ! j = (if j < n then f j else xs ! j)"
  by (induction n) (auto simp: nth_list_update less_Suc_eq)

lemma fold_update_eq:
  "n \<le> length xs \<Longrightarrow> fold (\<lambda>i d. d[i := f i]) [0..<n] xs = map f [0..<n] @ drop n xs"
  by (rule nth_equalityI) (auto simp: fold_update_nth nth_append)

lemma memcpy_array_eq:
  "\<lbrakk>n \<le> length dest; n \<le> length src\<rbrakk> \<Longrightarrow> memcpy_array n dest src = take n src @ drop n dest"
  by (rule nth_equalityI) (auto simp: memcpy_array_def fold_update_nth nth_append)

lemma memset_array_eq: "n \<le> length dest \<Longrightarrow> memset_array n dest v = replicate n v @ drop n dest"
  by (rule nth_equalityI) (auto simp: memset_array_def fold_update_nth nth_append)

lemma word_ff_and: "(ucast (b :: 8 word) :: 32 word) AND 0xFF = ucast b"
proof -
  have "(0xFF :: 32 word) = mask 8" by (simp add: mask_eq_exp_minus_1)
  then have "(ucast b :: 32 word) AND 0xFF = take_bit 8 (ucast b)" by (simp add: take_bit_eq_mask)
  also have "\<dots> = ucast b" by (intro bit_word_eqI) (auto simp: bit_simps dest: bit_imp_le_length)
  finally show ?thesis .
qed

text \<open>Writing an integer into four bytes and reading the four bytes back gives the integer.\<close>

lemma bytes_to_int_of_int_to_bytes:
  assumes len: "(4 * offset + 4) * 8 \<le> LENGTH('a)"
    and bs: "\<And>k. k < 4 \<Longrightarrow> bytes ! (4 * offset + k) = get_byte (int_to_bytes src (dest :: 'a::len word) offset) (4 * offset + k)"
  shows "bytes_to_int bytes offset = src"
proof -
  have b: "bytes ! (4 * offset) = ucast (drop_bit 24 src)"
      "bytes ! (4 * offset + 1) = ucast (drop_bit 16 src)"
      "bytes ! (4 * offset + 2) = ucast (drop_bit 8 src)"
      "bytes ! (4 * offset + 3) = ucast src"
    using bs [of 0] bs [of 1] bs [of 2] bs [of 3] len
    by (simp_all add: int_to_bytes_def get_write_byte)
  show ?thesis
    unfolding bytes_to_int_def b word_ff_and
  proof (rule bit_word_eqI)
    fix n
    assume "n < LENGTH(32)"
    then consider "n < 8" | "8 \<le> n" "n < 16" | "16 \<le> n" "n < 24" | "24 \<le> n" "n < 32"
      by (simp, linarith)
    then show "bit (push_bit 24 (ucast (ucast (drop_bit 24 src) :: 8 word))
        OR push_bit 16 (ucast (ucast (drop_bit 16 src) :: 8 word))
        OR push_bit 8 (ucast (ucast (drop_bit 8 src) :: 8 word))
        OR ucast (ucast src :: 8 word) :: 32 word) n = bit src n"
      by cases (auto simp: bit_simps dest: bit_imp_le_length)
  qed
qed

section \<open>Masking the last word\<close>

definition mask_last_word :: "axi_data \<Rightarrow> 256 word" where
  "mask_last_word word =
     (let ret = map (\<lambda>i. ap_range ((i + 1) * 8 - 1) (i * 8) (ad_data word) :: 8 word) [0..<32];
          ret' = (if ad_last word
                  then map (\<lambda>i. if \<not> bit (ad_keep word) (32 - 1 - i) then 0 else ret ! i) [0..<32]
                  else ret)
      in fold (\<lambda>i r. ap_set_range ((i + 1) * 8 - 1) (i * 8) (ret' ! i) r) [0..<32] 0)"

lemma bit_fold_set_bytes:
  assumes "m \<le> 32"
  shows "bit (fold (\<lambda>i r. ap_set_range ((i + 1) * 8 - 1) (i * 8) (f i :: 8 word) r) [0..<m] (0 :: 256 word)) n
    \<longleftrightarrow> n < m * 8 \<and> bit (f (n div 8)) (n mod 8)"
  using assms
proof (induction m)
  case 0
  then show ?case by simp
next
  case (Suc m)
  have "m * 8 \<le> n \<Longrightarrow> n \<le> (m + 1) * 8 - 1 \<Longrightarrow> n div 8 = m" by (simp add: div_nat_eqI)
  moreover have "n - n div 8 * 8 = n mod 8" by (simp add: minus_div_mult_eq_mod)
  ultimately show ?case using Suc
    by (auto simp: bit_ap_set_range mult.commute less_le_not_le)
qed

lemma bit_mask_last_word:
  "bit (mask_last_word w) n \<longleftrightarrow>
     bit (ad_data w) n \<and> (ad_last w \<longrightarrow> bit (ad_keep w) (31 - n div 8))"
proof (cases "n < 256")
  case True
  then have "n div 8 < 32" and "n mod 8 < 8" and "n div 8 * 8 + n mod 8 = n" by simp_all
  then show ?thesis using True
    by (auto simp: mask_last_word_def Let_def bit_fold_set_bytes [simplified] bit_ap_range)
next
  case False
  then show ?thesis
    by (auto simp: mask_last_word_def Let_def bit_fold_set_bytes [simplified] dest: bit_imp_le_length)
qed

end
