(* ===== verification/Packet_Filter.thy ===== *)
theory Packet_Filter
  imports Hls_Helper
begin

text \<open>
  What it means to filter packets by a sequence of decisions, and the \<open>drop_or_pass\<close> class of
  \<open>src/nica/hls/drop_or_pass.hpp\<close> as the first unit that does it. The droppers of the other
  components are proved against the same specification.

  A packet is a non-empty list of words of which exactly the last one has the \<open>last\<close> bit.
  \<open>filter_run lastp mode ds ws\<close> is the output that the decisions \<open>ds\<close> determine for the words
  \<open>ws\<close>; \<open>mode\<close> is the decision of the packet that is being streamed, if there is one.
\<close>

definition is_packet :: "('w \<Rightarrow> bool) \<Rightarrow> 'w list \<Rightarrow> bool" where
  "is_packet lastp p \<longleftrightarrow> p \<noteq> [] \<and> (\<forall>w \<in> set (butlast p). \<not> lastp w) \<and> lastp (last p)"

fun filter_run :: "('w \<Rightarrow> bool) \<Rightarrow> bool option \<Rightarrow> bool list \<Rightarrow> 'w list \<Rightarrow> 'w list" where
  "filter_run lastp m ds [] = []"
| "filter_run lastp None [] (w # ws) = []"
| "filter_run lastp None (d # ds) (w # ws) =
     (if d then [w] else []) @ filter_run lastp (if lastp w then None else Some d) ds ws"
| "filter_run lastp (Some d) ds (w # ws) =
     (if d then [w] else []) @ filter_run lastp (if lastp w then None else Some d) ds ws"

definition passed_packets :: "bool list \<Rightarrow> 'w list list \<Rightarrow> 'w list list" where
  "passed_packets ds pkts = map snd (filter fst (zip ds pkts))"

lemma is_packet_Cons:
  "is_packet lastp (w # ws) \<longleftrightarrow> (if ws = [] then lastp w else \<not> lastp w \<and> is_packet lastp ws)"
  by (auto simp: is_packet_def)

lemma not_is_packet_Nil [simp]: "\<not> is_packet lastp []"
  by (simp add: is_packet_def)

lemma filter_run_rest:
  "is_packet lastp p \<Longrightarrow>
   filter_run lastp (Some d) ds (p @ ws) = (if d then p else []) @ filter_run lastp None ds ws"
  by (induction p) (auto simp: is_packet_Cons split: if_splits)

lemma filter_run_packet:
  "is_packet lastp p \<Longrightarrow>
   filter_run lastp None (d # ds) (p @ ws) = (if d then p else []) @ filter_run lastp None ds ws"
  by (cases p) (auto simp: is_packet_Cons filter_run_rest split: if_splits)

lemma filter_run_no_decision [simp]: "filter_run lastp None [] ws = []"
  by (cases ws) simp_all

text \<open>On whole packets, filtering keeps exactly the packets with a positive decision.\<close>

theorem filter_run_packets:
  assumes "\<forall>p \<in> set pkts. is_packet lastp p"
  shows "filter_run lastp None ds (concat pkts) = concat (passed_packets ds pkts)"
  using assms
proof (induction pkts arbitrary: ds)
  case Nil
  then show ?case by (simp add: passed_packets_def)
next
  case (Cons p pkts)
  then show ?case
    by (cases ds) (simp_all add: passed_packets_def filter_run_packet)
qed

lemma filter_run_nonempty:
  "filter_run lastp m ds ws \<noteq> [] \<Longrightarrow> ws \<noteq> [] \<and> (m \<noteq> None \<or> ds \<noteq> [])"
  by (cases "(lastp, m, ds, ws)" rule: filter_run.cases) auto

section \<open>drop\_or\_pass\<close>

datatype dop_phase = DECISION | STREAM

record drop_or_pass =
  dop_state :: dop_phase
  dop_pass :: bool

definition drop_or_pass_init :: "bool \<Rightarrow> drop_or_pass" where
  "drop_or_pass_init p = \<lparr>dop_state = DECISION, dop_pass = p\<rparr>"

definition drop_or_pass_stream ::
  "drop_or_pass \<Rightarrow> data_stream \<Rightarrow> data_stream \<Rightarrow> drop_or_pass \<times> data_stream \<times> data_stream" where
  "drop_or_pass_stream st inp outp =
     (if s_empty inp then (st, inp, outp)
      else (let (d, inp') = s_read inp
            in (if ad_last d then st\<lparr>dop_state := DECISION\<rparr> else st,
                inp',
                if dop_pass st then s_write d outp else outp)))"

definition drop_or_pass_filter ::
  "drop_or_pass \<Rightarrow> bool hls_stream \<Rightarrow> data_stream \<Rightarrow> data_stream \<Rightarrow>
   drop_or_pass \<times> bool hls_stream \<times> data_stream \<times> data_stream" where
  "drop_or_pass_filter st decision inp outp =
     (case dop_state st of
        DECISION \<Rightarrow>
          if s_empty decision then (st, decision, inp, outp)
          else (let (p, decision') = s_read decision;
                    (st', inp', outp') =
                      drop_or_pass_stream (st\<lparr>dop_pass := p, dop_state := STREAM\<rparr>) inp outp
                in (st', decision', inp', outp'))
      | STREAM \<Rightarrow>
          (let (st', inp', outp') = drop_or_pass_stream st inp outp
           in (st', decision, inp', outp')))"

type_synonym dop_sys = "drop_or_pass \<times> bool hls_stream \<times> data_stream \<times> data_stream"

definition dop_step :: "dop_sys \<Rightarrow> dop_sys" where
  "dop_step s = (case s of (st, dec, inp, outp) \<Rightarrow> drop_or_pass_filter st dec inp outp)"

definition dop_out :: "dop_sys \<Rightarrow> axi_data list" where
  "dop_out s = que (snd (snd (snd s)))"

definition dop_mode :: "drop_or_pass \<Rightarrow> bool option" where
  "dop_mode st = (case dop_state st of DECISION \<Rightarrow> None | STREAM \<Rightarrow> Some (dop_pass st))"

definition dop_pend :: "dop_sys \<Rightarrow> axi_data list" where
  "dop_pend s = (case s of (st, dec, inp, outp) \<Rightarrow>
     filter_run ad_last (dop_mode st) (que dec) (que inp))"

definition dop_work :: "dop_sys \<Rightarrow> nat" where
  "dop_work s = length (que (fst (snd (snd s))))"

lemmas dop_defs = dop_step_def dop_out_def dop_mode_def dop_pend_def dop_work_def
  drop_or_pass_filter_def drop_or_pass_stream_def

text \<open>
  Reading a decision and finding no data yet leaves the same output owed, since the decision moves
  from the queue into the register.
\<close>

lemma filter_run_take_decision:
  "filter_run lastp (Some d) ds ws = filter_run lastp None (d # ds) ws"
  by (cases ws) simp_all

interpretation dop: stage dop_step dop_out dop_pend dop_work "\<lambda>s. True"
proof unfold_locales
  fix s :: dop_sys
  obtain st dec inp outp where s: "s = (st, dec, inp, outp)" by (cases s)
  show "dop_out (dop_step s) @ dop_pend (dop_step s) = dop_out s @ dop_pend s"
    unfolding s by (cases "que dec"; cases "que inp"; cases "dop_state st")
      (auto simp: dop_defs stream_defs)
  show "dop_work (dop_step s) < dop_work s" if "dop_pend s \<noteq> []"
    using that unfolding s by (cases "que dec"; cases "que inp"; cases "dop_state st")
      (auto simp: dop_defs stream_defs)
qed auto

end
