(* ===== verification/Mlx.thy ===== *)
theory Mlx
  imports Packet_Filter
begin

text \<open>
  The shell interface of \<open>src/nica/hls/mlx.h\<close> and \<open>mlx.cpp\<close>: the AXI4-Stream beats exchanged with
  the NIC, the per-packet side band (\<open>user\<close>, \<open>id\<close>), and the units that drop packets and that split
  the side band off and join it again.
\<close>

record axi4s =
  mx_data :: "256 word"
  mx_keep :: "32 word"
  mx_last :: bool
  mx_user :: "12 word"
  mx_id :: "3 word"

type_synonym mlx_stream = "axi4s hls_stream"

definition axi4s_of_axi_data :: "axi_data \<Rightarrow> 12 word \<Rightarrow> 3 word \<Rightarrow> axi4s" where
  "axi4s_of_axi_data flit user i =
     \<lparr>mx_data = ad_data flit, mx_keep = ad_keep flit, mx_last = ad_last flit, mx_user = user, mx_id = i\<rparr>"

definition axi_data_of_axi4s :: "axi4s \<Rightarrow> axi_data" where
  "axi_data_of_axi4s w = \<lparr>ad_data = mx_data w, ad_keep = mx_keep w, ad_last = mx_last w\<rparr>"

definition USER_DROP :: "12 word" where "USER_DROP = 1"
definition USER_LOSSY :: "12 word" where "USER_LOSSY = 4"

text \<open>The range \<open>tmp(0, 31)\<close> with the bounds swapped is the word with its bits reversed.\<close>

definition last_word_keep_num_bytes_valid :: "5 word \<Rightarrow> 32 word" where
  "last_word_keep_num_bytes_valid num_valid =
     (let tmp = (push_bit (unat num_valid) 1 - 1 :: 32 word)
      in if num_valid \<noteq> 0 then word_reverse tmp else 0xffffffff)"

record mlx_metadata =
  mm_user :: "12 word"
  mm_id :: "3 word"

definition mlx_metadata_from_int :: "15 word \<Rightarrow> mlx_metadata" where
  "mlx_metadata_from_int d = \<lparr>mm_user = ap_range 14 3 d, mm_id = ap_range 2 0 d\<rparr>"

definition mlx_metadata_to_int :: "mlx_metadata \<Rightarrow> 15 word" where
  "mlx_metadata_to_int m = word_cat (mm_user m) (mm_id m)"

definition set_drop :: "bool \<Rightarrow> mlx_metadata \<Rightarrow> mlx_metadata" where
  "set_drop drp m = (if drp then m\<lparr>mm_user := mm_user m OR USER_DROP\<rparr>
                     else m\<lparr>mm_user := mm_user m AND NOT USER_DROP\<rparr>)"

definition get_drop :: "mlx_metadata \<Rightarrow> bool" where
  "get_drop m \<longleftrightarrow> mm_user m AND USER_DROP \<noteq> 0"

definition split_metadata :: "axi4s \<Rightarrow> mlx_metadata \<times> axi_data" where
  "split_metadata i =
     (\<lparr>mm_user = mx_user i, mm_id = mx_id i\<rparr>,
      \<lparr>ad_data = mx_data i, ad_keep = mx_keep i, ad_last = mx_last i\<rparr>)"

definition join_metadata :: "mlx_metadata \<times> axi_data \<Rightarrow> axi4s" where
  "join_metadata i =
     (let (m, d) = i
      in \<lparr>mx_data = ad_data d, mx_keep = ad_keep d, mx_last = ad_last d,
          mx_user = mm_user m, mx_id = mm_id m\<rparr>)"

section \<open>dropper\<close>

datatype idle_stream = IDLE | STREAMING

record mlx_dropper =
  md_drop :: bool
  md_state :: idle_stream

definition mlx_dropper_step ::
  "mlx_dropper \<Rightarrow> mlx_stream \<Rightarrow> bool hls_stream \<Rightarrow> mlx_stream \<Rightarrow>
   mlx_dropper \<times> mlx_stream \<times> bool hls_stream \<times> mlx_stream" where
  "mlx_dropper_step st inp pass_stream outp =
     (case md_state st of
        IDLE \<Rightarrow>
          if \<not> s_empty pass_stream \<and> \<not> s_empty inp \<and> \<not> s_full outp then
            (let (pass, pass_stream') = s_read pass_stream;
                 (word, inp') = s_read inp
             in (\<lparr>md_drop = \<not> pass, md_state = (if mx_last word then IDLE else STREAMING)\<rparr>,
                 inp', pass_stream', if pass then s_write word outp else outp))
          else (st, inp, pass_stream, outp)
      | STREAMING \<Rightarrow>
          if \<not> s_empty inp \<and> \<not> s_full outp then
            (let (word, inp') = s_read inp
             in (st\<lparr>md_state := (if mx_last word then IDLE else STREAMING)\<rparr>,
                 inp', pass_stream, if \<not> md_drop st then s_write word outp else outp))
          else (st, inp, pass_stream, outp))"

section \<open>join\_packet\_metadata\<close>

record join_packet_metadata =
  jp_state :: idle_stream
  jp_m :: mlx_metadata

definition join_packet_metadata_step ::
  "join_packet_metadata \<Rightarrow> mlx_metadata hls_stream \<Rightarrow> data_stream \<Rightarrow> mlx_stream \<Rightarrow>
   join_packet_metadata \<times> mlx_metadata hls_stream \<times> data_stream \<times> mlx_stream" where
  "join_packet_metadata_step st meta_in data_in outp =
     (case jp_state st of
        IDLE \<Rightarrow>
          (case s_read_nb meta_in of None \<Rightarrow> (st, meta_in, data_in, outp)
           | Some (m, meta_in') \<Rightarrow> (st\<lparr>jp_m := m, jp_state := STREAMING\<rparr>, meta_in', data_in, outp))
      | STREAMING \<Rightarrow>
          if s_empty data_in \<or> s_full outp then (st, meta_in, data_in, outp)
          else (let (d, data_in') = s_read data_in
                in (st\<lparr>jp_state := (if ad_last d then IDLE else STREAMING)\<rparr>, meta_in, data_in',
                    s_write_nb (join_metadata (jp_m st, d)) outp)))"

section \<open>extract\_metadata\<close>

text \<open>
  The enumerator of \<open>ntl\<close> tags each beat with its position in its packet; its queue of tagged beats
  is an input here, and \<open>link\<close> stands for \<open>ntl::peek_stream::link\<close>, which moves the enumerator's
  output into that queue.
\<close>

definition extract_metadata_mlx_metadata ::
  "('e \<Rightarrow> (int \<times> axi4s) hls_stream \<Rightarrow> 'e \<times> (int \<times> axi4s) hls_stream) \<Rightarrow>
   'e \<Rightarrow> (int \<times> axi4s) hls_stream \<Rightarrow> mlx_metadata hls_stream \<Rightarrow> data_stream \<Rightarrow>
   'e \<times> (int \<times> axi4s) hls_stream \<times> mlx_metadata hls_stream \<times> data_stream" where
  "extract_metadata_mlx_metadata link en enum_out out_metadata out_data =
     (let (en', enum_out') = link en enum_out
      in if s_empty enum_out' \<or> s_full out_data then (en', enum_out', out_metadata, out_data)
         else (let (count, flit) = hd (que enum_out');
                   (m, axi_data_flit) = split_metadata flit
               in if count = 0 then
                    (if s_full out_metadata then (en', enum_out', out_metadata, out_data)
                     else (en', snd (s_read enum_out'), s_write m out_metadata,
                           s_write axi_data_flit out_data))
                  else (en', snd (s_read enum_out'), out_metadata,
                        s_write axi_data_flit out_data)))"

section \<open>Facts\<close>

interpretation mm: packed_onto mlx_metadata_to_int mlx_metadata_from_int
  by unfold_locales
    (simp_all add: mlx_metadata_to_int_def mlx_metadata_from_int_def range_simps ap_range_join)

lemma join_split [simp]: "join_metadata (split_metadata w) = w"
  by (simp add: join_metadata_def split_metadata_def)

lemma split_join [simp]: "split_metadata (join_metadata p) = p"
  by (cases p) (simp add: join_metadata_def split_metadata_def)

lemma set_get_drop: "get_drop (set_drop b m) = b"
proof -
  have "(u OR 1) AND 1 = (1 :: 12 word)" "(u AND NOT 1) AND 1 = (0 :: 12 word)" for u
    by (rule bit_word_eqI, auto simp: bit_simps)+
  then show ?thesis by (simp add: get_drop_def set_drop_def USER_DROP_def)
qed

text \<open>The first \<open>n\<close> bytes on the wire are the top \<open>n\<close> bits of the keep mask.\<close>

lemma bit_last_word_keep:
  "bit (last_word_keep_num_bytes_valid n) i \<longleftrightarrow>
     i < 32 \<and> (n \<noteq> 0 \<longrightarrow> 31 - i < unat n)"
proof -
  have m: "2 ^ k - 1 = (mask k :: 32 word)" for k
    by (simp add: mask_eq_exp_minus_1)
  have f: "(0xffffffff :: 32 word) = mask 32" by (simp add: mask_eq_exp_minus_1)
  show ?thesis
    by (auto simp: last_word_keep_num_bytes_valid_def Let_def m f bit_simps bit_word_reverse_iff
        dest: bit_imp_le_length)
qed

type_synonym mdrop_sys = "mlx_dropper \<times> mlx_stream \<times> bool hls_stream \<times> mlx_stream"

definition mdrop_step :: "mdrop_sys \<Rightarrow> mdrop_sys" where
  "mdrop_step s = (case s of (st, inp, ps, outp) \<Rightarrow> mlx_dropper_step st inp ps outp)"

definition mdrop_out :: "mdrop_sys \<Rightarrow> axi4s list" where
  "mdrop_out s = que (snd (snd (snd s)))"

definition mdrop_pend :: "mdrop_sys \<Rightarrow> axi4s list" where
  "mdrop_pend s = (case s of (st, inp, ps, outp) \<Rightarrow>
     filter_run mx_last (case md_state st of IDLE \<Rightarrow> None | STREAMING \<Rightarrow> Some (\<not> md_drop st))
       (que ps) (que inp))"

definition mdrop_work :: "mdrop_sys \<Rightarrow> nat" where
  "mdrop_work s = length (que (fst (snd s)))"

definition mdrop_ready :: "mdrop_sys \<Rightarrow> bool" where
  "mdrop_ready s \<longleftrightarrow> depth (snd (snd (snd s))) = None"

lemmas mdrop_defs = mdrop_step_def mdrop_out_def mdrop_pend_def mdrop_work_def mdrop_ready_def
  mlx_dropper_step_def

interpretation mdrop: stage mdrop_step mdrop_out mdrop_pend mdrop_work mdrop_ready
proof unfold_locales
  fix s :: mdrop_sys
  obtain st inp ps outp where s: "s = (st, inp, ps, outp)" by (cases s)
  show "mdrop_out (mdrop_step s) @ mdrop_pend (mdrop_step s) = mdrop_out s @ mdrop_pend s"
    unfolding s by (cases "que ps"; cases "que inp"; cases "md_state st")
      (auto simp: mdrop_defs stream_defs)
  show "mdrop_ready (mdrop_step s)" if "mdrop_ready s"
    using that unfolding s
    by (auto simp: mdrop_defs stream_defs split: idle_stream.splits)
  show "mdrop_work (mdrop_step s) < mdrop_work s" if "mdrop_ready s" "mdrop_pend s \<noteq> []"
    using that unfolding s by (cases "que ps"; cases "que inp"; cases "md_state st")
      (auto simp: mdrop_defs stream_defs)
qed

end
