(* ===== verification/Metadata.thy ===== *)
theory Metadata
  imports Mlx
begin

text \<open>
  The metadata that travels beside each packet, from \<open>src/nica/hls/either.hpp\<close> and the first half
  of \<open>ikernel.hpp\<close>: the headers of a UDP packet, the end-of-message bit of a custom-ring packet, the
  tagged union of the two, and the metadata word around it. The widths are those of
  \<open>ikernel-types.hpp\<close>: 6 bits of ikernel, 7 of ring, 11 of flow.
\<close>

type_synonym ikernel_id_t = "6 word"
type_synonym ring_id_t = "7 word"
type_synonym flow_id_t = "11 word"
type_synonym pkt_len_t = "11 word"

datatype direction = HOST | NET

definition PKT_TYPE_UDP :: "1 word" where "PKT_TYPE_UDP = 0"
definition PKT_TYPE_RAW :: "1 word" where "PKT_TYPE_RAW = 1"

section \<open>packet\_metadata\<close>

record packet_metadata =
  eth_dst :: "48 word"
  eth_src :: "48 word"
  ip_dst :: "32 word"
  ip_src :: "32 word"
  udp_dst :: "16 word"
  udp_src :: "16 word"

definition packet_metadata_from_int :: "192 word \<Rightarrow> packet_metadata" where
  "packet_metadata_from_int d =
     \<lparr>eth_dst = ap_range 191 144 d, eth_src = ap_range 143 96 d,
      ip_dst = ap_range 95 64 d, ip_src = ap_range 63 32 d,
      udp_dst = ap_range 31 16 d, udp_src = ap_range 15 0 d\<rparr>"

definition packet_metadata_to_int :: "packet_metadata \<Rightarrow> 192 word" where
  "packet_metadata_to_int m =
     word_cat (eth_dst m) (word_cat (eth_src m) (word_cat (ip_dst m) (word_cat (ip_src m)
       (word_cat (udp_dst m) (udp_src m) :: 32 word) :: 64 word) :: 96 word) :: 144 word)"

definition packet_metadata_reply :: "packet_metadata \<Rightarrow> packet_metadata" where
  "packet_metadata_reply m =
     m\<lparr>eth_dst := eth_src m, eth_src := eth_dst m, ip_dst := ip_src m, ip_src := ip_dst m,
       udp_dst := udp_src m, udp_src := udp_dst m\<rparr>"

section \<open>custom\_ring\_metadata\<close>

record custom_ring_metadata =
  end_of_message :: "1 word"

definition custom_ring_metadata_from_int :: "1 word \<Rightarrow> custom_ring_metadata" where
  "custom_ring_metadata_from_int d = \<lparr>end_of_message = ap_range 0 0 d\<rparr>"

definition custom_ring_metadata_to_int :: "custom_ring_metadata \<Rightarrow> 1 word" where
  "custom_ring_metadata_to_int m = end_of_message m"

section \<open>either\<close>

text \<open>
  \<open>either<packet_metadata, custom_ring_metadata>\<close>: 193 bits, of which the top one is the tag.
\<close>

type_synonym either_t = "193 word"

definition either_left :: "packet_metadata \<Rightarrow> either_t" where
  "either_left x = word_cat (0 :: 1 word) (packet_metadata_to_int x)"

definition either_right :: "custom_ring_metadata \<Rightarrow> either_t" where
  "either_right x =
     ap_set_range 192 192 (1 :: 1 word) (word_cat (0 :: 192 word) (custom_ring_metadata_to_int x))"

definition is_left :: "either_t \<Rightarrow> bool" where
  "is_left d \<longleftrightarrow> (ap_range 192 192 d :: 1 word) = 0"

definition get_left :: "either_t \<Rightarrow> packet_metadata" where
  "get_left d = packet_metadata_from_int (ap_range 191 0 d)"

definition get_right :: "either_t \<Rightarrow> custom_ring_metadata" where
  "get_right d = custom_ring_metadata_from_int (ap_range 0 0 d)"

definition either_eq :: "either_t \<Rightarrow> either_t \<Rightarrow> bool" where
  "either_eq a b =
     (if is_left a \<noteq> is_left b then False
      else if is_left a then get_left a = get_left b
      else get_right a = get_right b)"

section \<open>metadata\<close>

record metadata =
  pkt_type :: "1 word"
  flow_id :: flow_id_t
  ikernel_id :: ikernel_id_t
  var :: either_t
  ring_id :: ring_id_t
  ip_identification :: "16 word"
  len :: "16 word"

definition metadata_eq :: "metadata \<Rightarrow> metadata \<Rightarrow> bool" where
  "metadata_eq a b \<longleftrightarrow>
     ring_id a = ring_id b \<and> either_eq (var a) (var b) \<and> len a = len b \<and>
     ikernel_id a = ikernel_id b \<and> flow_id a = flow_id b \<and> pkt_type a = pkt_type b"

definition metadata_from_int :: "250 word \<Rightarrow> metadata" where
  "metadata_from_int d =
     \<lparr>pkt_type = ap_range (1 + 11 + 6 + 193 + 31 + 7) (11 + 6 + 193 + 32 + 7) d,
      flow_id = ap_range (11 + 6 + 193 + 31 + 7) (6 + 193 + 32 + 7) d,
      ikernel_id = ap_range (6 + 193 + 31 + 7) (193 + 32 + 7) d,
      var = ap_range (193 + 31 + 7) (32 + 7) d,
      ring_id = ap_range (32 + 7 - 1) 32 d,
      ip_identification = ap_range 31 16 d,
      len = ap_range 15 0 d\<rparr>"

definition metadata_to_int :: "metadata \<Rightarrow> 250 word" where
  "metadata_to_int m =
     word_cat (pkt_type m) (word_cat (flow_id m) (word_cat (ikernel_id m) (word_cat (var m)
       (word_cat (ring_id m) (word_cat (ip_identification m) (len m) :: 32 word) :: 39 word)
         :: 232 word) :: 238 word) :: 249 word)"

definition get_packet_metadata :: "metadata \<Rightarrow> packet_metadata" where
  "get_packet_metadata m = get_left (var m)"

definition get_custom_ring_metadata :: "metadata \<Rightarrow> custom_ring_metadata" where
  "get_custom_ring_metadata m = get_right (var m)"

definition set_packet_metadata :: "packet_metadata \<Rightarrow> metadata \<Rightarrow> metadata" where
  "set_packet_metadata x m = m\<lparr>var := either_left x\<rparr>"

definition set_custom_ring_metadata :: "custom_ring_metadata \<Rightarrow> metadata \<Rightarrow> metadata" where
  "set_custom_ring_metadata x m = m\<lparr>var := either_right x\<rparr>"

definition metadata_reply :: "16 word \<Rightarrow> metadata \<Rightarrow> metadata" where
  "metadata_reply l m =
     (if ring_id m = 0
      then m\<lparr>var := either_left (packet_metadata_reply (get_left (var m))), len := l\<rparr>
      else m\<lparr>len := l\<rparr>)"

text \<open>The two assertions of \<open>metadata::verify\<close>.\<close>

definition metadata_verify :: "metadata \<Rightarrow> bool" where
  "metadata_verify m \<longleftrightarrow>
     (if ring_id m = 0 then is_left (var m) else \<not> is_left (var m)) \<and>
     metadata_eq m (metadata_from_int (metadata_to_int m))"

definition empty_packet :: "metadata \<Rightarrow> bool" where
  "empty_packet m \<longleftrightarrow> len m = 0"

section \<open>Facts\<close>

interpretation pm: packed_onto packet_metadata_to_int packet_metadata_from_int
  by unfold_locales
    (simp_all add: packet_metadata_to_int_def packet_metadata_from_int_def range_simps ap_range_join)

interpretation cr: packed_onto custom_ring_metadata_to_int custom_ring_metadata_from_int
  by unfold_locales
    (simp_all add: custom_ring_metadata_to_int_def custom_ring_metadata_from_int_def range_simps)

interpretation md: packed_onto metadata_to_int metadata_from_int
  by unfold_locales
    (simp_all add: metadata_to_int_def metadata_from_int_def range_simps ap_range_join)

lemma packet_metadata_reply_reply [simp]: "packet_metadata_reply (packet_metadata_reply m) = m"
  by (simp add: packet_metadata_reply_def)

lemma get_left_either_left [simp]: "get_left (either_left x) = x"
  by (simp add: get_left_def either_left_def range_simps pm.from_to)

lemma is_left_either_left [simp]: "is_left (either_left x)"
  by (simp add: is_left_def either_left_def range_simps)

lemma not_is_left_either_right [simp]: "\<not> is_left (either_right x)"
  by (simp add: is_left_def either_right_def ap_set_range_ap_range)

lemma get_right_either_right [simp]: "get_right (either_right x) = x"
  by (simp add: get_right_def either_right_def ap_set_range_other range_simps cr.from_to)

lemma either_left_right [simp]: "either_left x \<noteq> either_right y" "either_right y \<noteq> either_left x"
  by (metis is_left_either_left not_is_left_either_right)+

lemma either_eq_refl [simp]: "either_eq a a"
  by (simp add: either_eq_def)

lemma metadata_eq_refl [simp]: "metadata_eq m m"
  by (simp add: metadata_eq_def)

lemma metadata_verify_iff: "metadata_verify m \<longleftrightarrow> (ring_id m = 0 \<longleftrightarrow> is_left (var m))"
  by (simp add: metadata_verify_def md.from_to)

end
