(* ===== verification/Ikernel_Base.thy ===== *)
theory Ikernel_Base
  imports Metadata
begin

text \<open>
  The base class of the ikernels, from \<open>src/nica/hls/ikernel.hpp\<close>, \<open>ikernel.cpp\<close> and \<open>gateway.hpp\<close>:
  the ports of an ikernel, the credit counters of the custom rings, and the flow control test that
  every ikernel makes before it transmits. \<open>pass_packets\<close> is from \<open>ikernels/hls/passthrough.cpp\<close>.

  \<open>GW_DONE\<close>, \<open>GW_FAIL\<close>, \<open>GW_BUSY\<close> are the status codes of the register gateway (\<open>ntl\<close> chooses their
  numbers); \<open>GW_CODE\<close> is a status that a source file writes as a literal number.
\<close>

datatype gw_status = GW_DONE | GW_FAIL | GW_BUSY | GW_CODE int

text \<open>
  The callback that every unit hands to its register gateway: bit 30 of the address selects the
  write handler. The gateway itself (\<open>ntl\<close>) calls it at most once per clock, with the address and
  data of the pending command; a unit takes that command as an optional argument.
\<close>

type_synonym gw_cmd = "(31 word \<times> 32 word) option"

definition GW_WRITE :: "31 word" where "GW_WRITE = push_bit 30 1"

definition gateway_callback ::
  "(32 word \<Rightarrow> 32 word \<Rightarrow> 's \<Rightarrow> gw_status \<times> 's) \<Rightarrow>
   (32 word \<Rightarrow> 32 word \<Rightarrow> 's \<Rightarrow> gw_status \<times> 32 word \<times> 's) \<Rightarrow>
   31 word \<Rightarrow> 32 word \<Rightarrow> 's \<Rightarrow> gw_status \<times> 32 word \<times> 's" where
  "gateway_callback reg_write reg_read addr data s =
     (if addr AND GW_WRITE \<noteq> 0
      then (let (st, s') = reg_write (ucast (addr AND NOT GW_WRITE)) data s in (st, data, s'))
      else reg_read (ucast (addr AND NOT GW_WRITE)) data s)"

definition NUM_TC :: nat where "NUM_TC = 8"
definition NUM_CUSTOM_RINGS :: nat where "NUM_CUSTOM_RINGS = 2 ^ 6"
definition TC_META_THRESHOLD :: int where "TC_META_THRESHOLD = 256"
definition TC_DATA_THRESHOLD :: int where "TC_DATA_THRESHOLD = 256"

section \<open>Ports\<close>

record pipeline_ports =
  metadata_input :: "metadata hls_stream"
  data_input :: data_stream
  metadata_output :: "metadata hls_stream"
  data_output :: data_stream

record ports =
  po_host :: pipeline_ports
  po_net :: pipeline_ports

record tc_pipeline_data_counts =
  tc_meta_counts :: "10 word list"
  tc_data_counts :: "10 word list"

definition tc_pipeline_data_counts_init :: tc_pipeline_data_counts where
  "tc_pipeline_data_counts_init =
     \<lparr>tc_meta_counts = replicate NUM_TC 0, tc_data_counts = replicate NUM_TC 0\<rparr>"

definition pass_packets :: "pipeline_ports \<Rightarrow> pipeline_ports" where
  "pass_packets p =
     (let p1 = (if \<not> s_empty (metadata_input p)
                then (let (m, i) = s_read (metadata_input p)
                      in p\<lparr>metadata_input := i, metadata_output := s_write m (metadata_output p)\<rparr>)
                else p)
      in (if \<not> s_empty (data_input p1)
          then (let (d, i) = s_read (data_input p1)
                in p1\<lparr>data_input := i, data_output := s_write d (data_output p1)\<rparr>)
          else p1))"

section \<open>Credits of the custom rings\<close>

record credit_update_registers =
  cu_ring_id :: ring_id_t
  cu_max_msn :: "16 word"
  cu_reset :: bool

record ikernel_ring_context =
  msn :: "16 word"
  max_msn :: "16 word"

definition ring_can_transmit :: "ikernel_ring_context \<Rightarrow> bool" where
  "ring_can_transmit c \<longleftrightarrow> msn c \<noteq> max_msn c"

definition inc_msn :: "ikernel_ring_context \<Rightarrow> ikernel_ring_context" where
  "inc_msn c = c\<lparr>msn := msn c + 1\<rparr>"

record ikernel =
  host_credits :: "ikernel_ring_context list"
  credit_updates :: "credit_update_registers hls_stream"
  last_host_credit_regs :: credit_update_registers

text \<open>
  The counter of ring \<open>r\<close> is at index \<open>r - 1\<close>. Ring 0 has none: the source's index is then outside of
  the table, and so is \<open>ring_index 0\<close>, which is 127.
\<close>

definition ring_index :: "ring_id_t \<Rightarrow> nat" where
  "ring_index ring = unat (ring - 1)"

text \<open>
  The traffic class that an ikernel sends through. The last class is left to raw traffic.
\<close>

definition traffic_class :: "ikernel_id_t \<Rightarrow> nat" where
  "traffic_class i = (let t = unat (i AND of_nat (NUM_TC - 1)) in if t = NUM_TC - 1 then 0 else t)"

definition can_transmit ::
  "ikernel \<Rightarrow> tc_pipeline_data_counts \<Rightarrow> ikernel_id_t \<Rightarrow> ring_id_t \<Rightarrow> pkt_len_t \<Rightarrow> direction \<Rightarrow> bool" where
  "can_transmit ik tc i ring l dir =
     (if dir = HOST \<and> ring \<noteq> 0 \<and> \<not> ring_can_transmit (host_credits ik ! ring_index ring) then False
      else if uint (tc_meta_counts tc ! traffic_class i) > TC_META_THRESHOLD - 1 \<or>
              uint (tc_data_counts tc ! traffic_class i) >
                TC_DATA_THRESHOLD - uint (drop_bit 5 l) then False
      else True)"

definition ikernel_update :: "ikernel \<Rightarrow> bool \<times> ikernel" where
  "ikernel_update ik =
     (case s_read_nb (credit_updates ik) of
        None \<Rightarrow> (False, ik)
      | Some (regs, cu) \<Rightarrow>
          (let i = ring_index (cu_ring_id regs);
               hc = host_credits ik;
               hc1 = (if cu_reset regs then hc[i := (hc ! i)\<lparr>msn := 0\<rparr>] else hc);
               hc2 = hc1[i := (hc1 ! i)\<lparr>max_msn := cu_max_msn regs\<rparr>]
           in (True, ik\<lparr>credit_updates := cu, host_credits := hc2\<rparr>)))"

definition host_credits_update_regs :: "credit_update_registers \<Rightarrow> ikernel \<Rightarrow> ikernel" where
  "host_credits_update_regs regs ik =
     (if s_full (credit_updates ik) then ik
      else if last_host_credit_regs ik \<noteq> regs then
        (if cu_ring_id regs = 0 \<or> unat (cu_ring_id regs) \<ge> NUM_CUSTOM_RINGS
         then ik\<lparr>last_host_credit_regs := regs\<rparr>
         else ik\<lparr>credit_updates := s_write_nb regs (credit_updates ik),
                 last_host_credit_regs := regs\<rparr>)
      else ik)"

definition new_message :: "ring_id_t \<Rightarrow> direction \<Rightarrow> ikernel \<Rightarrow> ikernel" where
  "new_message ring dir ik =
     (if dir = HOST
      then ik\<lparr>host_credits := (host_credits ik)[ring_index ring := inc_msn (host_credits ik ! ring_index ring)]\<rparr>
      else ik)"

section \<open>Facts\<close>

subsection \<open>Passing packets\<close>

definition pp_push_meta :: "metadata \<Rightarrow> pipeline_ports \<Rightarrow> pipeline_ports" where
  "pp_push_meta m p = p\<lparr>metadata_input := s_write m (metadata_input p)\<rparr>"

definition pp_pop_meta :: "pipeline_ports \<Rightarrow> (metadata \<times> pipeline_ports) option" where
  "pp_pop_meta p = (case s_read_nb (metadata_output p) of None \<Rightarrow> None
     | Some (m, o') \<Rightarrow> Some (m, p\<lparr>metadata_output := o'\<rparr>))"

definition pp_meta_contents :: "pipeline_ports \<Rightarrow> metadata list" where
  "pp_meta_contents p = que (metadata_output p) @ que (metadata_input p)"

definition pp_push_data :: "axi_data \<Rightarrow> pipeline_ports \<Rightarrow> pipeline_ports" where
  "pp_push_data m p = p\<lparr>data_input := s_write m (data_input p)\<rparr>"

definition pp_pop_data :: "pipeline_ports \<Rightarrow> (axi_data \<times> pipeline_ports) option" where
  "pp_pop_data p = (case s_read_nb (data_output p) of None \<Rightarrow> None
     | Some (m, o') \<Rightarrow> Some (m, p\<lparr>data_output := o'\<rparr>))"

definition pp_data_contents :: "pipeline_ports \<Rightarrow> axi_data list" where
  "pp_data_contents p = que (data_output p) @ que (data_input p)"

lemmas pp_defs = pp_push_meta_def pp_pop_meta_def pp_meta_contents_def
  pp_push_data_def pp_pop_data_def pp_data_contents_def pass_packets_def

interpretation ppm: fifo_relay pp_push_meta pass_packets pp_pop_meta pp_meta_contents
  by unfold_locales (auto simp: pp_defs stream_defs Let_def split: if_splits)

interpretation ppd: fifo_relay pp_push_data pass_packets pp_pop_data pp_data_contents
  by unfold_locales (auto simp: pp_defs stream_defs Let_def split: if_splits)

subsection \<open>Credits\<close>

text \<open>A sender that tests before it sends.\<close>

definition guarded_send :: "ikernel_ring_context \<Rightarrow> ikernel_ring_context" where
  "guarded_send c = (if ring_can_transmit c then inc_msn c else c)"

definition credits_left :: "ikernel_ring_context \<Rightarrow> nat" where
  "credits_left c = unat (max_msn c - msn c)"

lemma ring_can_transmit_iff: "ring_can_transmit c \<longleftrightarrow> 0 < credits_left c"
  by (auto simp: ring_can_transmit_def credits_left_def unat_gt_0)

lemma credits_left_inc:
  assumes "ring_can_transmit c"
  shows "credits_left (inc_msn c) = credits_left c - 1"
proof -
  have "max_msn c - msn c \<noteq> 0" using assms by (simp add: ring_can_transmit_def)
  then have "unat (max_msn c - msn c - 1) = unat (max_msn c - msn c) - 1"
    by (rule unat_minus_one)
  then show ?thesis by (simp add: credits_left_def inc_msn_def diff_diff_eq)
qed

lemma guarded_send_run:
  "msn ((guarded_send ^^ n) c) = msn c + of_nat (min n (credits_left c)) \<and>
   max_msn ((guarded_send ^^ n) c) = max_msn c \<and>
   credits_left ((guarded_send ^^ n) c) = credits_left c - n"
proof (induction n)
  case 0
  then show ?case by simp
next
  case (Suc n)
  let ?d = "(guarded_send ^^ n) c"
  show ?case
  proof (cases "ring_can_transmit ?d")
    case True
    then have "n < credits_left c" using Suc ring_can_transmit_iff [of ?d] by simp
    moreover have "guarded_send ?d = inc_msn ?d" using True by (simp add: guarded_send_def [of ?d])
    moreover have "msn (inc_msn ?d) = msn ?d + 1" "max_msn (inc_msn ?d) = max_msn ?d"
      by (simp_all add: inc_msn_def)
    ultimately show ?thesis using Suc credits_left_inc [OF True] by (simp add: min_def)
  next
    case False
    then have "credits_left c \<le> n" using Suc ring_can_transmit_iff [of ?d] by simp
    moreover have "guarded_send ?d = ?d" using False by (simp add: guarded_send_def [of ?d])
    ultimately show ?thesis using Suc by (simp add: min_def)
  qed
qed

text \<open>
  The credit table has one counter per ring, and every queued update names a ring of the table.
\<close>

definition credit_inv :: "ikernel \<Rightarrow> bool" where
  "credit_inv ik \<longleftrightarrow> length (host_credits ik) = NUM_CUSTOM_RINGS \<and>
     (\<forall>r \<in> set (que (credit_updates ik)). 0 < unat (cu_ring_id r) \<and> unat (cu_ring_id r) < NUM_CUSTOM_RINGS)"

definition in_table :: "ring_id_t \<Rightarrow> bool" where
  "in_table ring \<longleftrightarrow> 0 < unat ring \<and> unat ring \<le> NUM_CUSTOM_RINGS"

lemma ring_index_in_table: "in_table ring \<Longrightarrow> ring_index ring < NUM_CUSTOM_RINGS"
  by (auto simp: in_table_def ring_index_def unat_minus_one unat_gt_0 NUM_CUSTOM_RINGS_def)

lemma credit_inv_host_credits_update: "credit_inv ik \<Longrightarrow> credit_inv (host_credits_update_regs regs ik)"
  by (auto simp: credit_inv_def host_credits_update_regs_def s_write_nb_def s_write_def unat_gt_0 not_le)

lemma credit_inv_update: "credit_inv ik \<Longrightarrow> credit_inv (snd (ikernel_update ik))"
  by (auto simp: credit_inv_def ikernel_update_def stream_defs Let_def dest: list.set_sel(2)
      split: if_splits)

lemma credit_inv_new_message: "credit_inv ik \<Longrightarrow> credit_inv (new_message ring dir ik)"
  by (auto simp: credit_inv_def new_message_def)

lemma new_message_in_table:
  assumes "credit_inv ik" "in_table ring"
  shows "host_credits (new_message ring HOST ik) ! ring_index ring =
           inc_msn (host_credits ik ! ring_index ring)"
    and "j \<noteq> ring_index ring \<Longrightarrow>
           host_credits (new_message ring HOST ik) ! j = host_credits ik ! j"
proof -
  have "ring_index ring < length (host_credits ik)"
    using assms by (auto simp: credit_inv_def ring_index_in_table)
  then show "host_credits (new_message ring HOST ik) ! ring_index ring =
      inc_msn (host_credits ik ! ring_index ring)"
    by (simp add: new_message_def)
qed (simp add: new_message_def)

subsection \<open>Traffic classes\<close>

lemma traffic_class_less: "traffic_class i < NUM_TC - 1"
proof -
  have "i AND 7 \<le> 7" by (rule word_and_le1)
  then have "unat (i AND 7) \<le> 7" by (simp add: word_le_nat_alt)
  then show ?thesis by (auto simp: traffic_class_def NUM_TC_def Let_def)
qed

lemma can_transmit_credit:
  "can_transmit ik tc i ring l HOST \<Longrightarrow> ring \<noteq> 0 \<Longrightarrow>
   ring_can_transmit (host_credits ik ! ring_index ring)"
  by (auto simp: can_transmit_def split: if_splits)

lemma can_transmit_room:
  assumes "can_transmit ik tc i ring l dir"
  shows "uint (tc_meta_counts tc ! traffic_class i) < 256 \<and>
    uint (tc_data_counts tc ! traffic_class i) + uint l div 32 \<le> 256"
proof -
  have "uint (drop_bit 5 l) = uint l div 32" by (simp add: drop_bit_eq_div uint_div)
  then show ?thesis
    using assms
    by (auto simp: can_transmit_def TC_META_THRESHOLD_def TC_DATA_THRESHOLD_def split: if_splits)
qed

end
