(* ===== verification/Udp_Header.thy ===== *)
theory Udp_Header
  imports Ikernel_Base
begin

text \<open>
  The packet headers of \<open>src/nica/hls/udp.h\<close>: Ethernet, IPv4 and UDP, each with its packing into
  bits, and the header buffer that travels through the pipeline. The field \<open>drop\<close> of the source's
  \<open>header_buffer\<close> is never written or read and is left out.
\<close>

record eth_header =
  eh_dest :: "48 word"
  eh_source :: "48 word"
  eh_proto :: "16 word"

definition eth_header_from_int :: "112 word \<Rightarrow> eth_header" where
  "eth_header_from_int d =
     \<lparr>eh_dest = ap_range 111 64 d, eh_source = ap_range 63 16 d, eh_proto = ap_range 15 0 d\<rparr>"

definition eth_header_to_int :: "eth_header \<Rightarrow> 112 word" where
  "eth_header_to_int h = word_cat (eh_dest h) (word_cat (eh_source h) (eh_proto h) :: 64 word)"

record ip_header =
  ih_version :: "4 word"
  ih_ihl :: "4 word"
  ih_tos :: "8 word"
  ih_tot_len :: "16 word"
  ih_id :: "16 word"
  ih_frag_off :: "16 word"
  ih_ttl :: "8 word"
  ih_protocol :: "8 word"
  ih_check :: "16 word"
  ih_saddr :: "32 word"
  ih_daddr :: "32 word"

definition ip_header_from_int :: "160 word \<Rightarrow> ip_header" where
  "ip_header_from_int d =
     \<lparr>ih_version = ap_range 159 156 d, ih_ihl = ap_range 155 152 d, ih_tos = ap_range 151 144 d,
      ih_tot_len = ap_range 143 128 d, ih_id = ap_range 127 112 d, ih_frag_off = ap_range 111 96 d,
      ih_ttl = ap_range 95 88 d, ih_protocol = ap_range 87 80 d, ih_check = ap_range 79 64 d,
      ih_saddr = ap_range 63 32 d, ih_daddr = ap_range 31 0 d\<rparr>"

definition ip_header_to_int :: "ip_header \<Rightarrow> 160 word" where
  "ip_header_to_int h =
     word_cat (ih_version h) (word_cat (ih_ihl h) (word_cat (ih_tos h) (word_cat (ih_tot_len h)
     (word_cat (ih_id h) (word_cat (ih_frag_off h) (word_cat (ih_ttl h) (word_cat (ih_protocol h)
     (word_cat (ih_check h) (word_cat (ih_saddr h) (ih_daddr h) :: 64 word) :: 80 word)
       :: 88 word) :: 96 word) :: 112 word) :: 128 word) :: 144 word) :: 152 word) :: 156 word)"

record udp_header =
  uh_source :: "16 word"
  uh_dest :: "16 word"
  uh_length :: "16 word"
  uh_checksum :: "16 word"

definition udp_header_from_int :: "64 word \<Rightarrow> udp_header" where
  "udp_header_from_int d =
     \<lparr>uh_source = ap_range 63 48 d, uh_dest = ap_range 47 32 d,
      uh_length = ap_range 31 16 d, uh_checksum = ap_range 15 0 d\<rparr>"

definition udp_header_to_int :: "udp_header \<Rightarrow> 64 word" where
  "udp_header_to_int h =
     word_cat (uh_source h) (word_cat (uh_dest h) (word_cat (uh_length h) (uh_checksum h) :: 32 word)
       :: 48 word)"

definition udp_empty_packet :: "udp_header \<Rightarrow> bool" where
  "udp_empty_packet h \<longleftrightarrow> unat (uh_length h) \<le> 64 div 8"

record header_parser =
  hp_eth :: eth_header
  hp_ip :: ip_header
  hp_udp :: udp_header

definition header_parser_from_int :: "336 word \<Rightarrow> header_parser" where
  "header_parser_from_int d =
     \<lparr>hp_eth = eth_header_from_int (ap_range (336 - 1) (160 + 64) d),
      hp_ip = ip_header_from_int (ap_range (160 + 64 - 1) 64 d),
      hp_udp = udp_header_from_int (ap_range 63 0 d)\<rparr>"

definition header_parser_to_int :: "header_parser \<Rightarrow> 336 word" where
  "header_parser_to_int h =
     word_cat (eth_header_to_int (hp_eth h))
       (word_cat (ip_header_to_int (hp_ip h)) (udp_header_to_int (hp_udp h)) :: 224 word)"

record header_buffer =
  hb_hdr :: "336 word"
  hb_pkt_id :: "3 word"
  hb_user :: "12 word"
  hb_generated :: bool

definition header_parser_of_buffer :: "header_buffer \<Rightarrow> header_parser" where
  "header_parser_of_buffer buf =
     \<lparr>hp_eth = eth_header_from_int (ap_range (336 - 1) (64 + 160) (hb_hdr buf)),
      hp_ip = ip_header_from_int (ap_range (64 + 160 - 1) 64 (hb_hdr buf)),
      hp_udp = udp_header_from_int (ap_range (64 - 1) 0 (hb_hdr buf))\<rparr>"

definition header_buffer_of_parser :: "header_parser \<Rightarrow> header_buffer" where
  "header_buffer_of_parser h =
     \<lparr>hb_hdr = header_parser_to_int h, hb_pkt_id = 0, hb_user = 0, hb_generated = True\<rparr>"

definition header_parser_reply :: "header_parser \<Rightarrow> header_parser" where
  "header_parser_reply h =
     h\<lparr>hp_eth := (hp_eth h)\<lparr>eh_source := eh_dest (hp_eth h), eh_dest := eh_dest (hp_eth h)\<rparr>,
       hp_ip := (hp_ip h)\<lparr>ih_saddr := ih_daddr (hp_ip h), ih_daddr := ih_saddr (hp_ip h)\<rparr>,
       hp_udp := (hp_udp h)\<lparr>uh_source := uh_dest (hp_udp h), uh_dest := uh_source (hp_udp h)\<rparr>\<rparr>"

record checksum_t =
  cs_ip :: "16 word"
  cs_udp :: "16 word"

definition checksum_from_packet :: "header_parser \<Rightarrow> checksum_t" where
  "checksum_from_packet h = \<lparr>cs_ip = ih_check (hp_ip h), cs_udp = uh_checksum (hp_udp h)\<rparr>"

section \<open>Facts\<close>

interpretation eh: packed_onto eth_header_to_int eth_header_from_int
  by unfold_locales
    (simp_all add: eth_header_to_int_def eth_header_from_int_def range_simps ap_range_join)

interpretation ih: packed_onto ip_header_to_int ip_header_from_int
  by unfold_locales
    (simp_all add: ip_header_to_int_def ip_header_from_int_def range_simps ap_range_join)

interpretation uh: packed_onto udp_header_to_int udp_header_from_int
  by unfold_locales
    (simp_all add: udp_header_to_int_def udp_header_from_int_def range_simps ap_range_join)

interpretation hp: packed_onto header_parser_to_int header_parser_from_int
  by unfold_locales
    (simp_all add: header_parser_to_int_def header_parser_from_int_def range_simps ap_range_join
      eh.from_to ih.from_to uh.from_to eh.to_from ih.to_from uh.to_from)

lemma header_parser_of_buffer_eq: "header_parser_of_buffer buf = header_parser_from_int (hb_hdr buf)"
  by (simp add: header_parser_of_buffer_def header_parser_from_int_def)

lemma header_buffer_roundtrip [simp]: "header_parser_of_buffer (header_buffer_of_parser h) = h"
  by (simp add: header_parser_of_buffer_eq header_buffer_of_parser_def hp.from_to)

end
