(* ===== verification/Flow_Table.thy ===== *)
theory Flow_Table
  imports Udp_Header
begin

text \<open>
  The flow table of \<open>src/nica/hls/flow_table.hpp\<close>, \<open>flow_table_impl.hpp\<close> and \<open>flow_table.cpp\<close>: the
  key of a packet, the masking of the fields that the configuration does not select, the register
  interface and the lookup pipeline around the hash table.

  The hash table itself is \<open>ntl::hash_table_wrapper\<close>. Its operations are a record of functions over
  an abstract table state \<open>'h\<close>: adding and deleting an entry, the debug access to one entry, and one
  clock of the lookup engine, which moves keys from \<open>lookups\<close> to \<open>results\<close>.
\<close>

definition FT_PASSTHROUGH :: "32 word" where "FT_PASSTHROUGH = 0"
definition FT_DROP :: "32 word" where "FT_DROP = 1"
definition FT_IKERNEL :: "32 word" where "FT_IKERNEL = 2"

definition FT_FIELD_SRC_IP :: "32 word" where "FT_FIELD_SRC_IP = push_bit 0 1"
definition FT_FIELD_DST_IP :: "32 word" where "FT_FIELD_DST_IP = push_bit 1 1"
definition FT_FIELD_SRC_PORT :: "32 word" where "FT_FIELD_SRC_PORT = push_bit 2 1"
definition FT_FIELD_DST_PORT :: "32 word" where "FT_FIELD_DST_PORT = push_bit 3 1"
definition FT_FIELD_VM_ID :: "32 word" where "FT_FIELD_VM_ID = push_bit 4 1"

record flow =
  fl_source_port :: "16 word"
  fl_dest_port :: "16 word"
  fl_saddr :: "32 word"
  fl_daddr :: "32 word"
  fl_vm_id :: "6 word"

definition flow_from_header :: "header_parser \<Rightarrow> 6 word \<Rightarrow> flow" where
  "flow_from_header hdr vm_id =
     \<lparr>fl_source_port = uh_source (hp_udp hdr), fl_dest_port = uh_dest (hp_udp hdr),
      fl_saddr = ih_saddr (hp_ip hdr), fl_daddr = ih_daddr (hp_ip hdr), fl_vm_id = vm_id\<rparr>"

definition flow_mask :: "32 word \<Rightarrow> flow" where
  "flow_mask sel =
     \<lparr>fl_source_port = (if sel AND FT_FIELD_SRC_PORT \<noteq> 0 then 0xffff else 0),
      fl_dest_port = (if sel AND FT_FIELD_DST_PORT \<noteq> 0 then 0xffff else 0),
      fl_saddr = (if sel AND FT_FIELD_SRC_IP \<noteq> 0 then 0xffffffff else 0),
      fl_daddr = (if sel AND FT_FIELD_DST_IP \<noteq> 0 then 0xffffffff else 0),
      fl_vm_id = (if sel AND FT_FIELD_VM_ID \<noteq> 0 then ucast (0xffffffff :: 32 word) else 0)\<rparr>"

text \<open>The conjunction leaves the constructor's last argument, the VM identifier, at its default 0.\<close>

definition flow_and :: "flow \<Rightarrow> flow \<Rightarrow> flow" where
  "flow_and f m =
     \<lparr>fl_source_port = fl_source_port f AND fl_source_port m,
      fl_dest_port = fl_dest_port f AND fl_dest_port m,
      fl_saddr = fl_saddr f AND fl_saddr m,
      fl_daddr = fl_daddr f AND fl_daddr m,
      fl_vm_id = 0\<rparr>"

definition flow_to_int :: "flow \<Rightarrow> 102 word" where
  "flow_to_int e =
     word_cat (fl_source_port e) (word_cat (fl_dest_port e) (word_cat (fl_saddr e)
       (word_cat (fl_daddr e) (fl_vm_id e) :: 38 word) :: 70 word) :: 86 word)"

definition flow_from_int :: "102 word \<Rightarrow> flow" where
  "flow_from_int d =
     \<lparr>fl_source_port = ap_range (6 + 96 - 1) (6 + 80) d,
      fl_dest_port = ap_range (6 + 80 - 1) (6 + 64) d,
      fl_saddr = ap_range (6 + 64 - 1) (6 + 32) d,
      fl_daddr = ap_range (6 + 32 - 1) 6 d,
      fl_vm_id = ap_range (6 - 1) 0 d\<rparr>"

record flow_table_value =
  ft_action :: "32 word"
  ft_engine_id :: "1 word"
  ft_ikernel_id :: "6 word"

definition flow_table_value_to_int :: "flow_table_value \<Rightarrow> 9 word" where
  "flow_table_value_to_int e =
     word_cat (ucast (ft_action e) :: 2 word) (word_cat (ft_engine_id e) (ft_ikernel_id e) :: 7 word)"

definition flow_table_value_from_int :: "9 word \<Rightarrow> flow_table_value" where
  "flow_table_value_from_int d =
     \<lparr>ft_action = ap_range (9 - 1) (9 - 2) d,
      ft_engine_id = ap_range (9 - 3) (9 - 2 - 1) d,
      ft_ikernel_id = ap_range (6 - 1) 0 d\<rparr>"

record flow_table_result =
  fr_v :: flow_table_value
  fr_flow_id :: flow_id_t

record 'h hash_table_ops =
  ht_add_entry :: "flow \<times> flow_table_value \<Rightarrow> 32 word \<Rightarrow> 'h \<Rightarrow> gw_status \<times> 32 word \<times> 'h"
  ht_delete_entry :: "flow \<Rightarrow> 32 word \<Rightarrow> 'h \<Rightarrow> gw_status \<times> 32 word \<times> 'h"
  ht_debug_command :: "32 word \<Rightarrow> bool \<Rightarrow> (flow \<times> flow_table_value) option \<Rightarrow> 'h \<Rightarrow>
    gw_status \<times> (flow \<times> flow_table_value) option \<times> 'h"
  ht_hash_table :: "'h \<Rightarrow> flow hls_stream \<Rightarrow> (flow_id_t \<times> flow_table_value) option hls_stream \<Rightarrow>
    'h \<times> flow hls_stream \<times> (flow_id_t \<times> flow_table_value) option hls_stream"

record 'h flow_table =
  ft_fields :: "32 word"
  gateway_flow :: flow
  gateway_result :: flow_table_value
  gateway_valid :: bool
  ft_lookups :: "flow hls_stream"
  ft_results :: "(flow_id_t \<times> flow_table_value) option hls_stream"
  ft_table :: 'h

definition FT_FIELDS :: "32 word" where "FT_FIELDS = 0"
definition FT_ADD_FLOW :: "32 word" where "FT_ADD_FLOW = 0x1"
definition FT_DELETE_FLOW :: "32 word" where "FT_DELETE_FLOW = 0x2"
definition FT_SET_ENTRY :: "32 word" where "FT_SET_ENTRY = 0x4"
definition FT_READ_ENTRY :: "32 word" where "FT_READ_ENTRY = 0x5"
definition FT_KEY_SADDR :: "32 word" where "FT_KEY_SADDR = 0x10"
definition FT_KEY_DADDR :: "32 word" where "FT_KEY_DADDR = 0x11"
definition FT_KEY_SPORT :: "32 word" where "FT_KEY_SPORT = 0x12"
definition FT_KEY_DPORT :: "32 word" where "FT_KEY_DPORT = 0x13"
definition FT_RESULT_ACTION :: "32 word" where "FT_RESULT_ACTION = 0x18"
definition FT_RESULT_ENGINE :: "32 word" where "FT_RESULT_ENGINE = 0x19"
definition FT_RESULT_IKERNEL_ID :: "32 word" where "FT_RESULT_IKERNEL_ID = 0x1a"
definition FT_VALID :: "32 word" where "FT_VALID = 0x20"

lemmas ft_addresses = FT_FIELDS_def FT_ADD_FLOW_def FT_DELETE_FLOW_def FT_SET_ENTRY_def
  FT_READ_ENTRY_def FT_KEY_SADDR_def FT_KEY_DADDR_def FT_KEY_SPORT_def FT_KEY_DPORT_def
  FT_RESULT_ACTION_def FT_RESULT_ENGINE_def FT_RESULT_IKERNEL_ID_def FT_VALID_def

definition ft_reg_write ::
  "'h hash_table_ops \<Rightarrow> 32 word \<Rightarrow> 32 word \<Rightarrow> 'h flow_table \<Rightarrow> gw_status \<times> 'h flow_table" where
  "ft_reg_write ht address value s =
     (if address = FT_FIELDS then (GW_CODE 0, s\<lparr>ft_fields := value\<rparr>)
      else if address = FT_KEY_SADDR
        then (GW_DONE, s\<lparr>gateway_flow := (gateway_flow s)\<lparr>fl_saddr := value\<rparr>\<rparr>)
      else if address = FT_KEY_DADDR
        then (GW_DONE, s\<lparr>gateway_flow := (gateway_flow s)\<lparr>fl_daddr := value\<rparr>\<rparr>)
      else if address = FT_KEY_SPORT
        then (GW_DONE, s\<lparr>gateway_flow := (gateway_flow s)\<lparr>fl_source_port := ucast value\<rparr>\<rparr>)
      else if address = FT_KEY_DPORT
        then (GW_DONE, s\<lparr>gateway_flow := (gateway_flow s)\<lparr>fl_dest_port := ucast value\<rparr>\<rparr>)
      else if address = FT_RESULT_ACTION
        then (GW_DONE, s\<lparr>gateway_result := (gateway_result s)\<lparr>ft_action := value\<rparr>\<rparr>)
      else if address = FT_RESULT_ENGINE
        then (GW_DONE, s\<lparr>gateway_result := (gateway_result s)\<lparr>ft_engine_id := ucast value\<rparr>\<rparr>)
      else if address = FT_RESULT_IKERNEL_ID
        then (GW_DONE, s\<lparr>gateway_result := (gateway_result s)\<lparr>ft_ikernel_id := ucast value\<rparr>\<rparr>)
      else if address = FT_VALID then (GW_DONE, s\<lparr>gateway_valid := (value \<noteq> 0)\<rparr>)
      else if address = FT_SET_ENTRY then
        (let entry = (if gateway_valid s then Some (gateway_flow s, gateway_result s) else None);
             (ret, _, h') = ht_debug_command ht value True entry (ft_table s)
         in (ret, s\<lparr>ft_table := h'\<rparr>))
      else if address = FT_READ_ENTRY then
        (let (ret, entry, h') = ht_debug_command ht value False None (ft_table s);
             s' = s\<lparr>ft_table := h'\<rparr>
         in (ret,
             if ret = GW_DONE then
               (case entry of None \<Rightarrow> s'\<lparr>gateway_valid := False\<rparr>
                | Some (f, v) \<Rightarrow> s'\<lparr>gateway_valid := True, gateway_flow := f, gateway_result := v\<rparr>)
             else s'))
      else (GW_FAIL, s))"

definition ft_reg_read ::
  "'h hash_table_ops \<Rightarrow> 32 word \<Rightarrow> 32 word \<Rightarrow> 'h flow_table \<Rightarrow> gw_status \<times> 32 word \<times> 'h flow_table" where
  "ft_reg_read ht address value s =
     (if address = FT_FIELDS then (GW_CODE 0, ft_fields s, s)
      else if address = FT_KEY_SADDR then (GW_CODE 0, fl_saddr (gateway_flow s), s)
      else if address = FT_KEY_DADDR then (GW_CODE 0, fl_daddr (gateway_flow s), s)
      else if address = FT_KEY_SPORT then (GW_CODE 0, ucast (fl_source_port (gateway_flow s)), s)
      else if address = FT_KEY_DPORT then (GW_CODE 0, ucast (fl_dest_port (gateway_flow s)), s)
      else if address = FT_RESULT_ACTION then (GW_CODE 0, ft_action (gateway_result s), s)
      else if address = FT_RESULT_ENGINE then (GW_CODE 0, ucast (ft_engine_id (gateway_result s)), s)
      else if address = FT_RESULT_IKERNEL_ID then (GW_CODE 0, ucast (ft_ikernel_id (gateway_result s)), s)
      else if address = FT_VALID then (GW_CODE 0, of_bool (gateway_valid s), s)
      else if address = FT_ADD_FLOW then
        (let (ret, v, h') = ht_add_entry ht (gateway_flow s, gateway_result s) value (ft_table s)
         in (ret, v, s\<lparr>ft_table := h'\<rparr>))
      else if address = FT_DELETE_FLOW then
        (let (ret, v, h') = ht_delete_entry ht (gateway_flow s) value (ft_table s)
         in (ret, v, s\<lparr>ft_table := h'\<rparr>))
      else (GW_FAIL, -1, s))"

definition ft_reset :: "'h flow_table \<Rightarrow> 'h flow_table" where
  "ft_reset s = s\<lparr>ft_fields := 0\<rparr>"

definition packet_flow_info :: "32 word \<Rightarrow> header_buffer \<Rightarrow> flow" where
  "packet_flow_info sel buf =
     flow_and (flow_from_header (header_parser_of_buffer buf) 0) (flow_mask sel)"

definition lookup_result :: "(flow_id_t \<times> flow_table_value) option \<Rightarrow> flow_table_result" where
  "lookup_result cur =
     (case cur of
        Some (i, v) \<Rightarrow> \<lparr>fr_v = v, fr_flow_id = i\<rparr>
      | None \<Rightarrow> \<lparr>fr_v = \<lparr>ft_action = FT_PASSTHROUGH, ft_engine_id = 0, ft_ikernel_id = 0\<rparr>,
                 fr_flow_id = 0\<rparr>)"

definition ft_wrapper ::
  "'h hash_table_ops \<Rightarrow> gw_cmd \<Rightarrow> 'h flow_table \<Rightarrow> header_buffer hls_stream \<Rightarrow>
   flow_table_result hls_stream \<Rightarrow>
   'h flow_table \<times> header_buffer hls_stream \<times> flow_table_result hls_stream" where
  "ft_wrapper ht cmd s header result =
     (let s1 = (case cmd of None \<Rightarrow> s
                | Some (addr, data) \<Rightarrow>
                    snd (snd (gateway_callback (ft_reg_write ht) (ft_reg_read ht) addr data s)));
          (s2, header') =
            (if \<not> s_empty header \<and> \<not> s_full (ft_lookups s1) then
               (let (h, header') = s_read header
                in (s1\<lparr>ft_lookups := s_write (packet_flow_info (ft_fields s1) h) (ft_lookups s1)\<rparr>, header'))
             else (s1, header));
          (s3, result') =
            (if \<not> s_empty (ft_results s2) \<and> \<not> s_full result then
               (let (cur, rs') = s_read (ft_results s2)
                in (s2\<lparr>ft_results := rs'\<rparr>, s_write (lookup_result cur) result))
             else (s2, result))
      in (s3, header', result'))"

definition ft_step ::
  "'h hash_table_ops \<Rightarrow> gw_cmd \<Rightarrow> 'h flow_table \<Rightarrow> header_buffer hls_stream \<Rightarrow>
   flow_table_result hls_stream \<Rightarrow>
   'h flow_table \<times> header_buffer hls_stream \<times> flow_table_result hls_stream" where
  "ft_step ht cmd s header result =
     (let (s1, header', result') = ft_wrapper ht cmd s header result;
          (h', lk, rs) = ht_hash_table ht (ft_table s1) (ft_lookups s1) (ft_results s1)
      in (s1\<lparr>ft_table := h', ft_lookups := lk, ft_results := rs\<rparr>, header', result'))"

section \<open>Facts\<close>

interpretation fl: packed_onto flow_to_int flow_from_int
  by unfold_locales
    (simp_all add: flow_to_int_def flow_from_int_def range_simps ap_range_join)

lemma flow_table_value_roundtrip:
  assumes "ft_action v < 4"
  shows "flow_table_value_from_int (flow_table_value_to_int v) = v"
proof -
  have "ap_range 1 0 (ucast (ft_action v) :: 2 word) = ft_action v"
  proof (rule bit_word_eqI)
    fix n
    have "ft_action v = take_bit 2 (ft_action v)"
      using assms by (intro word_unat_eq_iff [THEN iffD2])
        (simp add: unsigned_take_bit_eq take_bit_nat_eq_self word_less_nat_alt)
    then have "bit (ft_action v) n \<Longrightarrow> n < 2" by (metis bit_take_bit_iff)
    then show "bit (ap_range 1 0 (ucast (ft_action v) :: 2 word) :: 32 word) n = bit (ft_action v) n"
      by (auto simp: bit_ap_range bit_simps)
  qed
  then show ?thesis
    by (simp add: flow_table_value_to_int_def flow_table_value_from_int_def range_simps)
qed

lemma and_ones [simp]:
  "(w :: 16 word) AND 0xffff = w" "(x :: 32 word) AND 0xffffffff = x"
proof -
  have "(0xffff :: 16 word) = -1" "(0xffffffff :: 32 word) = -1" by simp_all
  then show "w AND 0xffff = w" "x AND 0xffffffff = x" by (simp_all only: and.right_neutral)
qed

text \<open>The key that is looked up: the selected fields of the packet, and 0 for the others.\<close>

lemma packet_flow_info_fields:
  "packet_flow_info sel buf =
     (let h = header_parser_of_buffer buf in
      \<lparr>fl_source_port = (if bit sel 2 then uh_source (hp_udp h) else 0),
       fl_dest_port = (if bit sel 3 then uh_dest (hp_udp h) else 0),
       fl_saddr = (if bit sel 0 then ih_saddr (hp_ip h) else 0),
       fl_daddr = (if bit sel 1 then ih_daddr (hp_ip h) else 0),
       fl_vm_id = 0\<rparr>)"
proof -
  have b: "sel AND push_bit n 1 \<noteq> 0 \<longleftrightarrow> bit sel n" for n
    by (metis and_exp_eq_0_iff_not_bit push_bit_of_1)
  show ?thesis
    unfolding packet_flow_info_def flow_and_def flow_mask_def flow_from_header_def Let_def
      FT_FIELD_SRC_IP_def FT_FIELD_DST_IP_def FT_FIELD_SRC_PORT_def FT_FIELD_DST_PORT_def b
    by (simp add: if_distrib)
qed

end
