(* ===== verification/Steering.thy ===== *)
theory Steering
  imports Flow_Table
begin

text \<open>
  The \<open>steering\<close> and \<open>udp_dropper\<close> classes of \<open>src/nica/hls/udp.cpp\<close>: the header checks, the
  decision what happens to a packet (to an ikernel, raw to the other side, or dropped), the
  statistics, and the unit that removes from the header and data streams the packets that do not go
  to an ikernel.
\<close>

definition ETH_P_IP :: "16 word" where "ETH_P_IP = 0x0800"
definition IPPROTO_UDP :: "8 word" where "IPPROTO_UDP = 17"

type_synonym packet_counters = "32 word"

record hds_stats =
  passthrough_disabled :: packet_counters
  passthrough_not_ipv4 :: packet_counters
  passthrough_bad_length :: packet_counters
  passthrough_not_udp :: packet_counters
  ft_action_passthrough :: packet_counters
  ft_action_drop :: packet_counters
  ft_action_ikernel :: packet_counters

section \<open>udp\_dropper\<close>

record udp_dropper =
  ud_state :: idle_stream
  ud_drop :: bool
  empty_packets_have_data :: bool
  ud_data_buf_valid :: bool
  ud_data_buf :: axi_data

definition hdr_empty_packet :: "header_buffer \<Rightarrow> bool" where
  "hdr_empty_packet buf = udp_empty_packet (hp_udp (header_parser_of_buffer buf))"

type_synonym udrop_sys =
  "udp_dropper \<times> bool hls_stream \<times> header_buffer hls_stream \<times> data_stream \<times>
   header_buffer hls_stream \<times> data_stream"

definition udp_dropper_step :: "udrop_sys \<Rightarrow> udrop_sys" where
  "udp_dropper_step s = (case s of (st, pass, header_in, data_in, header_out, data_out) \<Rightarrow>
     (case ud_state st of
        IDLE \<Rightarrow>
          if \<not> s_empty pass \<and> \<not> s_empty header_in \<and> \<not> s_full header_out then
            (let (buf, header_in') = s_read header_in;
                 (p, pass') = s_read pass;
                 st1 = st\<lparr>ud_drop := \<not> p\<rparr>;
                 header_out' = (if \<not> ud_drop st1 then s_write buf header_out else header_out);
                 st2 = (if \<not> hdr_empty_packet buf then st1\<lparr>ud_state := STREAMING\<rparr>
                        else if empty_packets_have_data st1
                        then st1\<lparr>ud_state := STREAMING, ud_drop := True\<rparr>
                        else st1)
             in (st2, pass', header_in', data_in, header_out', data_out))
          else (st, pass, header_in, data_in, header_out, data_out)
      | STREAMING \<Rightarrow>
          (let (st1, data_out') =
                 (if ud_data_buf_valid st \<and> \<not> s_full data_out
                  then (st\<lparr>ud_state := (if ad_last (ud_data_buf st) then IDLE else STREAMING),
                           ud_data_buf_valid := False\<rparr>,
                        if \<not> ud_drop st then s_write (ud_data_buf st) data_out else data_out)
                  else (st, data_out));
               (st2, data_in') =
                 (if \<not> ud_data_buf_valid st1 \<and> \<not> s_empty data_in
                  then (let (w, data_in') = s_read data_in
                        in (st1\<lparr>ud_data_buf := w, ud_data_buf_valid := True\<rparr>, data_in'))
                  else (st1, data_in))
           in (st2, pass, header_in, data_in', header_out, data_out'))))"

section \<open>steering\<close>

record checks =
  ck_disabled :: bool
  ck_not_ipv4 :: bool
  ck_bad_length :: bool
  ck_not_udp :: bool

record 'h steering =
  st_stats :: hds_stats
  checks_to_stats :: "checks hls_stream"
  checks_to_actions :: "checks hls_stream"
  hdr_dup_to_dropper :: "header_buffer hls_stream"
  hdr_dup_to_checks :: "header_buffer hls_stream"
  hdr_dup_to_flow_table :: "header_buffer hls_stream"
  matched :: "bool hls_stream"
  st_dropper :: udp_dropper
  ft_to_action :: "flow_table_result hls_stream"
  st_ft_results :: "flow_table_result hls_stream"
  st_ft :: "'h flow_table"

definition check_header :: "bool \<Rightarrow> header_buffer \<Rightarrow> checks" where
  "check_header enable buf =
     (let hdr = header_parser_of_buffer buf
      in \<lparr>ck_disabled = (\<not> enable),
          ck_not_ipv4 = (eh_proto (hp_eth hdr) \<noteq> ETH_P_IP),
          ck_bad_length = (unat (ih_tot_len (hp_ip hdr)) < 20 + 8),
          ck_not_udp = (ih_protocol (hp_ip hdr) \<noteq> IPPROTO_UDP)\<rparr>)"

definition hdr_checks :: "bool \<Rightarrow> 'h steering \<Rightarrow> 'h steering" where
  "hdr_checks enable s =
     (if s_empty (hdr_dup_to_checks s) \<or> s_full (checks_to_actions s) then s
      else (let (buf, i') = s_read (hdr_dup_to_checks s);
                c = check_header enable buf
            in s\<lparr>hdr_dup_to_checks := i',
                 checks_to_actions := s_write c (checks_to_actions s),
                 checks_to_stats := s_write_nb c (checks_to_stats s)\<rparr>))"

definition apply_checks :: "checks \<Rightarrow> flow_table_result \<Rightarrow> flow_table_result" where
  "apply_checks c r =
     (if ck_disabled c \<or> ck_not_ipv4 c \<or> ck_bad_length c \<or> ck_not_udp c
      then r\<lparr>fr_v := (fr_v r)\<lparr>ft_action := FT_PASSTHROUGH\<rparr>\<rparr> else r)"

definition checks_to_action ::
  "'h steering \<Rightarrow> flow_table_result hls_stream \<Rightarrow> 'h steering \<times> flow_table_result hls_stream" where
  "checks_to_action s result_out =
     (if s_empty (checks_to_actions s) \<or> s_empty (ft_to_action s) \<or>
         s_full (st_ft_results s) \<or> s_full result_out then (s, result_out)
      else (let (c, ca') = s_read (checks_to_actions s);
                (r, fa') = s_read (ft_to_action s);
                r' = apply_checks c r
            in (s\<lparr>checks_to_actions := ca', ft_to_action := fa',
                  st_ft_results := s_write r' (st_ft_results s)\<rparr>,
                if ft_action (fr_v r') = FT_IKERNEL then s_write r' result_out else result_out)))"

definition count_checks :: "checks \<Rightarrow> hds_stats \<Rightarrow> hds_stats" where
  "count_checks c t =
     t\<lparr>passthrough_disabled := passthrough_disabled t + of_bool (ck_disabled c),
       passthrough_not_ipv4 := passthrough_not_ipv4 t + of_bool (ck_not_ipv4 c),
       passthrough_bad_length := passthrough_bad_length t + of_bool (ck_bad_length c),
       passthrough_not_udp := passthrough_not_udp t + of_bool (ck_not_udp c)\<rparr>"

definition update_stats_checks :: "'h steering \<Rightarrow> hds_stats \<Rightarrow> 'h steering \<times> hds_stats" where
  "update_stats_checks s o_stats =
     (let t = st_stats s;
          o_stats' = o_stats\<lparr>passthrough_disabled := passthrough_disabled t,
                       passthrough_not_ipv4 := passthrough_not_ipv4 t,
                       passthrough_bad_length := passthrough_bad_length t,
                       passthrough_not_udp := passthrough_not_udp t\<rparr>
      in if s_empty (checks_to_stats s) then (s, o_stats')
         else (let (c, cs') = s_read (checks_to_stats s)
               in (s\<lparr>checks_to_stats := cs', st_stats := count_checks c t\<rparr>, o_stats')))"

definition count_action :: "32 word \<Rightarrow> hds_stats \<Rightarrow> hds_stats" where
  "count_action a t =
     (if a = FT_PASSTHROUGH then t\<lparr>ft_action_passthrough := ft_action_passthrough t + 1\<rparr>
      else if a = FT_DROP then t\<lparr>ft_action_drop := ft_action_drop t + 1\<rparr>
      else if a = FT_IKERNEL then t\<lparr>ft_action_ikernel := ft_action_ikernel t + 1\<rparr>
      else t)"

definition update_stats_actions ::
  "'h steering \<Rightarrow> bool hls_stream \<Rightarrow> hds_stats \<Rightarrow> 'h steering \<times> bool hls_stream \<times> hds_stats" where
  "update_stats_actions s pass_raw o_stats =
     (let t = st_stats s;
          o_stats' = o_stats\<lparr>ft_action_passthrough := ft_action_passthrough t,
                       ft_action_drop := ft_action_drop t,
                       ft_action_ikernel := ft_action_ikernel t\<rparr>
      in if s_empty (st_ft_results s) \<or> s_full (matched s) \<or> s_full pass_raw
         then (s, pass_raw, o_stats')
         else (let (ft, fr') = s_read (st_ft_results s);
                   a = ft_action (fr_v ft)
               in (s\<lparr>st_ft_results := fr', matched := s_write (a = FT_IKERNEL) (matched s),
                     st_stats := count_action a t\<rparr>,
                   s_write (a = FT_PASSTHROUGH) pass_raw, o_stats')))"

definition steer ::
  "'h hash_table_ops \<Rightarrow> bool \<Rightarrow> gw_cmd \<Rightarrow> 'h steering \<Rightarrow>
   header_buffer hls_stream \<Rightarrow> data_stream \<Rightarrow> bool hls_stream \<Rightarrow>
   header_buffer hls_stream \<Rightarrow> data_stream \<Rightarrow> flow_table_result hls_stream \<Rightarrow> hds_stats \<Rightarrow>
   'h steering \<times> header_buffer hls_stream \<times> data_stream \<times> bool hls_stream \<times>
   header_buffer hls_stream \<times> data_stream \<times> flow_table_result hls_stream \<times> hds_stats" where
  "steer ht enable cmd s hdr_in data_in pass_raw hdr_out data_out result_out o_stats =
     (let (hdr_in', d1, d2, d3) = dup3 hdr_in (hdr_dup_to_dropper s) (hdr_dup_to_checks s)
                                        (hdr_dup_to_flow_table s);
          s1 = s\<lparr>hdr_dup_to_dropper := d1, hdr_dup_to_checks := d2, hdr_dup_to_flow_table := d3\<rparr>;
          s2 = hdr_checks enable s1;
          (ft', h', r') = ft_step ht cmd (st_ft s2) (hdr_dup_to_flow_table s2) (ft_to_action s2);
          s3 = s2\<lparr>st_ft := ft', hdr_dup_to_flow_table := h', ft_to_action := r'\<rparr>;
          (s4, result_out') = checks_to_action s3 result_out;
          (s5, o1) = update_stats_checks s4 o_stats;
          (s6, pass_raw', o2) = update_stats_actions s5 pass_raw o1;
          (dr, m', hd', data_in', hdr_out', data_out') =
            udp_dropper_step (st_dropper s6, matched s6, hdr_dup_to_dropper s6, data_in, hdr_out, data_out)
      in (s6\<lparr>st_dropper := dr, matched := m', hdr_dup_to_dropper := hd'\<rparr>,
          hdr_in', data_in', pass_raw', hdr_out', data_out', result_out', o2))"

section \<open>What the dropper puts out\<close>

text \<open>
  \<open>udrop_run\<close> is the output (headers, data) that the decisions, headers and data words determine;
  the mode is the decision for the data of the packet that is being streamed.
\<close>

function udrop_run ::
  "bool \<Rightarrow> bool option \<Rightarrow> bool list \<Rightarrow> header_buffer list \<Rightarrow> axi_data list \<Rightarrow>
   header_buffer list \<times> axi_data list" where
  "udrop_run ehd None (p # ps) (h # hs) ws =
     (let (ho, wo) =
        udrop_run ehd (if \<not> hdr_empty_packet h then Some p else if ehd then Some False else None) ps hs ws
      in (if p then h # ho else ho, wo))"
| "udrop_run ehd None [] hs ws = ([], [])"
| "udrop_run ehd None ps [] ws = ([], [])"
| "udrop_run ehd (Some p) ps hs (w # ws) =
     (let (ho, wo) = udrop_run ehd (if ad_last w then None else Some p) ps hs ws
      in (ho, if p then w # wo else wo))"
| "udrop_run ehd (Some p) ps hs [] = ([], [])"
  by pat_completeness auto
termination
  by (relation "measure (\<lambda>(ehd, m, ps, hs, ws). length ps + length ws)") auto

definition udrop_words :: "udp_dropper \<Rightarrow> data_stream \<Rightarrow> axi_data list" where
  "udrop_words st data_in = (if ud_data_buf_valid st then [ud_data_buf st] else []) @ que data_in"

definition udrop_owed :: "udrop_sys \<Rightarrow> header_buffer list \<times> axi_data list" where
  "udrop_owed s = (case s of (st, pass, hin, din, hout, dout) \<Rightarrow>
     udrop_run (empty_packets_have_data st)
       (case ud_state st of IDLE \<Rightarrow> None | STREAMING \<Rightarrow> Some (\<not> ud_drop st))
       (que pass) (que hin) (udrop_words st din))"

definition udrop_hdrs :: "udrop_sys \<Rightarrow> header_buffer list" where
  "udrop_hdrs s = (case s of (st, pass, hin, din, hout, dout) \<Rightarrow> que hout)"

definition udrop_data :: "udrop_sys \<Rightarrow> axi_data list" where
  "udrop_data s = (case s of (st, pass, hin, din, hout, dout) \<Rightarrow> que dout)"

definition udrop_work :: "udrop_sys \<Rightarrow> nat" where
  "udrop_work s = (case s of (st, pass, hin, din, hout, dout) \<Rightarrow>
     length (que pass) + 2 * length (que din) + of_bool (ud_data_buf_valid st))"

definition udrop_ready :: "udrop_sys \<Rightarrow> bool" where
  "udrop_ready s = (case s of (st, pass, hin, din, hout, dout) \<Rightarrow> depth hout = None \<and> depth dout = None)"

lemmas udrop_defs = udp_dropper_step_def udrop_owed_def udrop_words_def udrop_hdrs_def
  udrop_data_def udrop_work_def udrop_ready_def

lemma udrop_run_no_data [simp]: "udrop_run ehd (Some p) ps hs [] = ([], [])"
  by simp

lemma udrop_run_blocked [simp]: "udrop_run ehd None ps [] ws = ([], [])"
  by (cases ps) simp_all

lemma udrop_conserve:
  "udrop_hdrs (udp_dropper_step s) @ fst (udrop_owed (udp_dropper_step s)) = udrop_hdrs s @ fst (udrop_owed s) \<and>
   udrop_data (udp_dropper_step s) @ snd (udrop_owed (udp_dropper_step s)) = udrop_data s @ snd (udrop_owed s)"
proof -
  obtain st pass hin din hout dout where s: "s = (st, pass, hin, din, hout, dout)" by (cases s)
  show ?thesis
  proof (cases "ud_state st")
    case IDLE
    then show ?thesis unfolding s by (cases "que pass"; cases "que hin")
        (auto simp: udrop_defs stream_defs Let_def split: prod.splits)
  next
    case STREAMING
    then show ?thesis unfolding s by (cases "que din"; cases "ud_data_buf_valid st")
        (auto simp: udrop_defs stream_defs Let_def split: prod.splits)
  qed
qed

lemma udrop_progress:
  assumes "udrop_ready s" "udrop_owed s \<noteq> ([], [])"
  shows "udrop_work (udp_dropper_step s) < udrop_work s"
proof -
  obtain st pass hin din hout dout where s: "s = (st, pass, hin, din, hout, dout)" by (cases s)
  show ?thesis
  proof (cases "ud_state st")
    case IDLE
    then show ?thesis using assms unfolding s by (cases "que pass"; cases "que hin")
        (auto simp: udrop_defs stream_defs Let_def)
  next
    case STREAMING
    then show ?thesis using assms unfolding s by (cases "que din"; cases "ud_data_buf_valid st")
        (auto simp: udrop_defs stream_defs Let_def)
  qed
qed

lemma udrop_ready_step: "udrop_ready s \<Longrightarrow> udrop_ready (udp_dropper_step s)"
  by (cases s) (auto simp: udrop_defs stream_defs Let_def split: idle_stream.splits prod.splits)


interpretation udd: stage2 udp_dropper_step udrop_hdrs udrop_data udrop_owed udrop_work udrop_ready
  by unfold_locales
    (rule conjunct1 [OF udrop_conserve] conjunct2 [OF udrop_conserve] udrop_ready_step udrop_progress;
     assumption?)+

text \<open>
  The input of the dropper in units of packets: a decision, a header, and the data words that belong
  to it. A packet that its header calls empty has data words only if the stream is the one that
  precedes the length adjustment (\<open>empty_packets_have_data\<close>).
\<close>

type_synonym judged_packet = "bool \<times> header_buffer \<times> axi_data list"

definition framed :: "bool \<Rightarrow> judged_packet \<Rightarrow> bool" where
  "framed ehd j = (case j of (p, h, ws) \<Rightarrow>
     if hdr_empty_packet h \<and> \<not> ehd then ws = [] else is_packet ad_last ws)"

definition kept_headers :: "judged_packet list \<Rightarrow> header_buffer list" where
  "kept_headers js = map (\<lambda>(p, h, ws). h) (filter fst js)"

definition kept_data :: "judged_packet list \<Rightarrow> axi_data list" where
  "kept_data js = concat (map (\<lambda>(p, h, ws). ws) (filter (\<lambda>(p, h, ws). p \<and> \<not> hdr_empty_packet h) js))"

lemma udrop_run_stream:
  "is_packet ad_last p \<Longrightarrow>
   udrop_run ehd (Some d) ps hs (p @ ws) =
     (fst (udrop_run ehd None ps hs ws), (if d then p else []) @ snd (udrop_run ehd None ps hs ws))"
  by (induction p) (auto simp: is_packet_Cons split: if_splits prod.splits)

lemma udrop_run_packets:
  assumes "\<forall>j \<in> set js. framed ehd j"
  shows "udrop_run ehd None (map fst js) (map (fst \<circ> snd) js) (concat (map (snd \<circ> snd) js)) =
    (kept_headers js, kept_data js)"
  using assms
proof (induction js)
  case Nil
  then show ?case by (simp add: kept_headers_def kept_data_def)
next
  case (Cons j js)
  obtain p h ws where j: "j = (p, h, ws)" by (cases j)
  have "framed ehd j" using Cons.prems by simp
  with Cons show ?case
    by (auto simp: j framed_def udrop_run_stream kept_headers_def kept_data_def split: if_splits)
qed

section \<open>The decision pipeline\<close>

text \<open>
  The three processes between the duplicated headers and the decision streams, with the flow
  table's results as an input. Each header gets exactly one decision, in order.
\<close>

type_synonym 'h decide_sys =
  "'h steering \<times> flow_table_result hls_stream \<times> bool hls_stream \<times> hds_stats"

definition decide_step :: "bool \<Rightarrow> 'h decide_sys \<Rightarrow> 'h decide_sys" where
  "decide_step enable s = (case s of (st, res, raw, o_stats) \<Rightarrow>
     (let s2 = hdr_checks enable st;
          (s4, res') = checks_to_action s2 res;
          (s5, o1) = update_stats_checks s4 o_stats;
          (s6, raw', o2) = update_stats_actions s5 raw o1
      in (s6, res', raw', o2)))"

definition judged :: "bool \<Rightarrow> 'h steering \<Rightarrow> flow_table_result list" where
  "judged enable st =
     map (\<lambda>(c, r). apply_checks c r)
       (zip (que (checks_to_actions st) @ map (check_header enable) (que (hdr_dup_to_checks st)))
            (que (ft_to_action st)))"

definition decide_matched :: "'h decide_sys \<Rightarrow> bool list" where
  "decide_matched s = que (matched (fst s))"

definition decide_raw :: "'h decide_sys \<Rightarrow> bool list" where
  "decide_raw s = que (fst (snd (snd s)))"

definition decide_results :: "'h decide_sys \<Rightarrow> flow_table_result list" where
  "decide_results s = que (fst (snd s))"

definition decide_pend :: "bool \<Rightarrow> 'h decide_sys \<Rightarrow> flow_table_result list" where
  "decide_pend enable s = que (st_ft_results (fst s)) @ judged enable (fst s)"

definition acts :: "32 word \<Rightarrow> flow_table_result list \<Rightarrow> bool list" where
  "acts a rs = map (\<lambda>r. ft_action (fr_v r) = a) rs"

lemma hdr_checks_judged:
  "judged enable (hdr_checks enable st) = judged enable st"
  "st_ft_results (hdr_checks enable st) = st_ft_results st"
  "matched (hdr_checks enable st) = matched st"
proof -
  show "judged enable (hdr_checks enable st) = judged enable st"
  proof (cases "que (hdr_dup_to_checks st)")
    case Nil
    then show ?thesis by (simp add: hdr_checks_def s_empty_def)
  next
    case (Cons h hs)
    then show ?thesis by (simp add: hdr_checks_def s_empty_def judged_def s_read_def Let_def)
  qed
qed (simp_all add: hdr_checks_def Let_def split: prod.split)

lemma update_stats_checks_judged:
  assumes "update_stats_checks st o_stats = (st', o')"
  shows "judged enable st' = judged enable st" "st_ft_results st' = st_ft_results st"
    "matched st' = matched st"
  using assms by (auto simp: update_stats_checks_def judged_def Let_def split: if_splits prod.splits)

lemma checks_to_action_judged:
  assumes "checks_to_action st res = (st', res')"
  shows "que (st_ft_results st') @ judged enable st' = que (st_ft_results st) @ judged enable st"
    "que res' @ filter (\<lambda>r. ft_action (fr_v r) = FT_IKERNEL) (judged enable st') =
     que res @ filter (\<lambda>r. ft_action (fr_v r) = FT_IKERNEL) (judged enable st)"
    "matched st' = matched st"
  using assms
  by (cases "que (checks_to_actions st)"; cases "que (ft_to_action st)";
      auto simp: checks_to_action_def judged_def stream_defs Let_def split: if_splits)+

lemma update_stats_actions_judged:
  assumes "update_stats_actions st raw o_stats = (st', raw', o')"
  shows "judged enable st' = judged enable st"
    "que (matched st') @ acts FT_IKERNEL (que (st_ft_results st')) =
     que (matched st) @ acts FT_IKERNEL (que (st_ft_results st))"
    "que raw' @ acts FT_PASSTHROUGH (que (st_ft_results st')) =
     que raw @ acts FT_PASSTHROUGH (que (st_ft_results st))"
  using assms
  by (cases "que (st_ft_results st)";
      auto simp: update_stats_actions_def judged_def acts_def stream_defs Let_def split: if_splits)+

lemma acts_append [simp]: "acts a (xs @ ys) = acts a xs @ acts a ys"
  by (simp add: acts_def)

lemma decide_conserve:
  assumes "decide_step enable s = t"
  shows "decide_matched t @ acts FT_IKERNEL (decide_pend enable t) =
           decide_matched s @ acts FT_IKERNEL (decide_pend enable s)"
    and "decide_raw t @ acts FT_PASSTHROUGH (decide_pend enable t) =
           decide_raw s @ acts FT_PASSTHROUGH (decide_pend enable s)"
    and "decide_results t @ filter (\<lambda>r. ft_action (fr_v r) = FT_IKERNEL) (judged enable (fst t)) =
           decide_results s @ filter (\<lambda>r. ft_action (fr_v r) = FT_IKERNEL) (judged enable (fst s))"
proof -
  obtain st res raw o_stats where s: "s = (st, res, raw, o_stats)" by (cases s)
  obtain s4 res' where 4: "checks_to_action (hdr_checks enable st) res = (s4, res')" by force
  obtain s5 o1 where 5: "update_stats_checks s4 o_stats = (s5, o1)" by force
  obtain s6 raw' o2 where 6: "update_stats_actions s5 raw o1 = (s6, raw', o2)"
    by (cases "update_stats_actions s5 raw o1")
  have t: "t = (s6, res', raw', o2)" using assms by (simp add: s decide_step_def 4 5 6)
  note j = checks_to_action_judged(1,2) [OF 4, of enable] checks_to_action_judged(3) [OF 4]
    update_stats_checks_judged(1) [OF 5, of enable] update_stats_checks_judged(2,3) [OF 5]
    update_stats_actions_judged(1) [OF 6, of enable] update_stats_actions_judged(2,3) [OF 6]
    hdr_checks_judged [of enable st]
  have split: "que (st_ft_results s4) @ judged enable s4 = que (st_ft_results st) @ judged enable st"
    using j by simp
  have acts_split: "acts a (que (st_ft_results s4)) @ acts a (judged enable s4) =
      acts a (que (st_ft_results st)) @ acts a (judged enable st)" for a
    using arg_cong [OF split, of "acts a"] by simp
  show "decide_matched t @ acts FT_IKERNEL (decide_pend enable t) =
      decide_matched s @ acts FT_IKERNEL (decide_pend enable s)"
    using j acts_split [of FT_IKERNEL]
    by (simp add: decide_matched_def decide_pend_def t s flip: append_assoc) simp
  show "decide_raw t @ acts FT_PASSTHROUGH (decide_pend enable t) =
      decide_raw s @ acts FT_PASSTHROUGH (decide_pend enable s)"
    using j acts_split [of FT_PASSTHROUGH]
    by (simp add: decide_raw_def decide_pend_def t s flip: append_assoc) simp
  show "decide_results t @ filter (\<lambda>r. ft_action (fr_v r) = FT_IKERNEL) (judged enable (fst t)) =
      decide_results s @ filter (\<lambda>r. ft_action (fr_v r) = FT_IKERNEL) (judged enable (fst s))"
    using j by (simp add: decide_results_def t s)
qed

interpretation dm: conserving "decide_step enable" decide_matched
    "\<lambda>s. acts FT_IKERNEL (decide_pend enable s)"
  by unfold_locales (rule decide_conserve(1) [OF refl])

interpretation dr: conserving "decide_step enable" decide_raw
    "\<lambda>s. acts FT_PASSTHROUGH (decide_pend enable s)"
  by unfold_locales (rule decide_conserve(2) [OF refl])

interpretation dres: conserving "decide_step enable" decide_results
    "\<lambda>s. filter (\<lambda>r. ft_action (fr_v r) = FT_IKERNEL) (judged enable (fst s))"
  by unfold_locales (rule decide_conserve(3) [OF refl])

section \<open>Properties\<close>

text \<open>
  C1: The dropper of the steering unit filters packets exactly. Started idle on the decisions,
  headers and data of a sequence of packets, and with outputs that accept words, it reaches within
  a bounded number of clocks a state in which it has put out the headers of exactly the accepted
  packets and the data words of exactly the accepted non-empty packets, all in order.
\<close>

theorem udp_dropper_filters:
  assumes "\<forall>j \<in> set js. framed (empty_packets_have_data st) j"
    and "ud_state st = IDLE" "\<not> ud_data_buf_valid st"
    and "que pass = map fst js" "que hin = map (fst \<circ> snd) js" "que din = concat (map (snd \<circ> snd) js)"
    and "depth hout = None" "depth dout = None"
  shows "\<exists>n. udrop_hdrs ((udp_dropper_step ^^ n) (st, pass, hin, din, hout, dout)) =
              que hout @ kept_headers js \<and>
            udrop_data ((udp_dropper_step ^^ n) (st, pass, hin, din, hout, dout)) =
              que dout @ kept_data js"
proof -
  let ?s = "(st, pass, hin, din, hout, dout)"
  have "udrop_ready ?s" using assms by (simp add: udrop_ready_def)
  moreover have "udrop_owed ?s = (kept_headers js, kept_data js)"
    using assms udrop_run_packets [OF assms(1)] by (simp add: udrop_owed_def udrop_words_def)
  ultimately show ?thesis
    using udd.drains2 [of ?s] by (auto simp: udrop_hdrs_def udrop_data_def)
qed

definition demo_hdr :: "16 word \<Rightarrow> header_buffer" where
  "demo_hdr k = \<lparr>hb_hdr = push_bit 16 (ucast k), hb_pkt_id = 0, hb_user = 0, hb_generated = False\<rparr>"

definition demo_dropper :: udp_dropper where
  "demo_dropper = \<lparr>ud_state = IDLE, ud_drop = False, empty_packets_have_data = True,
     ud_data_buf_valid = False, ud_data_buf = \<lparr>ad_data = 0, ad_keep = 0, ad_last = False\<rparr>\<rparr>"

definition demo_word :: "256 word \<Rightarrow> bool \<Rightarrow> axi_data" where
  "demo_word d l = \<lparr>ad_data = d, ad_keep = -1, ad_last = l\<rparr>"

lemma demo_hdr_empty [simp]: "hdr_empty_packet (demo_hdr k) \<longleftrightarrow> unat k \<le> 8"
proof -
  have "ap_range 31 16 (ap_range 63 0 (push_bit 16 (ucast k :: 336 word)) :: 64 word) = k"
    by (rule bit_word_eqI) (auto simp: bit_ap_range bit_simps)
  then show ?thesis
    by (simp add: hdr_empty_packet_def udp_empty_packet_def header_parser_of_buffer_def
        udp_header_from_int_def demo_hdr_def)
qed

lemma udp_dropper_filters_witness:
  "\<exists>n. udrop_hdrs ((udp_dropper_step ^^ n)
      (demo_dropper, \<lparr>depth = None, que = [True, False]\<rparr>, \<lparr>depth = None, que = [demo_hdr 40, demo_hdr 8]\<rparr>,
       \<lparr>depth = None, que = [demo_word 1 False, demo_word 2 True, demo_word 3 True]\<rparr>,
       s_new None, s_new None)) = [demo_hdr 40] \<and>
     udrop_data ((udp_dropper_step ^^ n)
      (demo_dropper, \<lparr>depth = None, que = [True, False]\<rparr>, \<lparr>depth = None, que = [demo_hdr 40, demo_hdr 8]\<rparr>,
       \<lparr>depth = None, que = [demo_word 1 False, demo_word 2 True, demo_word 3 True]\<rparr>,
       s_new None, s_new None)) = [demo_word 1 False, demo_word 2 True]"
  using udp_dropper_filters [of
      "[(True, demo_hdr 40, [demo_word 1 False, demo_word 2 True]), (False, demo_hdr 8, [demo_word 3 True])]"
      demo_dropper "\<lparr>depth = None, que = [True, False]\<rparr>" "\<lparr>depth = None, que = [demo_hdr 40, demo_hdr 8]\<rparr>"
      "\<lparr>depth = None, que = [demo_word 1 False, demo_word 2 True, demo_word 3 True]\<rparr>" "s_new None" "s_new None"]
  by (simp add: framed_def is_packet_Cons demo_dropper_def demo_word_def kept_headers_def kept_data_def
      s_new_def)

text \<open>
  C29: The dropper never loses, reorders or invents output under back pressure: whatever the depths
  of its streams and after any number of clocks, what it has put out followed by what it still owes
  is what it owed at the start, for headers and for data.
\<close>

theorem udp_dropper_conserves:
  "udrop_hdrs ((udp_dropper_step ^^ n) s) @ fst (udrop_owed ((udp_dropper_step ^^ n) s)) =
     udrop_hdrs s @ fst (udrop_owed s) \<and>
   udrop_data ((udp_dropper_step ^^ n) s) @ snd (udrop_owed ((udp_dropper_step ^^ n) s)) =
     udrop_data s @ snd (udrop_owed s)"
  using udd.one.conserve_run udd.two.conserve_run by blast

text \<open>
  C6: Steering decides once per packet and consistently. Whatever the back pressure, after any
  number of clocks the decisions given to the dropper, the decisions given to the raw path and the
  flow results given to the crossbar are each a prefix of the sequence of judged flow results: the
  dropper accepts and the crossbar gets a result exactly for the packets judged \<open>FT_IKERNEL\<close>, the
  raw path passes exactly those judged \<open>FT_PASSTHROUGH\<close>.
\<close>

theorem steering_decisions:
  "decide_matched ((decide_step enable ^^ n) s) @ acts FT_IKERNEL (decide_pend enable ((decide_step enable ^^ n) s)) =
     decide_matched s @ acts FT_IKERNEL (decide_pend enable s) \<and>
   decide_raw ((decide_step enable ^^ n) s) @ acts FT_PASSTHROUGH (decide_pend enable ((decide_step enable ^^ n) s)) =
     decide_raw s @ acts FT_PASSTHROUGH (decide_pend enable s) \<and>
   decide_results ((decide_step enable ^^ n) s) @
       filter (\<lambda>r. ft_action (fr_v r) = FT_IKERNEL) (judged enable (fst ((decide_step enable ^^ n) s))) =
     decide_results s @ filter (\<lambda>r. ft_action (fr_v r) = FT_IKERNEL) (judged enable (fst s))"
  using dm.conserve_run dr.conserve_run dres.conserve_run by blast

text \<open>
  Only well-formed UDP traffic of an enabled unit reaches an ikernel: when the judged result of
  a header has the action \<open>FT_IKERNEL\<close>, the unit is enabled, the EtherType is IPv4, the protocol is
  UDP, the total length covers both headers, and the flow table had matched the flow.
\<close>

lemma judged_ikernel:
  "ft_action (fr_v (apply_checks (check_header enable buf) r)) = FT_IKERNEL \<longleftrightarrow>
     enable \<and> eh_proto (hp_eth (header_parser_of_buffer buf)) = 0x0800 \<and>
     ih_protocol (hp_ip (header_parser_of_buffer buf)) = 17 \<and>
     28 \<le> unat (ih_tot_len (hp_ip (header_parser_of_buffer buf))) \<and>
     ft_action (fr_v r) = FT_IKERNEL"
  by (auto simp: apply_checks_def check_header_def Let_def ETH_P_IP_def IPPROTO_UDP_def
      FT_IKERNEL_def FT_PASSTHROUGH_def)

end
