(* ===== verification/Udp_Split.thy ===== *)
theory Udp_Split
  imports Steering
begin

text \<open>
  \<open>header_data_split\<close> of \<open>src/nica/hls/udp.cpp\<close>: takes the 42 byte header off the front of each packet
  and realigns the rest, so that the payload starts at the first byte of the first data word.

  \<open>kb\<close> stands for \<open>ntl::axi_data::keep_bytes\<close>, the mask for a number of valid bytes.
\<close>

datatype hds_phase = HDS_IDLE | READING_HEADER | HDS_STREAM | HDS_LAST

record header_data_split =
  hds_state :: hds_phase
  hds_meta :: mlx_metadata
  hds_buffer :: "256 word"

definition data_start :: nat where "data_start = 512 - 336"

definition split_header :: "mlx_metadata \<Rightarrow> 256 word \<Rightarrow> 256 word \<Rightarrow> header_buffer" where
  "split_header m buffer cur =
     \<lparr>hb_hdr = word_cat buffer (ap_range 255 data_start cur :: 80 word),
      hb_pkt_id = mm_id m, hb_user = mm_user m, hb_generated = False\<rparr>"

definition split_word :: "256 word \<Rightarrow> 256 word \<Rightarrow> axi_data" where
  "split_word buffer cur =
     \<lparr>ad_data = word_cat (ap_range (data_start - 1) 0 buffer :: 176 word)
                        (ap_range 255 data_start cur :: 80 word),
      ad_keep = 0xffffffff, ad_last = False\<rparr>"

definition split_last :: "(nat \<Rightarrow> 32 word) \<Rightarrow> 256 word \<Rightarrow> axi_data" where
  "split_last kb buffer =
     \<lparr>ad_data = word_cat (ap_range (data_start - 1) 0 buffer :: 176 word) (0 :: 80 word),
      ad_keep = kb (32 - data_start div 8), ad_last = True\<rparr>"

type_synonym split_sys =
  "header_data_split \<times> mlx_metadata hls_stream \<times> data_stream \<times> header_buffer hls_stream \<times> data_stream"

definition split_idle :: "split_sys \<Rightarrow> split_sys" where
  "split_idle s = (case s of (st, out_metadata, out_data, header, data) \<Rightarrow>
     (if \<not> s_empty out_metadata \<and> \<not> s_empty out_data then
        (let (cur, out_data') = s_read out_data;
             (m, out_metadata') = s_read out_metadata
         in (\<lparr>hds_state = READING_HEADER, hds_meta = m, hds_buffer = ad_data cur\<rparr>,
             out_metadata', out_data', header, data))
      else (st, out_metadata, out_data, header, data)))"

definition split :: "(nat \<Rightarrow> 32 word) \<Rightarrow> split_sys \<Rightarrow> split_sys" where
  "split kb s = (case s of (st, out_metadata, out_data, header, data) \<Rightarrow>
     (case hds_state st of
        HDS_IDLE \<Rightarrow> split_idle s
      | READING_HEADER \<Rightarrow>
          if \<not> s_empty out_data \<and> \<not> s_full header then
            (let (cur, out_data') = s_read out_data
             in (st\<lparr>hds_buffer := ad_data cur,
                    hds_state := (if ad_last cur then HDS_LAST else HDS_STREAM)\<rparr>,
                 out_metadata, out_data',
                 s_write (split_header (hds_meta st) (hds_buffer st) (ad_data cur)) header, data))
          else s
      | HDS_STREAM \<Rightarrow>
          if \<not> s_empty out_data \<and> \<not> s_full data then
            (let (cur, out_data') = s_read out_data
             in (st\<lparr>hds_buffer := ad_data cur,
                    hds_state := (if ad_last cur then HDS_LAST else HDS_STREAM)\<rparr>,
                 out_metadata, out_data', header,
                 s_write (split_word (hds_buffer st) (ad_data cur)) data))
          else s
      | HDS_LAST \<Rightarrow>
          if s_full data then s
          else split_idle (st\<lparr>hds_state := HDS_IDLE\<rparr>, out_metadata, out_data, header,
                           s_write (split_last kb (hds_buffer st)) data)))"

section \<open>Specification\<close>

text \<open>\<open>split_run\<close>: the headers and data words that the waiting packets and the registers determine.\<close>

fun split_run ::
  "(nat \<Rightarrow> 32 word) \<Rightarrow> hds_phase \<Rightarrow> mlx_metadata \<Rightarrow> 256 word \<Rightarrow> mlx_metadata list \<Rightarrow> axi_data list \<Rightarrow>
   header_buffer list \<times> axi_data list" where
  "split_run kb HDS_LAST m b ms [] = ([], [split_last kb b])"
| "split_run kb ph m b ms [] = ([], [])"
| "split_run kb HDS_IDLE m b [] (w # ws) = ([], [])"
| "split_run kb HDS_IDLE m b (n # ms) (w # ws) = split_run kb READING_HEADER n (ad_data w) ms ws"
| "split_run kb READING_HEADER m b ms (w # ws) =
     apfst ((#) (split_header m b (ad_data w)))
       (split_run kb (if ad_last w then HDS_LAST else HDS_STREAM) m (ad_data w) ms ws)"
| "split_run kb HDS_STREAM m b ms (w # ws) =
     apsnd ((#) (split_word b (ad_data w)))
       (split_run kb (if ad_last w then HDS_LAST else HDS_STREAM) m (ad_data w) ms ws)"
| "split_run kb HDS_LAST m b [] (w # ws) = ([], [split_last kb b])"
| "split_run kb HDS_LAST m b (n # ms) (w # ws) =
     apsnd ((#) (split_last kb b)) (split_run kb READING_HEADER n (ad_data w) ms ws)"

definition split_owed :: "(nat \<Rightarrow> 32 word) \<Rightarrow> split_sys \<Rightarrow> header_buffer list \<times> axi_data list" where
  "split_owed kb s = (case s of (st, ms, ws, header, data) \<Rightarrow>
     split_run kb (hds_state st) (hds_meta st) (hds_buffer st) (que ms) (que ws))"

definition split_hdrs :: "split_sys \<Rightarrow> header_buffer list" where
  "split_hdrs s = (case s of (st, ms, ws, header, data) \<Rightarrow> que header)"

definition split_data :: "split_sys \<Rightarrow> axi_data list" where
  "split_data s = (case s of (st, ms, ws, header, data) \<Rightarrow> que data)"

definition split_work :: "split_sys \<Rightarrow> nat" where
  "split_work s = (case s of (st, ms, ws, header, data) \<Rightarrow>
     2 * length (que ws) + of_bool (hds_state st = HDS_LAST))"

definition split_ready :: "split_sys \<Rightarrow> bool" where
  "split_ready s = (case s of (st, ms, ws, header, data) \<Rightarrow> depth header = None \<and> depth data = None)"

lemmas split_defs = split_def split_idle_def split_owed_def split_hdrs_def split_data_def
  split_work_def split_ready_def

lemma split_run_idle_no_meta [simp]: "split_run kb HDS_IDLE m b [] ws = ([], [])"
  by (cases ws) simp_all

lemma split_run_last_no_meta [simp]: "split_run kb HDS_LAST m b [] ws = ([], [split_last kb b])"
  by (cases ws) simp_all

lemma split_conserve:
  "split_hdrs (split kb s) @ fst (split_owed kb (split kb s)) = split_hdrs s @ fst (split_owed kb s)"
  "split_data (split kb s) @ snd (split_owed kb (split kb s)) = split_data s @ snd (split_owed kb s)"
proof -
  obtain st ms ws hdr data where s: "s = (st, ms, ws, hdr, data)" by (cases s)
  show "split_hdrs (split kb s) @ fst (split_owed kb (split kb s)) = split_hdrs s @ fst (split_owed kb s)"
    "split_data (split kb s) @ snd (split_owed kb (split kb s)) = split_data s @ snd (split_owed kb s)"
    unfolding s by (cases "que ms"; cases "que ws"; cases "hds_state st";
        simp add: split_defs stream_defs Let_def)+
qed

lemma split_progress:
  assumes "split_ready s" "split_owed kb s \<noteq> ([], [])"
  shows "split_work (split kb s) < split_work s"
proof -
  obtain st ms ws hdr data where s: "s = (st, ms, ws, hdr, data)" by (cases s)
  show ?thesis using assms
    unfolding s by (cases "que ms"; cases "que ws"; cases "hds_state st")
      (simp_all add: split_defs stream_defs Let_def)
qed

lemma split_ready_step: "split_ready s \<Longrightarrow> split_ready (split kb s)"
  by (cases s) (auto simp: split_defs stream_defs Let_def split: hds_phase.splits)

interpretation hds: stage2 "split kb" split_hdrs split_data "split_owed kb" split_work split_ready
  by unfold_locales (simp_all add: split_conserve split_progress split_ready_step)

section \<open>Packets\<close>

fun realign :: "(nat \<Rightarrow> 32 word) \<Rightarrow> 256 word \<Rightarrow> axi_data list \<Rightarrow> axi_data list" where
  "realign kb b [] = [split_last kb b]"
| "realign kb b (w # ws) = split_word b (ad_data w) # realign kb (ad_data w) ws"

fun packet_header :: "mlx_metadata \<Rightarrow> axi_data list \<Rightarrow> header_buffer" where
  "packet_header m (w0 # w1 # ws) = split_header m (ad_data w0) (ad_data w1)"

fun packet_payload :: "(nat \<Rightarrow> 32 word) \<Rightarrow> axi_data list \<Rightarrow> axi_data list" where
  "packet_payload kb (w0 # w1 # ws) = realign kb (ad_data w1) ws"

text \<open>The splitter looks at the \<open>last\<close> bit from the second word on.\<close>

fun splittable :: "axi_data list \<Rightarrow> bool" where
  "splittable (w0 # ws) = is_packet ad_last ws"
| "splittable [] = False"

lemma split_run_last:
  "split_run kb HDS_LAST m b ms ws = apsnd ((#) (split_last kb b)) (split_run kb HDS_IDLE m' b' ms ws)"
  by (cases ms; cases ws) simp_all

lemma split_run_stream:
  assumes "if p = [] then ph = HDS_LAST else ph = HDS_STREAM \<and> is_packet ad_last p"
  shows "split_run kb ph m b ms (p @ ws) =
    apsnd ((@) (realign kb b p)) (split_run kb HDS_IDLE m b ms ws)"
  using assms
proof (induction p arbitrary: ph b)
  case Nil
  then show ?case by (simp add: split_run_last [of kb m b ms ws m b])
next
  case (Cons w p)
  then have "split_run kb (if ad_last w then HDS_LAST else HDS_STREAM) m (ad_data w) ms (p @ ws) =
      apsnd ((@) (realign kb (ad_data w) p)) (split_run kb HDS_IDLE m (ad_data w) ms ws)"
    by (intro Cons.IH) (auto simp: is_packet_Cons split: if_splits)
  moreover have "split_run kb HDS_IDLE m (ad_data w) ms ws = split_run kb HDS_IDLE m b ms ws"
    by (cases ms; cases ws) simp_all
  ultimately show ?case using Cons.prems by (simp add: prod.expand)
qed

lemma split_run_packets:
  assumes "list_all splittable pkts" "length ms = length pkts"
  shows "split_run kb HDS_IDLE m b ms (concat pkts) =
    (map2 packet_header ms pkts, concat (map (packet_payload kb) pkts))"
  using assms
proof (induction pkts arbitrary: ms m b)
  case Nil
  then show ?case by simp
next
  case (Cons p pkts)
  obtain n ns where ms: "ms = n # ns" using Cons.prems by (cases ms) auto
  obtain w0 w1 ws where p: "p = w0 # w1 # ws" and sp: "is_packet ad_last (w1 # ws)"
    using Cons.prems by (cases p rule: splittable.cases; cases "tl p") auto
  have "split_run kb (if ad_last w1 then HDS_LAST else HDS_STREAM) n (ad_data w1) ns (ws @ concat pkts) =
      apsnd ((@) (realign kb (ad_data w1) ws)) (split_run kb HDS_IDLE n (ad_data w1) ns (concat pkts))"
    by (rule split_run_stream) (use sp in \<open>auto simp: is_packet_Cons split: if_splits\<close>)
  then show ?case using Cons ms p by simp
qed

lemma msb_bits_halves:
  "msb_bits (ap_range 255 data_start w :: 80 word) @ msb_bits (ap_range (data_start - 1) 0 w :: 176 word) =
     msb_bits (w :: 256 word)"
proof -
  have "msb_bits (word_cat (ap_range 255 176 w :: 80 word) (ap_range 175 0 w :: 176 word) :: 256 word) =
      msb_bits (ap_range 255 176 w :: 80 word) @ msb_bits (ap_range 175 0 w :: 176 word)"
    by (rule msb_bits_cat) simp
  then show ?thesis by (simp add: ap_range_join ap_range_whole data_start_def)
qed

text \<open>Nothing of the packet is lost: header and payload, read in order, are the packet.\<close>

lemma bits_realign:
  "concat (map (msb_bits \<circ> ad_data) (realign kb b ws)) =
     msb_bits (ap_range (data_start - 1) 0 b :: 176 word) @
     concat (map (msb_bits \<circ> ad_data) ws) @ replicate 80 False"
proof (induction ws arbitrary: b)
  case Nil
  have "msb_bits (word_cat (ap_range (data_start - 1) 0 b :: 176 word) (0 :: 80 word) :: 256 word) =
      msb_bits (ap_range (data_start - 1) 0 b :: 176 word) @ msb_bits (0 :: 80 word)"
    by (rule msb_bits_cat) simp
  then show ?case by (simp add: split_last_def msb_bits_zero)
next
  case (Cons w ws)
  have "msb_bits (word_cat (ap_range (data_start - 1) 0 b :: 176 word)
        (ap_range 255 data_start (ad_data w) :: 80 word) :: 256 word) =
      msb_bits (ap_range (data_start - 1) 0 b :: 176 word) @
      msb_bits (ap_range 255 data_start (ad_data w) :: 80 word)"
    by (rule msb_bits_cat) simp
  then show ?case using Cons.IH [of "ad_data w"]
    by (simp add: split_word_def comp_def flip: msb_bits_halves [of "ad_data w"])
qed

lemma bits_header:
  "msb_bits (hb_hdr (split_header m b c)) =
     msb_bits b @ msb_bits (ap_range 255 data_start c :: 80 word)"
  unfolding split_header_def by (simp, rule msb_bits_cat) simp

section \<open>Properties\<close>



text \<open>
  The state machine of the splitter computes that split. Started idle with the words and the
  side band of a sequence of packets, each of at least two words, and with outputs that accept words, it reaches
  within \<open>2 * words\<close> clocks a state in which it has put out exactly one header per packet and the
  payload words of all packets, in order.
\<close>

lemma split_drains:
  assumes "list_all splittable pkts" "length (que ms) = length pkts" "que ws = concat pkts"
    and "hds_state st = HDS_IDLE" "depth hdr = None" "depth data = None"
  shows "\<exists>n \<le> 2 * length (concat pkts).
    split_hdrs ((split kb ^^ n) (st, ms, ws, hdr, data)) = que hdr @ map2 packet_header (que ms) pkts \<and>
    split_data ((split kb ^^ n) (st, ms, ws, hdr, data)) = que data @ concat (map (packet_payload kb) pkts)"
proof -
  let ?s = "(st, ms, ws, hdr, data)"
  have "split_ready ?s" using assms by (simp add: split_ready_def)
  then show ?thesis
    using hds.drains2 [of ?s kb] assms split_run_packets [OF assms(1,2)]
    by (simp add: split_work_def split_owed_def split_hdrs_def split_data_def) blast
qed

end
