(* ===== verification/Length_Adjust.thy ===== *)
theory Length_Adjust
  imports Udp_Split
begin

text \<open>
  \<open>length_adjust\<close> of \<open>src/nica/hls/udp.cpp\<close>: cuts the data words of a packet to the length that the
  IP header gives, so that Ethernet padding does not reach the ikernels. \<open>find_length\<close> turns headers
  into word counts, \<open>cut_data\<close> is the state machine that cuts.
\<close>

datatype la_phase = LA_IDLE | COUNT | CONSUME

record la_packet =
  la_word_count :: "11 word"
  la_tot_len :: "16 word"
  la_last_word_data :: "5 word"

record length_adjust =
  la_state :: la_phase
  la_data_buf_valid :: bool
  la_data_buf :: axi_data
  la_packets :: "la_packet hls_stream"
  la_pkt :: la_packet

definition la_packet_of_header :: "header_buffer \<Rightarrow> la_packet" where
  "la_packet_of_header buf =
     (let tot_len = ih_tot_len (hp_ip (header_parser_of_buffer buf));
          header_length = (64 div 8 + 160 div 8 :: 16 word);
          data_length = tot_len - header_length;
          last_word_data = (ap_range 4 0 data_length :: 5 word)
      in \<lparr>la_word_count = ap_range 15 5 data_length + of_bool (last_word_data \<noteq> 0),
          la_tot_len = tot_len, la_last_word_data = last_word_data\<rparr>)"

definition find_length ::
  "length_adjust \<Rightarrow> header_buffer hls_stream \<Rightarrow> length_adjust \<times> header_buffer hls_stream" where
  "find_length st hdr_in =
     (if s_empty hdr_in \<or> s_full (la_packets st) then (st, hdr_in)
      else (let (buf, hdr_in') = s_read hdr_in
            in (st\<lparr>la_packets := s_write (la_packet_of_header buf) (la_packets st)\<rparr>, hdr_in')))"

definition cut_last :: "la_packet \<Rightarrow> axi_data \<Rightarrow> axi_data" where
  "cut_last p w = w\<lparr>ad_keep := last_word_keep_num_bytes_valid (la_last_word_data p), ad_last := True\<rparr>"

definition fill_data_buf :: "length_adjust \<Rightarrow> data_stream \<Rightarrow> length_adjust \<times> data_stream" where
  "fill_data_buf st data_in =
     (if s_empty data_in then (st, data_in)
      else (let (w, data_in') = s_read data_in
            in (st\<lparr>la_data_buf := w, la_data_buf_valid := True\<rparr>, data_in')))"

definition cut_data ::
  "length_adjust \<Rightarrow> data_stream \<Rightarrow> data_stream \<Rightarrow> length_adjust \<times> data_stream \<times> data_stream" where
  "cut_data st data_in data_out =
     (case la_state st of
        LA_IDLE \<Rightarrow>
          if \<not> s_empty (la_packets st) then
            (let (pkt, ps') = s_read (la_packets st)
             in (st\<lparr>la_pkt := pkt, la_packets := ps',
                    la_state := (if la_word_count pkt \<noteq> 0 then COUNT else LA_IDLE)\<rparr>, data_in, data_out))
          else (st, data_in, data_out)
      | COUNT \<Rightarrow>
          (let (st1, data_out') =
                 (if la_data_buf_valid st \<and> \<not> s_full data_out then
                    (let cnt = la_word_count (la_pkt st) - 1;
                         st0 = st\<lparr>la_pkt := (la_pkt st)\<lparr>la_word_count := cnt\<rparr>, la_data_buf_valid := False\<rparr>
                     in if cnt = 0
                        then (st0\<lparr>la_state := (if ad_last (la_data_buf st) then LA_IDLE else CONSUME),
                                  la_data_buf := cut_last (la_pkt st) (la_data_buf st)\<rparr>,
                              s_write (cut_last (la_pkt st) (la_data_buf st)) data_out)
                        else (if ad_last (la_data_buf st) then st0\<lparr>la_state := LA_IDLE\<rparr> else st0,
                              s_write (la_data_buf st) data_out))
                  else (st, data_out));
               (st2, data_in') =
                 (if \<not> la_data_buf_valid st1 then fill_data_buf st1 data_in else (st1, data_in))
           in (st2, data_in', data_out'))
      | CONSUME \<Rightarrow>
          (let st1 = (if la_data_buf_valid st
                      then st\<lparr>la_state := (if ad_last (la_data_buf st) then LA_IDLE else CONSUME),
                              la_data_buf_valid := False\<rparr>
                      else st);
               (st2, data_in') = fill_data_buf st1 data_in
           in (st2, data_in', data_out)))"

definition adjust ::
  "length_adjust \<Rightarrow> header_buffer hls_stream \<Rightarrow> data_stream \<Rightarrow> data_stream \<Rightarrow>
   length_adjust \<times> header_buffer hls_stream \<times> data_stream \<times> data_stream" where
  "adjust st hdr_in data_in data_out =
     (let (st1, hdr_in') = find_length st hdr_in;
          (st2, data_in', data_out') = cut_data st1 data_in data_out
      in (st2, hdr_in', data_in', data_out'))"

section \<open>Specification\<close>

function cut_run :: "la_phase \<Rightarrow> la_packet \<Rightarrow> la_packet list \<Rightarrow> axi_data list \<Rightarrow> axi_data list" where
  "cut_run LA_IDLE c [] ws = []"
| "cut_run LA_IDLE c (p # ps) ws = cut_run (if la_word_count p \<noteq> 0 then COUNT else LA_IDLE) p ps ws"
| "cut_run COUNT c ps [] = []"
| "cut_run COUNT c ps (w # ws) =
     (let k = la_word_count c - 1
      in if k = 0 then cut_last c w # cut_run (if ad_last w then LA_IDLE else CONSUME) (c\<lparr>la_word_count := k\<rparr>) ps ws
         else w # cut_run (if ad_last w then LA_IDLE else COUNT) (c\<lparr>la_word_count := k\<rparr>) ps ws)"
| "cut_run CONSUME c ps [] = []"
| "cut_run CONSUME c ps (w # ws) = cut_run (if ad_last w then LA_IDLE else CONSUME) c ps ws"
  by pat_completeness auto
termination
  by (relation "measure (\<lambda>(ph, c, ps, ws). length ps + length ws)") auto

type_synonym la_sys = "length_adjust \<times> header_buffer hls_stream \<times> data_stream \<times> data_stream"

definition la_find :: "la_sys \<Rightarrow> la_sys" where
  "la_find s = (case s of (st, h, i, t) \<Rightarrow> (let (st', h') = find_length st h in (st', h', i, t)))"

definition la_cut :: "la_sys \<Rightarrow> la_sys" where
  "la_cut s = (case s of (st, h, i, t) \<Rightarrow> (let (st', i', t') = cut_data st i t in (st', h, i', t')))"

definition la_step :: "la_sys \<Rightarrow> la_sys" where
  "la_step s = (case s of (st, h, i, t) \<Rightarrow> adjust st h i t)"

definition la_words :: "length_adjust \<Rightarrow> data_stream \<Rightarrow> axi_data list" where
  "la_words st i = (if la_data_buf_valid st then [la_data_buf st] else []) @ que i"

definition la_out :: "la_sys \<Rightarrow> axi_data list" where
  "la_out s = (case s of (st, h, i, t) \<Rightarrow> que t)"

definition la_pend :: "la_sys \<Rightarrow> axi_data list" where
  "la_pend s = (case s of (st, h, i, t) \<Rightarrow>
     cut_run (la_state st) (la_pkt st) (que (la_packets st) @ map la_packet_of_header (que h))
       (la_words st i))"

definition la_work :: "la_sys \<Rightarrow> nat" where
  "la_work s = (case s of (st, h, i, t) \<Rightarrow>
     2 * length (que h) + length (que (la_packets st)) + 2 * length (que i) + of_bool (la_data_buf_valid st))"

definition la_ready :: "la_sys \<Rightarrow> bool" where
  "la_ready s = (case s of (st, h, i, t) \<Rightarrow> depth t = None \<and> depth (la_packets st) \<noteq> Some 0)"

lemma la_step_eq: "la_step s = la_cut (la_find s)"
  by (cases s) (simp add: la_step_def la_cut_def la_find_def adjust_def split: prod.splits)

lemmas la_defs = la_find_def la_cut_def find_length_def cut_data_def fill_data_buf_def
  la_words_def la_out_def la_pend_def la_work_def la_ready_def

lemma la_find_facts:
  "la_out (la_find s) = la_out s" "la_pend (la_find s) = la_pend s"
  "la_work (la_find s) \<le> la_work s" "la_ready s \<Longrightarrow> la_ready (la_find s)"
  by (cases s; cases "que (fst (snd s))"; simp add: la_defs stream_defs Let_def)+

lemma cut_run_no_words [simp]: "cut_run ph c ps [] = []"
  by (induction ps arbitrary: ph c) (case_tac ph; simp)+

lemma cut_run_carry:
  "ph \<noteq> COUNT \<Longrightarrow> cut_run ph c ps ws = cut_run ph d ps ws"
proof (induction ws arbitrary: ph)
  case Nil
  then show ?case by simp
next
  case (Cons w ws)
  then show ?case by (cases ph; cases ps) simp_all
qed

lemma la_cut_conserve: "la_out (la_cut s) @ la_pend (la_cut s) = la_out s @ la_pend s"
proof -
  obtain st h i t where s: "s = (st, h, i, t)" by (cases s)
  show ?thesis
    unfolding s by (cases "la_state st"; cases "que i"; cases "la_data_buf_valid st"; cases "que (la_packets st)")
      (simp_all add: la_defs stream_defs Let_def)
qed

lemma la_cut_ready: "la_ready s \<Longrightarrow> la_ready (la_cut s)"
  by (cases s) (auto simp: la_defs stream_defs Let_def split: la_phase.splits prod.splits)

lemma la_cut_work: "la_work (la_cut s) \<le> la_work s"
proof -
  obtain st h i t where s: "s = (st, h, i, t)" by (cases s)
  show ?thesis
    unfolding s by (cases "la_state st"; cases "que i"; cases "la_data_buf_valid st"; cases "que (la_packets st)")
      (simp_all add: la_defs stream_defs Let_def)
qed

lemma la_cut_progress:
  assumes "la_ready s" "la_pend s \<noteq> []" "\<not> (la_state (fst s) = LA_IDLE \<and> s_empty (la_packets (fst s)))"
  shows "la_work (la_cut s) < la_work s"
proof -
  obtain st h i t where s: "s = (st, h, i, t)" by (cases s)
  show ?thesis
    using assms unfolding s
    by (cases "la_state st"; cases "que i"; cases "la_data_buf_valid st"; cases "que (la_packets st)")
      (simp_all add: la_defs stream_defs Let_def)
qed

lemma la_find_progress:
  assumes "la_ready s" "la_pend s \<noteq> []" "la_state (fst s) = LA_IDLE" "s_empty (la_packets (fst s))"
  shows "la_work (la_find s) < la_work s"
proof -
  obtain st h i t where s: "s = (st, h, i, t)" by (cases s)
  have "\<not> s_full (la_packets st)"
    using assms unfolding s by (auto simp: la_ready_def s_full_def s_empty_def split: option.splits)
  then show ?thesis
    using assms unfolding s by (cases "que h") (simp_all add: la_defs stream_defs Let_def)
qed

interpretation la: stage la_step la_out la_pend la_work la_ready
proof unfold_locales
  fix s
  show "la_out (la_step s) @ la_pend (la_step s) = la_out s @ la_pend s"
    by (simp add: la_step_eq la_cut_conserve la_find_facts)
  show "la_ready (la_step s)" if "la_ready s"
    using that by (simp add: la_step_eq la_cut_ready la_find_facts)
  show "la_work (la_step s) < la_work s" if "la_ready s" "la_pend s \<noteq> []"
  proof (cases "la_state (fst s) = LA_IDLE \<and> s_empty (la_packets (fst s))")
    case True
    then have "la_work (la_find s) < la_work s" using that la_find_progress by blast
    then show ?thesis using la_cut_work [of "la_find s"] by (simp add: la_step_eq)
  next
    case False
    have "la_state (fst (la_find s)) = la_state (fst s)"
      by (cases s) (simp add: la_find_def find_length_def Let_def split: prod.splits)
    moreover have "s_empty (la_packets (fst (la_find s))) \<Longrightarrow> s_empty (la_packets (fst s))"
      by (cases s) (auto simp: la_find_def find_length_def Let_def stream_defs split: prod.splits if_splits)
    ultimately have "la_work (la_cut (la_find s)) < la_work (la_find s)"
      using False that by (intro la_cut_progress) (auto simp: la_find_facts)
    then show ?thesis using la_find_facts(3) [of s] by (simp add: la_step_eq)
  qed
qed

section \<open>Packets\<close>

text \<open>What is left of a packet: at most \<open>n\<close> words, the \<open>n\<close>-th of them cut.\<close>

fun trim :: "la_packet \<Rightarrow> nat \<Rightarrow> axi_data list \<Rightarrow> axi_data list" where
  "trim c n [] = []"
| "trim c 0 (w # ws) = []"
| "trim c (Suc n) (w # ws) = (if n = 0 then [cut_last c w] else w # trim c n ws)"

definition trimmed :: "header_buffer \<times> axi_data list \<Rightarrow> axi_data list" where
  "trimmed j = (case j of (h, ws) \<Rightarrow>
     trim (la_packet_of_header h) (unat (la_word_count (la_packet_of_header h))) ws)"

definition la_framed :: "header_buffer \<times> axi_data list \<Rightarrow> bool" where
  "la_framed j = (case j of (h, ws) \<Rightarrow>
     if la_word_count (la_packet_of_header h) = 0 then ws = [] else is_packet ad_last ws)"

lemma cut_run_consume:
  "is_packet ad_last p \<Longrightarrow> cut_run CONSUME c ps (p @ ws) = cut_run LA_IDLE c ps ws"
  by (induction p) (auto simp: is_packet_Cons split: if_splits)

lemma cut_last_wc [simp]: "cut_last (c\<lparr>la_word_count := k\<rparr>) w = cut_last c w"
  by (simp add: cut_last_def)

lemma trim_wc [simp]: "trim (c\<lparr>la_word_count := k\<rparr>) n ws = trim c n ws"
  by (induction c n ws rule: trim.induct) simp_all

lemma cut_run_count:
  assumes "is_packet ad_last p" "la_word_count c \<noteq> 0"
  shows "cut_run COUNT c ps (p @ ws) = trim c (unat (la_word_count c)) p @ cut_run LA_IDLE c ps ws"
  using assms
proof (induction p arbitrary: c)
  case Nil
  then show ?case by simp
next
  case (Cons w p)
  let ?k = "la_word_count c - 1"
  let ?c = "c\<lparr>la_word_count := ?k\<rparr>"
  have u: "unat (la_word_count c) = Suc (unat ?k)"
    using Cons.prems(2) by (simp add: unat_minus_one unat_gt_0)
  have carry: "cut_run LA_IDLE ?c ps ws = cut_run LA_IDLE c ps ws" by (rule cut_run_carry) simp
  show ?case
  proof (cases "?k = 0")
    case True
    then have "trim c (unat (la_word_count c)) (w # p) = [cut_last c w]" using u by simp
    then show ?thesis
      using Cons.prems True cut_run_consume [of p ?c ps ws] carry by (auto simp: is_packet_Cons Let_def split: if_splits)
  next
    case False
    then have "trim c (unat (la_word_count c)) (w # p) = w # trim c (unat ?k) p"
      using u by (simp add: unat_eq_zero)
    moreover have "p \<noteq> [] \<Longrightarrow> cut_run COUNT ?c ps (p @ ws) = trim ?c (unat ?k) p @ cut_run LA_IDLE ?c ps ws"
      using Cons.IH [of ?c] Cons.prems(1) False by (simp add: is_packet_Cons)
    ultimately show ?thesis using Cons.prems(1) False carry
      by (auto simp: is_packet_Cons Let_def simp del: trim.simps(3) split: if_splits)
  qed
qed

lemma cut_run_packets:
  assumes "list_all la_framed js"
  shows "cut_run LA_IDLE c (map (la_packet_of_header \<circ> fst) js) (concat (map snd js)) =
    concat (map trimmed js)"
  using assms
proof (induction js arbitrary: c)
  case Nil
  then show ?case by simp
next
  case (Cons j js)
  obtain h p where j: "j = (h, p)" by (cases j)
  have "la_framed (h, p)" using Cons.prems j by simp
  with Cons show ?case
    by (cases "la_word_count (la_packet_of_header h) = 0")
      (simp_all add: j la_framed_def trimmed_def cut_run_count)
qed

text \<open>The number of valid bytes of a sequence of words.\<close>

definition valid_bytes :: "axi_data list \<Rightarrow> nat" where
  "valid_bytes ws = sum_list (map (\<lambda>w. card {i. bit (ad_keep w) i}) ws)"

lemma card_last_word_keep:
  "card {i. bit (last_word_keep_num_bytes_valid n) i} = (if n = 0 then 32 else unat n)"
proof (cases "n = 0")
  case True
  then have "{i. bit (last_word_keep_num_bytes_valid n) i} = {..<32}" by (auto simp: bit_last_word_keep)
  then show ?thesis using True by simp
next
  case False
  have "unat n < 32" using unsigned_less [of n] by simp
  with False have "{i. bit (last_word_keep_num_bytes_valid n) i} = {32 - unat n..<32}"
    by (auto simp: bit_last_word_keep)
  then show ?thesis using False \<open>unat n < 32\<close> by simp
qed

lemma unat_low_range: "unat (ap_range 4 0 (d :: 16 word) :: 5 word) = unat d mod 32"
  by (simp add: ap_range_def unsigned_ucast_eq unsigned_take_bit_eq flip: take_bit_eq_mod [of 5, simplified])

lemma unat_high_range: "unat (ap_range 15 5 (d :: 16 word) :: 11 word) = unat d div 32"
proof -
  have u: "unat d < 2 ^ LENGTH(16)" by (rule unsigned_less)
  then have "unat d < 2048 * 32" by simp
  then have "unat d div 32 < 2048" by (rule less_mult_imp_div_less)
  moreover have "unat (ap_range 15 5 d :: 11 word) = take_bit 11 (unat d div 32)"
    using u by (simp add: ap_range_def unsigned_ucast_eq unsigned_take_bit_eq unsigned_drop_bit_eq
        drop_bit_eq_div [where 'a = nat] take_bit_nat_eq_self)
  ultimately show ?thesis by (simp add: take_bit_nat_eq_self)
qed

definition ip_payload_length :: "header_buffer \<Rightarrow> nat" where
  "ip_payload_length h = unat (ih_tot_len (hp_ip (header_parser_of_buffer h))) - 28"

lemma words_needed:
  fixes d :: nat
  shows "d div 32 + of_bool (d mod 32 \<noteq> 0) = (d + 31) div 32"
    and "d \<le> 65504 \<Longrightarrow> d div 32 + of_bool (d mod 32 \<noteq> 0) < 2048"
    and "0 < d \<Longrightarrow> 32 * ((d + 31) div 32 - 1) + (if d mod 32 = 0 then 32 else d mod 32) = d"
proof -
  obtain q r where d: "d = 32 * q + r" "r < 32"
    by (metis div_mult_mod_eq mod_less_divisor mult.commute zero_less_numeral)
  have c: "(d + 31) div 32 = q + of_bool (r \<noteq> 0)"
    using d by (cases "r = 0") (simp_all add: div_nat_eqI)
  have qr: "d div 32 = q" "d mod 32 = r" using d by simp_all
  show "d div 32 + of_bool (d mod 32 \<noteq> 0) = (d + 31) div 32" by (simp only: c qr)
  show "d div 32 + of_bool (d mod 32 \<noteq> 0) < 2048" if "d \<le> 65504"
    using that d by (cases "r = 0") (simp_all add: qr)
  show "32 * ((d + 31) div 32 - 1) + (if d mod 32 = 0 then 32 else d mod 32) = d" if "0 < d"
    unfolding c qr using that d by (cases "r = 0"; cases q) simp_all
qed

lemma la_packet_of_header_nat:
  assumes "28 \<le> unat (ih_tot_len (hp_ip (header_parser_of_buffer h)))" "ip_payload_length h \<le> 65504"
  shows "unat (la_word_count (la_packet_of_header h)) = (ip_payload_length h + 31) div 32"
    and "unat (la_last_word_data (la_packet_of_header h)) = ip_payload_length h mod 32"
proof -
  let ?t = "ih_tot_len (hp_ip (header_parser_of_buffer h))"
  have d: "unat (?t - 28) = ip_payload_length h"
    using assms(1) unat_sub [of 28 ?t] by (simp add: ip_payload_length_def word_le_nat_alt)
  have hl: "(64 div 8 + 160 div 8 :: 16 word) = 28" by code_simp
  have nz: "(ap_range 4 0 (?t - 28) :: 5 word) \<noteq> 0 \<longleftrightarrow> ip_payload_length h mod 32 \<noteq> 0"
    using unat_low_range [of "?t - 28"] d by (simp add: unat_eq_zero flip: unat_eq_0)
  show "unat (la_last_word_data (la_packet_of_header h)) = ip_payload_length h mod 32"
    unfolding la_packet_of_header_def Let_def hl by (simp add: unat_low_range d)
  have "unat (ap_range 15 5 (?t - 28) + of_bool (ip_payload_length h mod 32 \<noteq> 0) :: 11 word) =
      ip_payload_length h div 32 + of_bool (ip_payload_length h mod 32 \<noteq> 0)"
    using words_needed(2) [OF assms(2)]
    by (cases "ip_payload_length h mod 32 = 0"; subst unat_add_lem [THEN iffD1])
      (simp_all add: unat_high_range d)
  moreover have "ip_payload_length h div 32 + of_bool (ip_payload_length h mod 32 \<noteq> 0) =
      (ip_payload_length h + 31) div 32"
    by (rule words_needed(1))
  ultimately show "unat (la_word_count (la_packet_of_header h)) = (ip_payload_length h + 31) div 32"
    unfolding la_packet_of_header_def Let_def hl by (simp only: nz select_convs la_packet.select_convs)
qed

lemma valid_bytes_trim:
  assumes "0 < n" "n \<le> length ws" "\<forall>w \<in> set ws. ad_keep w = -1"
  shows "valid_bytes (trim c n ws) =
    32 * (n - 1) + (if la_last_word_data c = 0 then 32 else unat (la_last_word_data c))"
  using assms
proof (induction c n ws rule: trim.induct)
  case (3 c n w ws)
  have "Collect (bit (-1 :: 32 word)) = {..<32}" by (auto simp: bit_simps)
  then have "card (Collect (bit (-1 :: 32 word))) = 32" by (simp only: card_lessThan)
  with 3 show ?case by (auto simp: valid_bytes_def cut_last_def card_last_word_keep)
qed simp_all

section \<open>Properties\<close>

text \<open>
  The length adjustment delivers exactly the payload. For a header whose total length is at
  least the two headers and a packet whose words hold at least that payload, the words that are left
  hold as many valid bytes as the IP header announces, so Ethernet padding is cut off.
\<close>

lemma length_adjust_exact:
  assumes "28 < unat (ih_tot_len (hp_ip (header_parser_of_buffer h)))" "ip_payload_length h \<le> 65504"
    and "ip_payload_length h \<le> 32 * length ws" "\<forall>w \<in> set ws. ad_keep w = -1"
  shows "valid_bytes (trimmed (h, ws)) = unat (ih_tot_len (hp_ip (header_parser_of_buffer h))) - 28"
proof -
  let ?c = "la_packet_of_header h"
  let ?d = "ip_payload_length h"
  have wc: "unat (la_word_count ?c) = (?d + 31) div 32"
    and lw: "unat (la_last_word_data ?c) = ?d mod 32"
    using assms by (simp_all add: la_packet_of_header_nat)
  have d: "0 < ?d" using assms(1) by (simp add: ip_payload_length_def)
  have "valid_bytes (trimmed (h, ws)) =
      32 * ((?d + 31) div 32 - 1) + (if la_last_word_data ?c = 0 then 32 else ?d mod 32)"
    unfolding trimmed_def using assms(3,4) d by (simp add: valid_bytes_trim wc lw)
  also have "\<dots> = 32 * ((?d + 31) div 32 - 1) + (if ?d mod 32 = 0 then 32 else ?d mod 32)"
    using lw by (simp flip: unat_eq_0)
  also have "\<dots> = ?d" using d by (rule words_needed(3))
  finally show ?thesis by (simp add: ip_payload_length_def)
qed

definition demo_ip_hdr :: "16 word \<Rightarrow> header_buffer" where
  "demo_ip_hdr k = \<lparr>hb_hdr = push_bit 192 (ucast k), hb_pkt_id = 0, hb_user = 0, hb_generated = False\<rparr>"

lemma demo_ip_hdr_len [simp]: "ih_tot_len (hp_ip (header_parser_of_buffer (demo_ip_hdr k))) = k"
proof -
  have "ap_range 143 128 (ap_range 223 64 (push_bit 192 (ucast k :: 336 word)) :: 160 word) = k"
    by (rule bit_word_eqI) (auto simp: bit_ap_range bit_simps)
  then show ?thesis by (simp add: header_parser_of_buffer_def ip_header_from_int_def demo_ip_hdr_def)
qed


definition demo_adjust :: length_adjust where
  "demo_adjust = \<lparr>la_state = LA_IDLE, la_data_buf_valid = False, la_data_buf = demo_word 0 False,
     la_packets = s_new (Some 1), la_pkt = \<lparr>la_word_count = 0, la_tot_len = 0, la_last_word_data = 0\<rparr>\<rparr>"


end
