(* ===== verification/Checksum.thy ===== *)
theory Checksum
  imports Length_Adjust
begin

text \<open>
  The \<open>checksum\<close> and \<open>checksum_validate\<close> classes of \<open>src/nica/hls/udp.cpp\<close>: Internet checksums
  computed in several 32 bit accumulators which a second process adds, folds and complements.
\<close>

record intermediate_checksum =
  ic_ip :: "32 word list"
  ic_udp :: "32 word list"

definition ip_splits :: nat where "ip_splits = 2"
definition num_splits :: nat where "num_splits = 8"

definition acc :: "nat \<Rightarrow> 16 word \<Rightarrow> 32 word list \<Rightarrow> 32 word list" where
  "acc i v xs = xs[i := xs ! i + ucast v]"

definition halfword :: "'a::len word \<Rightarrow> nat \<Rightarrow> 16 word" where
  "halfword d i = ap_range (16 * i + 15) (16 * i) d"

definition ipv4_checksum :: "ip_header \<Rightarrow> intermediate_checksum \<Rightarrow> intermediate_checksum" where
  "ipv4_checksum hdr c =
     (let d = ip_header_to_int (hdr\<lparr>ih_check := 0\<rparr>);
          bits_per_split = 160 div ip_splits
      in c\<lparr>ic_ip := map (\<lambda>sp. fold (\<lambda>i s. s + ucast (halfword d i))
                         [sp * bits_per_split div 16..<(sp + 1) * bits_per_split div 16] 0)
                    [0..<ip_splits]\<rparr>)"

definition udp_pseudoheader_checksum :: "header_parser \<Rightarrow> intermediate_checksum \<Rightarrow> intermediate_checksum" where
  "udp_pseudoheader_checksum hdr c =
     c\<lparr>ic_udp :=
        (acc (8 mod num_splits) (uh_length (hp_udp hdr)) \<circ>
         acc (7 mod num_splits) (uh_dest (hp_udp hdr)) \<circ>
         acc (6 mod num_splits) (uh_source (hp_udp hdr)) \<circ>
         acc (5 mod num_splits) (uh_length (hp_udp hdr)) \<circ>
         acc (4 mod num_splits) (word_cat (ih_protocol (hp_ip hdr)) (0 :: 8 word)) \<circ>
         acc (3 mod num_splits) (ap_range 31 16 (ih_daddr (hp_ip hdr))) \<circ>
         acc (2 mod num_splits) (ap_range 15 0 (ih_daddr (hp_ip hdr))) \<circ>
         acc (1 mod num_splits) (ap_range 31 16 (ih_saddr (hp_ip hdr))) \<circ>
         acc (0 mod num_splits) (ap_range 15 0 (ih_saddr (hp_ip hdr))))
        (replicate num_splits 0)\<rparr>"

definition checksum_word :: "256 word \<Rightarrow> 32 word list \<Rightarrow> 32 word list" where
  "checksum_word w xs = fold (\<lambda>i. acc (i mod num_splits) (halfword w i)) [0..<16] xs"

datatype cs_phase = CS_IDLE | CS_DATA

record checksum =
  cs_state :: cs_phase
  cur_checksum :: intermediate_checksum
  intermediate_stream :: "intermediate_checksum hls_stream"

definition checksum_header_and_data ::
  "checksum \<Rightarrow> header_buffer hls_stream \<Rightarrow> data_stream \<Rightarrow>
   checksum \<times> header_buffer hls_stream \<times> data_stream" where
  "checksum_header_and_data st hdr_in data_in =
     (case cs_state st of
        CS_IDLE \<Rightarrow>
          if \<not> s_empty hdr_in \<and> \<not> s_full (intermediate_stream st) then
            (let (buf, hdr_in') = s_read hdr_in;
                 hdr = header_parser_of_buffer buf;
                 c = udp_pseudoheader_checksum hdr (ipv4_checksum (hp_ip hdr) (cur_checksum st));
                 st' = st\<lparr>cur_checksum := c\<rparr>
             in (if udp_empty_packet (hp_udp hdr)
                 then st'\<lparr>intermediate_stream := s_write c (intermediate_stream st)\<rparr>
                 else st'\<lparr>cs_state := CS_DATA\<rparr>, hdr_in', data_in))
          else (st, hdr_in, data_in)
      | CS_DATA \<Rightarrow>
          if \<not> s_empty data_in \<and> \<not> s_full (intermediate_stream st) then
            (let (word, data_in') = s_read data_in;
                 c = (cur_checksum st)\<lparr>ic_udp := checksum_word (mask_last_word word) (ic_udp (cur_checksum st))\<rparr>;
                 st' = st\<lparr>cur_checksum := c\<rparr>
             in (if ad_last word
                 then st'\<lparr>intermediate_stream := s_write c (intermediate_stream st), cs_state := CS_IDLE\<rparr>
                 else st', hdr_in, data_in'))
          else (st, hdr_in, data_in))"

definition fold_once :: "32 word \<Rightarrow> 32 word" where
  "fold_once r = ucast (ap_range 15 0 r :: 16 word) + ucast (ap_range 31 16 r :: 16 word)"

definition finish_value :: "intermediate_checksum \<Rightarrow> checksum_t" where
  "finish_value cur =
     \<lparr>cs_ip = ucast (NOT (fold_once (fold_once (sum_list (ic_ip cur))))),
      cs_udp = ucast (NOT (fold_once (fold_once (sum_list (ic_udp cur)))))\<rparr>"

definition finish_checksum :: "checksum \<Rightarrow> checksum_t hls_stream \<Rightarrow> checksum \<times> checksum_t hls_stream" where
  "finish_checksum st outp =
     (if s_empty (intermediate_stream st) \<or> s_full outp then (st, outp)
      else (let (cur, is') = s_read (intermediate_stream st)
            in (st\<lparr>intermediate_stream := is'\<rparr>, s_write (finish_value cur) outp)))"

definition checksum_step ::
  "checksum \<Rightarrow> header_buffer hls_stream \<Rightarrow> data_stream \<Rightarrow> checksum_t hls_stream \<Rightarrow>
   checksum \<times> header_buffer hls_stream \<times> data_stream \<times> checksum_t hls_stream" where
  "checksum_step st hdr_in data_in outp =
     (let (st1, hdr_in', data_in') = checksum_header_and_data st hdr_in data_in;
          (st2, outp') = finish_checksum st1 outp
      in (st2, hdr_in', data_in', outp'))"

definition checksum_validate :: "checksum_t \<Rightarrow> header_buffer \<Rightarrow> bool" where
  "checksum_validate cs buf =
     (let hdr = header_parser_of_buffer buf
      in cs_ip cs = ih_check (hp_ip hdr) \<and>
         (cs_udp cs = uh_checksum (hp_udp hdr) \<or> uh_checksum (hp_udp hdr) = 0))"

section \<open>Ones' complement arithmetic\<close>

lemma unat_fold_once: "unat (fold_once r) = unat r mod 65536 + unat r div 65536"
proof -
  have u: "unat r < 2 ^ LENGTH(32)" by (rule unsigned_less)
  then have "unat r < 65536 * 65536" by simp
  then have d: "unat r div 65536 < 65536" by (rule less_mult_imp_div_less)
  have lo: "unat (ucast (ap_range 15 0 r :: 16 word) :: 32 word) = unat r mod 65536"
    by (simp add: ap_range_def unsigned_ucast_eq unsigned_take_bit_eq take_bit_eq_mod [where 'a = nat])
  have hi: "unat (ucast (ap_range 31 16 r :: 16 word) :: 32 word) = unat r div 65536"
    using u d by (simp add: ap_range_def unsigned_ucast_eq unsigned_take_bit_eq unsigned_drop_bit_eq
        drop_bit_eq_div [where 'a = nat] take_bit_nat_eq_self)
  have "unat r mod 65536 < 65536" by simp
  with d have "unat r mod 65536 + unat r div 65536 < 2 ^ 32" by simp
  then show ?thesis unfolding fold_once_def
    by (subst unat_add_lem [THEN iffD1]) (simp_all add: lo hi)
qed

text \<open>Folding keeps the value modulo 65535, and twice is enough to fit into 16 bits.\<close>

lemma fold_once_mod: "unat (fold_once r) mod 65535 = unat r mod 65535"
proof -
  have "unat r = 65536 * (unat r div 65536) + unat r mod 65536" by simp
  also have "\<dots> = 65535 * (unat r div 65536) + unat (fold_once r)"
    by (simp add: unat_fold_once)
  finally have "unat r mod 65535 = (65535 * (unat r div 65536) + unat (fold_once r)) mod 65535" by simp
  then show ?thesis by simp
qed

lemma fold_twice_bound: "unat (fold_once (fold_once r)) \<le> 65535"
proof -
  have "unat r < 2 ^ LENGTH(32)" by (rule unsigned_less)
  then have "unat r < 65536 * 65536" by simp
  then have "unat r div 65536 \<le> 65535" by (simp add: less_mult_imp_div_less less_Suc_eq_le [symmetric])
  moreover have "unat r mod 65536 \<le> 65535" by (simp add: less_Suc_eq_le [symmetric])
  ultimately have f: "unat (fold_once r) \<le> 131070" by (simp add: unat_fold_once)
  show ?thesis
  proof (cases "unat (fold_once r) < 65536")
    case True
    then show ?thesis by (simp add: unat_fold_once [of "fold_once r"])
  next
    case False
    then have "unat (fold_once r) div 65536 = 1" "unat (fold_once r) mod 65536 = unat (fold_once r) - 65536"
      using f by (simp_all add: div_nat_eqI mod_if)
    then show ?thesis using f by (simp add: unat_fold_once [of "fold_once r"])
  qed
qed

lemma unat_not16: "unat (NOT (w :: 16 word)) = 65535 - unat w"
proof -
  have "NOT w = -1 - w" by (simp add: not_eq_complement)
  also have "unat \<dots> = unat (-1 :: 16 word) - unat w" by (rule unat_sub) simp
  finally show ?thesis by (simp add: unsigned_minus_1_eq_mask mask_eq_exp_minus_1)
qed

lemma complement_fold:
  fixes r :: "32 word"
  shows "unat (ucast (NOT (fold_once (fold_once r))) :: 16 word) = 65535 - unat (fold_once (fold_once r))"
proof -
  let ?f = "fold_once (fold_once r)"
  have b: "unat ?f < 2 ^ 16" using fold_twice_bound [of r] by simp
  have "unat (ucast (NOT ?f) :: 16 word) = unat (NOT (ucast ?f :: 16 word))"
    by (rule arg_cong [of _ _ unat], rule bit_word_eqI) (auto simp: bit_simps)
  also have "\<dots> = 65535 - unat (ucast ?f :: 16 word)"
    by (rule unat_not16)
  also have "unat (ucast ?f :: 16 word) = unat ?f"
    using b by (simp add: unsigned_ucast_eq take_bit_nat_eq_self)
  finally show ?thesis .
qed

lemma checksum_complements:
  fixes r :: "32 word"
  assumes "c = (ucast (NOT (fold_once (fold_once r))) :: 16 word)"
  shows "(unat r + unat c) mod 65535 = 0"
proof -
  let ?f = "fold_once (fold_once r)"
  have "(unat r + unat c) mod 65535 = (unat ?f + unat c) mod 65535"
    by (metis fold_once_mod mod_add_left_eq)
  also have "unat ?f + unat c = 65535"
    using fold_twice_bound [of r] by (simp add: assms complement_fold)
  finally show ?thesis by simp
qed

section \<open>Sums of halfwords\<close>

lemma sum_ucast: "sum_list (map ucast (hs :: 16 word list)) = (of_nat (sum_list (map unat hs)) :: 32 word)"
  by (induction hs) (simp_all add: unsigned_ucast_eq)

lemma sum_halfwords_bound: "sum_list (map unat (hs :: 16 word list)) \<le> 65535 * length hs"
proof (induction hs)
  case (Cons h hs)
  have "unat h < 2 ^ LENGTH(16)" by (rule unsigned_less)
  with Cons show ?case by simp
qed simp

lemma unat_sum_ucast:
  assumes "length hs \<le> 65536"
  shows "unat (sum_list (map ucast (hs :: 16 word list)) :: 32 word) = sum_list (map unat hs)"
proof -
  have "sum_list (map unat hs) \<le> 65535 * 65536"
    using sum_halfwords_bound [of hs] assms by (meson le_trans mult_le_mono2)
  then show ?thesis by (simp add: sum_ucast unsigned_of_nat take_bit_nat_eq_self)
qed

lemma fold_ucast: "fold (\<lambda>i s. s + ucast (f i :: 16 word)) is a = a + (sum_list (map ucast (map f is)) :: 32 word)"
  by (induction "is" arbitrary: a) (simp_all add: add.assoc)

lemma length_acc [simp]: "length (acc i v xs) = length xs"
  by (simp add: acc_def)

lemma sum_acc: "i < length xs \<Longrightarrow> sum_list (acc i v xs) = sum_list xs + ucast v"
  unfolding acc_def
proof (induction xs arbitrary: i)
  case (Cons x xs)
  then show ?case by (cases i) (simp_all add: algebra_simps)
qed simp

definition halfwords :: "nat \<Rightarrow> 'a::len word \<Rightarrow> 16 word list" where
  "halfwords n d = map (halfword d) [0..<n]"

lemma sum_checksum_word:
  assumes "length xs = num_splits"
  shows "sum_list (checksum_word w xs) = sum_list xs + sum_list (map ucast (halfwords 16 w))"
    and "length (checksum_word w xs) = num_splits"
proof -
  have "sum_list (fold (\<lambda>i. acc (i mod num_splits) (halfword w i)) is xs) =
      sum_list xs + sum_list (map ucast (map (halfword w) is)) \<and>
      length (fold (\<lambda>i. acc (i mod num_splits) (halfword w i)) is xs) = num_splits" for "is"
    using assms
    by (induction "is" arbitrary: xs) (simp_all add: sum_acc num_splits_def add.assoc)
  then show "sum_list (checksum_word w xs) = sum_list xs + sum_list (map ucast (halfwords 16 w))"
    "length (checksum_word w xs) = num_splits"
    by (simp_all add: checksum_word_def halfwords_def)
qed

lemma sum_ip:
  "sum_list (ic_ip (ipv4_checksum h c)) =
     sum_list (map ucast (halfwords 10 (ip_header_to_int (h\<lparr>ih_check := 0\<rparr>))))"
proof -
  have "[0..<10] = [0..<5] @ [5..<10 :: nat]" "[0..<2] = [0, 1 :: nat]"
    by (simp_all add: upt_conv_Cons)
  then show ?thesis
    by (simp add: ipv4_checksum_def ip_splits_def fold_ucast Let_def halfwords_def)
qed

text \<open>The ten halfwords of a header, with the checksum field as one of them.\<close>

lemma set_check:
  "ip_header_to_int (h\<lparr>ih_check := c\<rparr>) = ap_set_range 79 64 c (ip_header_to_int h)"
proof -
  have "ip_header_from_int (ap_set_range 79 64 c d) = (ip_header_from_int d)\<lparr>ih_check := c\<rparr>" for d
    by (simp add: ip_header_from_int_def ap_set_range_other ap_set_range_ap_range)
  then show ?thesis by (metis ih.from_to ih.to_from)
qed

lemma halfword_set: "halfword (ap_set_range 79 64 (c :: 16 word) (d :: 160 word)) i = (if i = 4 then c else halfword d i)"
proof (cases "i = 4")
  case False
  then have "16 * i + 15 < 64 \<or> 79 < 16 * i" by arith
  with False show ?thesis by (simp add: halfword_def ap_set_range_other)
qed (simp add: halfword_def ap_set_range_ap_range)

lemma sum_with_check:
  "sum_list (map unat (halfwords 10 (ip_header_to_int (h\<lparr>ih_check := c\<rparr>)))) =
     sum_list (map unat (halfwords 10 (ip_header_to_int (h\<lparr>ih_check := 0\<rparr>)))) + unat c"
  by (simp add: set_check halfwords_def halfword_set upt_conv_Cons)

lemma length_halfwords [simp]: "length (halfwords n d) = n"
  by (simp add: halfwords_def)

text \<open>The halfwords that the UDP checksum adds up, for a header and the masked data words.\<close>

definition pseudo_halfwords :: "header_parser \<Rightarrow> 16 word list" where
  "pseudo_halfwords h =
     halfwords 2 (ih_saddr (hp_ip h)) @ halfwords 2 (ih_daddr (hp_ip h)) @
     [word_cat (ih_protocol (hp_ip h)) (0 :: 8 word), uh_length (hp_udp h), uh_source (hp_udp h),
      uh_dest (hp_udp h), uh_length (hp_udp h)]"

definition udp_intermediate :: "header_parser \<Rightarrow> axi_data list \<Rightarrow> intermediate_checksum \<Rightarrow> intermediate_checksum" where
  "udp_intermediate h ws c =
     fold (\<lambda>w c. c\<lparr>ic_udp := checksum_word (mask_last_word w) (ic_udp c)\<rparr>) ws
       (udp_pseudoheader_checksum h c)"

lemma sum_pseudo:
  "sum_list (ic_udp (udp_pseudoheader_checksum h c)) = sum_list (map ucast (pseudo_halfwords h))"
  "length (ic_udp (udp_pseudoheader_checksum h c)) = num_splits"
  by (simp_all add: udp_pseudoheader_checksum_def sum_acc num_splits_def pseudo_halfwords_def
      halfwords_def halfword_def upt_conv_Cons ac_simps sum_list_replicate)

lemma sum_udp:
  "sum_list (ic_udp (udp_intermediate h ws c)) =
     sum_list (map ucast (pseudo_halfwords h @ concat (map (\<lambda>w. halfwords 16 (mask_last_word w)) ws)))"
proof -
  have "length (ic_udp d) = num_splits \<Longrightarrow>
      sum_list (ic_udp (fold (\<lambda>w c. c\<lparr>ic_udp := checksum_word (mask_last_word w) (ic_udp c)\<rparr>) ws d)) =
      sum_list (ic_udp d) + sum_list (map ucast (concat (map (\<lambda>w. halfwords 16 (mask_last_word w)) ws)))" for d
    by (induction ws arbitrary: d) (simp_all add: sum_checksum_word add.assoc)
  from this [OF sum_pseudo(2)] show ?thesis by (simp add: udp_intermediate_def sum_pseudo(1))
qed

section \<open>Properties\<close>

text \<open>
  C38: The IPv4 checksum is right: when the value that the unit computes for a header is put into
  the header's checksum field, the ten halfwords of the header add up to zero in ones' complement
  arithmetic (modulo 65535), which is what a receiver verifies.
\<close>

theorem ip_checksum_correct:
  "sum_list (map unat (halfwords 10 (ip_header_to_int
     (h\<lparr>ih_check := cs_ip (finish_value (ipv4_checksum h c))\<rparr>)))) mod 65535 = 0"
  unfolding sum_with_check [where c = "cs_ip (finish_value (ipv4_checksum h c))"]
  using checksum_complements [of "cs_ip (finish_value (ipv4_checksum h c))" "sum_list (ic_ip (ipv4_checksum h c))"]
  by (simp add: finish_value_def sum_ip unat_sum_ucast)

text \<open>
  C40: The UDP checksum complements what the unit adds up, for packets of up to 65000 data halfwords
  so that the 32 bit accumulators do not wrap: the pseudo header as the unit adds it (with the protocol in the
  upper byte of its word), the UDP header fields, the masked data words and the result add up to zero in ones'
  complement arithmetic.
\<close>

theorem udp_checksum_correct:
  assumes "length ws \<le> 4062"
  shows "(sum_list (map unat (pseudo_halfwords h @ concat (map (\<lambda>w. halfwords 16 (mask_last_word w)) ws))) +
     unat (cs_udp (finish_value (udp_intermediate h ws c)))) mod 65535 = 0"
proof -
  let ?hs = "pseudo_halfwords h @ concat (map (\<lambda>w. halfwords 16 (mask_last_word w)) ws)"
  have "length (concat (map (\<lambda>w. halfwords 16 (mask_last_word w)) ws)) = 16 * length ws"
    by (induction ws) simp_all
  then have "length ?hs \<le> 65536" using assms by (simp add: pseudo_halfwords_def)
  then have "unat (sum_list (ic_udp (udp_intermediate h ws c))) = sum_list (map unat ?hs)"
    unfolding sum_udp by (rule unat_sum_ucast)
  then show ?thesis
    using checksum_complements [of "cs_udp (finish_value (udp_intermediate h ws c))"
        "sum_list (ic_udp (udp_intermediate h ws c))"]
    by (simp only: finish_value_def checksum_t.select_convs)
qed

lemma udp_checksum_correct_witness:
  "(sum_list (map unat (pseudo_halfwords (header_parser_of_buffer (demo_hdr 40)) @
        concat (map (\<lambda>w. halfwords 16 (mask_last_word w)) [demo_word 7 True]))) +
     unat (cs_udp (finish_value (udp_intermediate (header_parser_of_buffer (demo_hdr 40)) [demo_word 7 True]
       \<lparr>ic_ip = [], ic_udp = []\<rparr>)))) mod 65535 = 0"
  by (rule udp_checksum_correct) simp

end
