(* ===== verification/Udp.thy ===== *)
theory Udp
  imports Checksum
begin

text \<open>
  The \<open>udp\<close> class of \<open>src/nica/hls/udp.cpp\<close>, which composes the receive path (split, steering, length
  adjustment, crossbar), with its crossbar that hands each packet to the ikernel engine of its flow.

  The ports of the engines are a list, one record of streams per engine; the source generates
  \<open>NUM_IKERNELS\<close> numbered arguments. A decision for an engine that does not exist leaves the header
  variable of the source uninitialised; \<open>junk\<close> stands for its value.
\<close>

record xbar_port =
  xp_hdr :: "header_buffer hls_stream"
  xp_ft :: "flow_table_result hls_stream"
  xp_data :: data_stream

record crossbar =
  xb_state :: idle_stream
  current_steering_decision :: flow_table_result

definition engine :: "flow_table_result \<Rightarrow> nat" where
  "engine r = unat (ft_engine_id (fr_v r))"

type_synonym xbar_sys =
  "crossbar \<times> header_buffer hls_stream \<times> data_stream \<times> flow_table_result hls_stream \<times> xbar_port list"

definition crossbar_step :: "header_buffer \<Rightarrow> xbar_sys \<Rightarrow> xbar_sys" where
  "crossbar_step junk s = (case s of (st, hdr_in, data_in, steer_results, ports) \<Rightarrow>
     (case xb_state st of
        IDLE \<Rightarrow>
          if s_empty steer_results \<or> s_empty hdr_in \<or>
             list_ex (\<lambda>p. s_full (xp_hdr p) \<or> s_full (xp_ft p)) ports then s
          else
            (let (d, steer_results') = s_read steer_results;
                 e = engine d;
                 (buf, hdr_in', ports') =
                   (if e < length ports then
                      (let (buf, hdr_in') = s_read hdr_in
                       in (buf, hdr_in',
                           ports[e := (ports ! e)\<lparr>xp_hdr := s_write buf (xp_hdr (ports ! e)),
                                                 xp_ft := s_write d (xp_ft (ports ! e))\<rparr>]))
                    else (junk, hdr_in, ports))
             in (\<lparr>xb_state = (if hdr_empty_packet buf then IDLE else STREAMING),
                  current_steering_decision = d\<rparr>,
                 hdr_in', data_in, steer_results', ports'))
      | STREAMING \<Rightarrow>
          (let e = engine (current_steering_decision st)
           in if e < length ports then
                (if s_empty data_in \<or> s_full (xp_data (ports ! e)) then s
                 else (let (w, data_in') = s_read data_in
                       in (st\<lparr>xb_state := (if ad_last w then IDLE else STREAMING)\<rparr>,
                           hdr_in, data_in', steer_results,
                           ports[e := (ports ! e)\<lparr>xp_data := s_write w (xp_data (ports ! e))\<rparr>])))
              else s)))"

section \<open>udp\<close>

record ('h, 'e) udp =
  u_enum :: 'e
  u_enum_out :: "(int \<times> axi4s) hls_stream"
  u_out_metadata :: "mlx_metadata hls_stream"
  u_out_data :: data_stream
  u_hds :: header_data_split
  u_steer :: "'h steering"
  length_adjuster :: length_adjust
  u_xbar :: crossbar
  data_split_to_steer :: data_stream
  data_steer_to_length :: data_stream
  data_length_to_crossbar :: data_stream
  header_split_to_steer :: "header_buffer hls_stream"
  header_steer_to_dup :: "header_buffer hls_stream"
  header_dup_to_length :: "header_buffer hls_stream"
  header_dup_to_crossbar :: "header_buffer hls_stream"
  steer_results :: "flow_table_result hls_stream"

text \<open>
  What the receive path uses of \<open>ntl\<close>: the enumerator of the beats of a packet (its step and the
  link from its output), the mask function and the hash table.
\<close>

record ('h, 'e) ntl_rx_ops =
  ntl_enum_step :: "'e \<Rightarrow> mlx_stream \<Rightarrow> 'e \<times> mlx_stream"
  ntl_enum_link :: "'e \<Rightarrow> (int \<times> axi4s) hls_stream \<Rightarrow> 'e \<times> (int \<times> axi4s) hls_stream"
  ntl_keep_bytes :: "nat \<Rightarrow> 32 word"
  ntl_hash_table :: "'h hash_table_ops"

definition hds_step :: "('h, 'e) ntl_rx_ops \<Rightarrow> ('h, 'e) udp \<Rightarrow> mlx_stream \<Rightarrow> ('h, 'e) udp \<times> mlx_stream" where
  "hds_step ops u inp =
     (let (en1, inp') = ntl_enum_step ops (u_enum u) inp;
          (en2, eo, om, od) = extract_metadata_mlx_metadata (ntl_enum_link ops) en1 (u_enum_out u)
                                 (u_out_metadata u) (u_out_data u);
          (h, om', od', hs, ds) = split (ntl_keep_bytes ops)
                                   (u_hds u, om, od, header_split_to_steer u, data_split_to_steer u)
      in (u\<lparr>u_enum := en2, u_enum_out := eo, u_out_metadata := om', u_out_data := od', u_hds := h,
           header_split_to_steer := hs, data_split_to_steer := ds\<rparr>, inp'))"

definition udp_step ::
  "('h, 'e) ntl_rx_ops \<Rightarrow> header_buffer \<Rightarrow> bool \<Rightarrow> gw_cmd \<Rightarrow> ('h, 'e) udp \<Rightarrow> mlx_stream \<Rightarrow>
   xbar_port list \<Rightarrow> bool hls_stream \<Rightarrow> hds_stats \<Rightarrow>
   ('h, 'e) udp \<times> mlx_stream \<times> xbar_port list \<times> bool hls_stream \<times> hds_stats" where
  "udp_step ops junk enable cmd u inp ports bool_pass_raw stats =
     (let (u1, inp') = hds_step ops u inp;
          (sst, hs, ds, raw', ho, dn, res, stats') =
            steer (ntl_hash_table ops) enable cmd (u_steer u1) (header_split_to_steer u1)
              (data_split_to_steer u1) bool_pass_raw (header_steer_to_dup u1) (data_steer_to_length u1)
              (steer_results u1) stats;
          (ho', dl, dx) = dup2 ho (header_dup_to_length u1) (header_dup_to_crossbar u1);
          (la, dl', dn', dlx) = adjust (length_adjuster u1) dl dn (data_length_to_crossbar u1);
          (xb, dx', dlx', res', ports') = crossbar_step junk (u_xbar u1, dx, dlx, res, ports)
      in (u1\<lparr>u_steer := sst, header_split_to_steer := hs, data_split_to_steer := ds,
             header_steer_to_dup := ho', data_steer_to_length := dn', steer_results := res',
             header_dup_to_length := dl', header_dup_to_crossbar := dx', length_adjuster := la,
             data_length_to_crossbar := dlx', u_xbar := xb\<rparr>,
          inp', ports', raw', stats'))"

section \<open>What the crossbar puts out\<close>

datatype xbar_event = XHeader header_buffer flow_table_result | XData axi_data

function xbar_run ::
  "nat \<Rightarrow> header_buffer \<Rightarrow> flow_table_result option \<Rightarrow> flow_table_result list \<Rightarrow> header_buffer list \<Rightarrow>
   axi_data list \<Rightarrow> (nat \<times> xbar_event) list" where
  "xbar_run n junk None (d # ds) (h # hs) ws =
     (if engine d < n
      then (engine d, XHeader h d) # xbar_run n junk (if hdr_empty_packet h then None else Some d) ds hs ws
      else xbar_run n junk (if hdr_empty_packet junk then None else Some d) ds (h # hs) ws)"
| "xbar_run n junk None [] hs ws = []"
| "xbar_run n junk None (d # ds) [] ws = []"
| "xbar_run n junk (Some d) ds hs [] = []"
| "xbar_run n junk (Some d) ds hs (w # ws) =
     (if engine d < n
      then (engine d, XData w) # xbar_run n junk (if ad_last w then None else Some d) ds hs ws
      else [])"
  by pat_completeness auto
termination
  by (relation "measure (\<lambda>(n, junk, m, ds, hs, ws). length ds + length ws)") auto

fun ev_headers :: "nat \<Rightarrow> (nat \<times> xbar_event) list \<Rightarrow> header_buffer list" where
  "ev_headers k [] = []"
| "ev_headers k ((e, XHeader h d) # es) = (if e = k then h # ev_headers k es else ev_headers k es)"
| "ev_headers k ((e, XData w) # es) = ev_headers k es"

fun ev_data :: "nat \<Rightarrow> (nat \<times> xbar_event) list \<Rightarrow> axi_data list" where
  "ev_data k [] = []"
| "ev_data k ((e, XHeader h d) # es) = ev_data k es"
| "ev_data k ((e, XData w) # es) = (if e = k then w # ev_data k es else ev_data k es)"

definition xbar_owed :: "header_buffer \<Rightarrow> xbar_sys \<Rightarrow> (nat \<times> xbar_event) list" where
  "xbar_owed junk s = (case s of (st, hin, din, res, ports) \<Rightarrow>
     xbar_run (length ports) junk
       (case xb_state st of IDLE \<Rightarrow> None | STREAMING \<Rightarrow> Some (current_steering_decision st))
       (que res) (que hin) (que din))"

definition xbar_hdrs :: "nat \<Rightarrow> xbar_sys \<Rightarrow> header_buffer list" where
  "xbar_hdrs k s = (case s of (st, hin, din, res, ports) \<Rightarrow> que (xp_hdr (ports ! k)))"

definition xbar_data :: "nat \<Rightarrow> xbar_sys \<Rightarrow> axi_data list" where
  "xbar_data k s = (case s of (st, hin, din, res, ports) \<Rightarrow> que (xp_data (ports ! k)))"

definition xbar_work :: "xbar_sys \<Rightarrow> nat" where
  "xbar_work s = (case s of (st, hin, din, res, ports) \<Rightarrow> length (que res) + length (que din))"

definition xbar_ready :: "xbar_sys \<Rightarrow> bool" where
  "xbar_ready s = (case s of (st, hin, din, res, ports) \<Rightarrow>
     \<forall>p \<in> set ports. depth (xp_hdr p) = None \<and> depth (xp_ft p) = None \<and> depth (xp_data p) = None)"

lemmas xbar_defs = crossbar_step_def xbar_owed_def xbar_hdrs_def xbar_data_def xbar_work_def

lemma xbar_conserve:
  "xbar_hdrs k (crossbar_step junk s) @ ev_headers k (xbar_owed junk (crossbar_step junk s)) =
     xbar_hdrs k s @ ev_headers k (xbar_owed junk s)"
  "xbar_data k (crossbar_step junk s) @ ev_data k (xbar_owed junk (crossbar_step junk s)) =
     xbar_data k s @ ev_data k (xbar_owed junk s)"
proof -
  obtain st hin din res ports where s: "s = (st, hin, din, res, ports)" by (cases s)
  have "xbar_hdrs k (crossbar_step junk s) @ ev_headers k (xbar_owed junk (crossbar_step junk s)) =
      xbar_hdrs k s @ ev_headers k (xbar_owed junk s) \<and>
    xbar_data k (crossbar_step junk s) @ ev_data k (xbar_owed junk (crossbar_step junk s)) =
      xbar_data k s @ ev_data k (xbar_owed junk s)"
  proof (cases "xb_state st")
    case IDLE
    then show ?thesis unfolding s by (cases "que res"; cases "que hin")
        (auto simp: xbar_defs stream_defs Let_def nth_list_update)
  next
    case STREAMING
    then show ?thesis unfolding s by (cases "que din")
        (auto simp: xbar_defs stream_defs Let_def nth_list_update)
  qed
  then show "xbar_hdrs k (crossbar_step junk s) @ ev_headers k (xbar_owed junk (crossbar_step junk s)) =
      xbar_hdrs k s @ ev_headers k (xbar_owed junk s)"
    "xbar_data k (crossbar_step junk s) @ ev_data k (xbar_owed junk (crossbar_step junk s)) =
      xbar_data k s @ ev_data k (xbar_owed junk s)"
    by blast+
qed

lemma xbar_not_full:
  "xbar_ready (st, hin, din, res, ports) \<Longrightarrow>
   \<not> list_ex (\<lambda>p. s_full (xp_hdr p) \<or> s_full (xp_ft p)) ports \<and>
   (e < length ports \<longrightarrow> \<not> s_full (xp_data (ports ! e)))"
  by (auto simp: xbar_ready_def list_ex_iff)

lemma xbar_ready_update:
  assumes "xbar_ready (st, hin, din, res, ports)"
    and "depth (xp_hdr p) = None" "depth (xp_ft p) = None" "depth (xp_data p) = None"
  shows "xbar_ready (st', hin', din', res', ports[e := p])"
  using assms set_update_subset_insert [of ports e p] by (auto simp: xbar_ready_def)

lemma xbar_ready_step:
  assumes "xbar_ready s"
  shows "xbar_ready (crossbar_step junk s)"
proof -
  obtain st hin din res ports where s: "s = (st, hin, din, res, ports)" by (cases s)
  have p: "e < length ports \<Longrightarrow> depth (xp_hdr (ports ! e)) = None \<and> depth (xp_ft (ports ! e)) = None \<and>
      depth (xp_data (ports ! e)) = None" for e
    using assms by (auto simp: s xbar_ready_def)
  have other: "xbar_ready (st', hin', din', res', ports)" for st' hin' din' res'
    using assms by (simp add: s xbar_ready_def)
  show ?thesis
  proof (cases "xb_state st")
    case IDLE
    then show ?thesis using assms other p [of "engine (hd (que res))"] xbar_ready_update [OF assms [unfolded s]]
      by (auto simp: s crossbar_step_def Let_def s_read_def)
  next
    case STREAMING
    then show ?thesis using assms p [of "engine (current_steering_decision st)"]
        xbar_ready_update [OF assms [unfolded s]]
      by (auto simp: s crossbar_step_def Let_def s_read_def)
  qed
qed

lemma xbar_progress:
  assumes "xbar_ready s" "xbar_owed junk s \<noteq> []"
  shows "xbar_work (crossbar_step junk s) < xbar_work s"
proof -
  obtain st hin din res ports where s: "s = (st, hin, din, res, ports)" by (cases s)
  note nf = xbar_not_full [OF assms(1) [unfolded s], of "engine (current_steering_decision st)"]
  show ?thesis
  proof (cases "xb_state st")
    case IDLE
    then show ?thesis using assms nf unfolding s by (cases "que res"; cases "que hin")
        (auto simp: xbar_defs stream_defs Let_def split: prod.splits)
  next
    case STREAMING
    then show ?thesis using assms nf unfolding s by (cases "que din")
        (auto simp: xbar_defs stream_defs Let_def split: if_splits)
  qed
qed

interpretation xbar: stage2 "crossbar_step junk" "xbar_hdrs k" "xbar_data k"
    "\<lambda>s. (ev_headers k (xbar_owed junk s), ev_data k (xbar_owed junk s))" xbar_work xbar_ready
proof unfold_locales
  fix s
  show "xbar_work (crossbar_step junk s) < xbar_work s"
    if "xbar_ready s" "(ev_headers k (xbar_owed junk s), ev_data k (xbar_owed junk s)) \<noteq> ([], [])"
    using that by (intro xbar_progress [of s junk]) auto
qed (simp_all add: xbar_conserve xbar_ready_step)

section \<open>Packets\<close>

type_synonym steered_packet = "flow_table_result \<times> header_buffer \<times> axi_data list"

definition steered_framed :: "nat \<Rightarrow> steered_packet \<Rightarrow> bool" where
  "steered_framed n j = (case j of (d, h, ws) \<Rightarrow>
     engine d < n \<and> (if hdr_empty_packet h then ws = [] else is_packet ad_last ws))"

lemma xbar_run_stream:
  assumes "is_packet ad_last p" "engine d < n"
  shows "xbar_run n junk (Some d) ds hs (p @ ws) =
    map (\<lambda>w. (engine d, XData w)) p @ xbar_run n junk None ds hs ws"
  using assms by (induction p) (auto simp: is_packet_Cons split: if_splits)

lemma ev_append [simp]:
  "ev_headers k (xs @ ys) = ev_headers k xs @ ev_headers k ys"
  "ev_data k (xs @ ys) = ev_data k xs @ ev_data k ys"
  by (induction k xs rule: ev_headers.induct) auto

lemma ev_words [simp]:
  "ev_headers k (map (\<lambda>w. (e, XData w)) p) = []"
  "ev_data k (map (\<lambda>w. (e, XData w)) p) = (if e = k then p else [])"
  by (induction p) auto

lemma xbar_run_packets:
  assumes "list_all (steered_framed n) js"
  shows "ev_headers k (xbar_run n junk None (map fst js) (map (fst \<circ> snd) js) (concat (map (snd \<circ> snd) js))) =
      map (fst \<circ> snd) (filter (\<lambda>j. engine (fst j) = k) js) \<and>
    ev_data k (xbar_run n junk None (map fst js) (map (fst \<circ> snd) js) (concat (map (snd \<circ> snd) js))) =
      concat (map (snd \<circ> snd) (filter (\<lambda>j. engine (fst j) = k) js))"
  using assms
proof (induction js)
  case Nil
  then show ?case by simp
next
  case (Cons j js)
  obtain d h ws where j: "j = (d, h, ws)" by (cases j)
  have "steered_framed n j" using Cons.prems by simp
  with Cons show ?case by (auto simp: j steered_framed_def xbar_run_stream)
qed

section \<open>Properties\<close>

text \<open>
  C14: The crossbar delivers each packet to the engine of its flow and to no other. On the decisions,
  headers and data of a sequence of packets, with engine ports that accept words, it reaches within a bounded number
  of clocks a state in which engine \<open>k\<close> has received exactly the headers and the data words of the
  packets whose decision names \<open>k\<close>, in order.
\<close>

theorem crossbar_delivers:
  assumes "list_all (steered_framed (length ports)) js"
    and "que res = map fst js" "que hin = map (fst \<circ> snd) js" "que din = concat (map (snd \<circ> snd) js)"
    and "xb_state st = IDLE" "xbar_ready (st, hin, din, res, ports)"
  shows "\<exists>n \<le> length js + length (concat (map (snd \<circ> snd) js)).
    xbar_hdrs k ((crossbar_step junk ^^ n) (st, hin, din, res, ports)) =
      que (xp_hdr (ports ! k)) @ map (fst \<circ> snd) (filter (\<lambda>j. engine (fst j) = k) js) \<and>
    xbar_data k ((crossbar_step junk ^^ n) (st, hin, din, res, ports)) =
      que (xp_data (ports ! k)) @ concat (map (snd \<circ> snd) (filter (\<lambda>j. engine (fst j) = k) js))"
  using xbar.drains2 [OF assms(6), of k junk] xbar_run_packets [OF assms(1), of k junk] assms(2-5)
  by (auto simp: xbar_work_def xbar_owed_def xbar_hdrs_def xbar_data_def)

definition demo_result :: "1 word \<Rightarrow> flow_table_result" where
  "demo_result e = \<lparr>fr_v = \<lparr>ft_action = FT_IKERNEL, ft_engine_id = e, ft_ikernel_id = 0\<rparr>, fr_flow_id = 1\<rparr>"

definition demo_port :: xbar_port where
  "demo_port = \<lparr>xp_hdr = s_new None, xp_ft = s_new None, xp_data = s_new None\<rparr>"

lemma crossbar_delivers_witness:
  "\<exists>n. xbar_hdrs 1 ((crossbar_step (demo_hdr 0) ^^ n)
      (\<lparr>xb_state = IDLE, current_steering_decision = demo_result 0\<rparr>,
       \<lparr>depth = None, que = [demo_hdr 40, demo_hdr 20]\<rparr>,
       \<lparr>depth = None, que = [demo_word 1 True, demo_word 2 False, demo_word 3 True]\<rparr>,
       \<lparr>depth = None, que = [demo_result 0, demo_result 1]\<rparr>, [demo_port, demo_port])) = [demo_hdr 20]"
  using crossbar_delivers [of "[demo_port, demo_port]"
      "[(demo_result 0, demo_hdr 40, [demo_word 1 True]),
        (demo_result 1, demo_hdr 20, [demo_word 2 False, demo_word 3 True])]"
      "\<lparr>depth = None, que = [demo_result 0, demo_result 1]\<rparr>"
      "\<lparr>depth = None, que = [demo_hdr 40, demo_hdr 20]\<rparr>"
      "\<lparr>depth = None, que = [demo_word 1 True, demo_word 2 False, demo_word 3 True]\<rparr>"
      "\<lparr>xb_state = IDLE, current_steering_decision = demo_result 0\<rparr>" 1 "demo_hdr 0"]
  by (auto simp: steered_framed_def is_packet_Cons engine_def demo_result_def demo_port_def demo_word_def
      xbar_ready_def s_new_def)

end
