(* ===== verification/Udp_Builder.thy ===== *)
theory Udp_Builder
  imports Udp
begin

text \<open>
  The transmit path of \<open>src/nica/hls/udp.cpp\<close>: \<open>header_to_mlx\<close> turns the metadata of a packet into the
  two words of its headers, \<open>udp_builder\<close> merges them with the payload, and \<open>ethernet_padding\<close> pads short
  packets. The merger (\<open>ntl::push_header\<close>) is a parameter of the builder, \<open>kb\<close> stands for
  \<open>ntl::axi_data::keep_bytes\<close>.
\<close>

definition metadata_to_header :: "metadata \<Rightarrow> header_parser" where
  "metadata_to_header m =
     (let hdr = header_parser_from_int 0;
          pkt = get_packet_metadata m
      in hdr\<lparr>hp_eth := (hp_eth hdr)\<lparr>eh_dest := eth_dst pkt, eh_source := eth_src pkt, eh_proto := ETH_P_IP\<rparr>,
            hp_ip := (hp_ip hdr)\<lparr>ih_version := 4, ih_ihl := 160 div 8 div 4,
                      ih_tot_len := (64 + 160) div 8 + len m, ih_id := ip_identification m, ih_ttl := 64,
                      ih_protocol := IPPROTO_UDP, ih_daddr := ip_dst pkt, ih_saddr := ip_src pkt\<rparr>,
            hp_udp := (hp_udp hdr)\<lparr>uh_dest := udp_dst pkt, uh_source := udp_src pkt,
                      uh_length := 64 div 8 + len m\<rparr>\<rparr>)"

datatype h2m_phase = H2M_IDLE | SECOND

record header_to_mlx =
  h2m_state :: h2m_phase
  h2m_buffer :: "80 word"

definition first_word :: "336 word \<Rightarrow> axi_data" where
  "first_word hdr = \<lparr>ad_data = ap_range (336 - 1) (336 - 256) hdr, ad_keep = 0xffffffff, ad_last = False\<rparr>"

definition second_word :: "(nat \<Rightarrow> 32 word) \<Rightarrow> 80 word \<Rightarrow> axi_data" where
  "second_word kb buffer = \<lparr>ad_data = word_cat buffer (0 :: 176 word), ad_keep = kb (80 div 8), ad_last = True\<rparr>"

type_synonym h2m_sys =
  "header_to_mlx \<times> metadata hls_stream \<times> data_stream \<times> bool hls_stream \<times> mlx_metadata hls_stream \<times> bool hls_stream"

definition hdr_to_mlx :: "(nat \<Rightarrow> 32 word) \<Rightarrow> h2m_sys \<Rightarrow> h2m_sys" where
  "hdr_to_mlx kb s = (case s of (st, inp, outp, empty_packet_s, metadata_out, enable_stream) \<Rightarrow>
     (case h2m_state st of
        H2M_IDLE \<Rightarrow>
          if s_empty inp \<or> s_full outp \<or> s_full empty_packet_s \<or> s_full metadata_out \<or> s_full enable_stream
          then s
          else
            (let (m, inp') = s_read inp;
                 hdr = metadata_to_header m;
                 buf = hb_hdr (header_buffer_of_parser hdr);
                 is_udp = (pkt_type m = PKT_TYPE_UDP)
             in (\<lparr>h2m_state = (if is_udp then SECOND else H2M_IDLE), h2m_buffer = ap_range (80 - 1) 0 buf\<rparr>,
                 inp',
                 if is_udp then s_write (first_word buf) outp else outp,
                 s_write (is_udp \<and> udp_empty_packet (hp_udp hdr)) empty_packet_s,
                 s_write \<lparr>mm_user = 0, mm_id = 0\<rparr> metadata_out,
                 s_write is_udp enable_stream))
      | SECOND \<Rightarrow>
          (st\<lparr>h2m_state := H2M_IDLE\<rparr>, inp, s_write (second_word kb (h2m_buffer st)) outp,
           empty_packet_s, metadata_out, enable_stream)))"

record 'm udp_builder =
  ub_raw_reorder_to_reg :: mlx_stream
  ub_mlx_metadata :: "mlx_metadata hls_stream"
  ub_data_hdr_to_reorder :: data_stream
  ub_data_reorder_to_join :: data_stream
  ub_empty_packet :: "bool hls_stream"
  ub_enable_stream :: "bool hls_stream"
  ub_hdr2mlx :: header_to_mlx
  ub_merger :: 'm
  ub_join :: join_packet_metadata
  ub_link :: "axi4s link_reg"

type_synonym 'm reorder_op =
  "'m \<Rightarrow> data_stream \<Rightarrow> bool hls_stream \<Rightarrow> bool hls_stream \<Rightarrow> data_stream \<Rightarrow> data_stream \<Rightarrow>
   'm \<times> data_stream \<times> bool hls_stream \<times> bool hls_stream \<times> data_stream \<times> data_stream"

definition builder_step ::
  "(nat \<Rightarrow> 32 word) \<Rightarrow> 'm reorder_op \<Rightarrow> 'm udp_builder \<Rightarrow> metadata hls_stream \<Rightarrow> data_stream \<Rightarrow> mlx_stream \<Rightarrow>
   'm udp_builder \<times> metadata hls_stream \<times> data_stream \<times> mlx_stream" where
  "builder_step kb reorder b header_in data_in outp =
     (let (h, header_in', d1, e1, mm, en) =
            hdr_to_mlx kb (ub_hdr2mlx b, header_in, ub_data_hdr_to_reorder b, ub_empty_packet b,
                           ub_mlx_metadata b, ub_enable_stream b);
          (mg, d2, e2, en2, data_in', d3) =
            reorder (ub_merger b) d1 e1 en data_in (ub_data_reorder_to_join b);
          (j, mm', d4, raw) = join_packet_metadata_step (ub_join b) mm d3 (ub_raw_reorder_to_reg b);
          (lk, raw', outp') = link_with_reg False (ub_link b) raw outp
      in (\<lparr>ub_raw_reorder_to_reg = raw', ub_mlx_metadata = mm', ub_data_hdr_to_reorder = d2,
           ub_data_reorder_to_join = d4, ub_empty_packet = e2, ub_enable_stream = en2, ub_hdr2mlx = h,
           ub_merger = mg, ub_join = j, ub_link = lk\<rparr>, header_in', data_in', outp'))"

section \<open>Ethernet padding\<close>

definition pad_one :: "256 word \<Rightarrow> 32 word \<Rightarrow> 256 word" where
  "pad_one d keep =
     fold (\<lambda>i d. ap_set_range (8 * i + 7) (8 * i)
              (if bit keep i then ap_range (8 * i + 7) (8 * i) d else 0 :: 8 word) d) [0..<32] d"

definition pad_beat :: "6 word \<Rightarrow> axi4s \<Rightarrow> axi4s" where
  "pad_beat beat_count beat =
     (if mx_last beat \<and> beat_count = 1
      then beat\<lparr>mx_data := pad_one (mx_data beat) (mx_keep beat), mx_keep := mx_keep beat OR 0xfffffff0\<rparr>
      else beat)"

definition ethernet_padding_pad ::
  "6 word \<Rightarrow> mlx_stream \<Rightarrow> mlx_stream \<Rightarrow> 6 word \<times> mlx_stream \<times> mlx_stream" where
  "ethernet_padding_pad beat_count inp outp =
     (if s_empty inp \<or> s_full outp then (beat_count, inp, outp)
      else (let (beat, inp') = s_read inp;
                beat' = pad_beat beat_count beat
            in (if mx_last beat' then 0 else beat_count + 1, inp', s_write beat' outp)))"

section \<open>Facts\<close>

definition header_words :: "(nat \<Rightarrow> 32 word) \<Rightarrow> metadata \<Rightarrow> axi_data list" where
  "header_words kb m =
     (let hdr = header_parser_to_int (metadata_to_header m)
      in if pkt_type m = PKT_TYPE_UDP then [first_word hdr, second_word kb (ap_range 79 0 hdr)] else [])"

definition h2m_out :: "h2m_sys \<Rightarrow> axi_data list" where
  "h2m_out s = (case s of (st, inp, outp, ep, mo, es) \<Rightarrow> que outp)"

definition h2m_pend :: "(nat \<Rightarrow> 32 word) \<Rightarrow> h2m_sys \<Rightarrow> axi_data list" where
  "h2m_pend kb s = (case s of (st, inp, outp, ep, mo, es) \<Rightarrow>
     (case h2m_state st of H2M_IDLE \<Rightarrow> [] | SECOND \<Rightarrow> [second_word kb (h2m_buffer st)]) @
     concat (map (header_words kb) (que inp)))"

definition h2m_work :: "h2m_sys \<Rightarrow> nat" where
  "h2m_work s = (case s of (st, inp, outp, ep, mo, es) \<Rightarrow>
     2 * length (que inp) + of_bool (h2m_state st = SECOND))"

definition h2m_ready :: "h2m_sys \<Rightarrow> bool" where
  "h2m_ready s = (case s of (st, inp, outp, ep, mo, es) \<Rightarrow>
     depth outp = None \<and> depth ep = None \<and> depth mo = None \<and> depth es = None)"

lemmas h2m_defs = hdr_to_mlx_def h2m_out_def h2m_pend_def h2m_work_def h2m_ready_def header_words_def
  header_buffer_of_parser_def

interpretation h2m: stage "hdr_to_mlx kb" h2m_out "h2m_pend kb" h2m_work h2m_ready
proof unfold_locales
  fix s :: h2m_sys
  obtain st inp outp ep mo es where s: "s = (st, inp, outp, ep, mo, es)" by (cases s)
  show "h2m_out (hdr_to_mlx kb s) @ h2m_pend kb (hdr_to_mlx kb s) = h2m_out s @ h2m_pend kb s"
    unfolding s by (cases "h2m_state st"; cases "que inp") (simp_all add: h2m_defs stream_defs Let_def)
  show "h2m_ready (hdr_to_mlx kb s)" if "h2m_ready s"
    using that unfolding s by (cases "h2m_state st") (simp_all add: h2m_defs stream_defs Let_def)
  show "h2m_work (hdr_to_mlx kb s) < h2m_work s" if "h2m_ready s" "h2m_pend kb s \<noteq> []"
    using that unfolding s
    by (cases "h2m_state st"; cases "que inp") (simp_all add: h2m_defs stream_defs Let_def)
qed

lemma bit_pad_prefix:
  assumes "k \<le> 32"
  shows "bit (fold (\<lambda>i d. ap_set_range (8 * i + 7) (8 * i)
      (if bit keep i then ap_range (8 * i + 7) (8 * i) d else 0 :: 8 word) d) [0..<k] (d :: 256 word)) n \<longleftrightarrow>
    bit d n \<and> (n < 8 * k \<longrightarrow> bit (keep :: 32 word) (n div 8))"
  using assms
proof (induction k)
  case 0
  then show ?case by simp
next
  case (Suc k)
  show ?case
  proof (cases "8 * k \<le> n \<and> n \<le> 8 * k + 7")
    case True
    then have "n div 8 = k" "n < 256" using Suc.prems by (auto simp: div_nat_eqI)
    with True Suc show ?thesis by (auto simp: bit_ap_set_range bit_ap_range)
  next
    case False
    then have "n < 8 * Suc k \<longleftrightarrow> n < 8 * k" by auto
    with False Suc show ?thesis by (auto simp: bit_ap_set_range)
  qed
qed

lemma bit_pad_one: "bit (pad_one d keep) n \<longleftrightarrow> bit d n \<and> bit keep (n div 8)"
proof -
  have "bit d n \<Longrightarrow> n < 8 * 32" using bit_imp_le_length [of d n] by simp
  then show ?thesis using bit_pad_prefix [of 32 keep d n] by (auto simp: pad_one_def)
qed

lemma bit_pad_mask: "bit (0xfffffff0 :: 32 word) i \<longleftrightarrow> 4 \<le> i \<and> i < 32"
proof -
  have "(0xfffffff0 :: 32 word) = push_bit 4 (mask 28)"
    by (simp add: mask_eq_exp_minus_1 push_bit_eq_mult)
  then have "bit (0xfffffff0 :: 32 word) i = bit (push_bit 4 (mask 28) :: 32 word) i" by (simp only:)
  then show ?thesis by (simp only: bit_push_bit_iff bit_mask_iff) auto
qed

lemma unat_plus_len:
  assumes "unat (l :: 16 word) + k < 65536"
  shows "unat (of_nat k + l) = k + unat l"
proof -
  have k: "unat (of_nat k :: 16 word) = k"
    using assms by (simp add: unsigned_of_nat take_bit_nat_eq_self)
  then show ?thesis using assms by (subst unat_add_lem [THEN iffD1]) simp_all
qed

lemma header_length_fields:
  "ih_tot_len (hp_ip (metadata_to_header m)) = of_nat 28 + len m"
  "uh_length (hp_udp (metadata_to_header m)) = of_nat 8 + len m"
proof -
  have "(64 + 160) div 8 = (28 :: 16 word)" "64 div 8 = (8 :: 16 word)" by code_simp+
  then show "ih_tot_len (hp_ip (metadata_to_header m)) = of_nat 28 + len m"
    "uh_length (hp_udp (metadata_to_header m)) = of_nat 8 + len m"
    by (simp_all add: metadata_to_header_def Let_def)
qed

section \<open>Properties\<close>


definition demo_metadata :: metadata where
  "demo_metadata = \<lparr>pkt_type = 0, flow_id = 3, ikernel_id = 1,
     var = either_left \<lparr>eth_dst = 1, eth_src = 2, ip_dst = 0x0a000001, ip_src = 0x0a000002, udp_dst = 53, udp_src = 999\<rparr>,
     ring_id = 0, ip_identification = 7, len = 100\<rparr>"


text \<open>
  C39: The transmit state machine puts out exactly the header words of the UDP packets: with outputs
  that accept words, it reaches within a bounded number of clocks a state in which, after what was
  there, each UDP packet has contributed its two header words, in order, and other packets nothing.
\<close>

theorem hdr_to_mlx_drains:
  assumes "h2m_state st = H2M_IDLE" "h2m_ready (st, inp, outp, ep, mo, es)"
  shows "\<exists>n \<le> 2 * length (que inp).
    h2m_out ((hdr_to_mlx kb ^^ n) (st, inp, outp, ep, mo, es)) =
      que outp @ concat (map (header_words kb) (que inp))"
  using h2m.drains [OF assms(2), of kb] assms(1) by (auto simp: h2m_work_def h2m_pend_def h2m_out_def)

lemma hdr_to_mlx_drains_witness:
  "\<exists>n \<le> 2. h2m_out ((hdr_to_mlx (\<lambda>n. mask n) ^^ n)
      (\<lparr>h2m_state = H2M_IDLE, h2m_buffer = 0\<rparr>, \<lparr>depth = None, que = [demo_metadata]\<rparr>,
       s_new None, s_new None, s_new None, s_new None)) = header_words (\<lambda>n. mask n) demo_metadata"
  using hdr_to_mlx_drains [of "\<lparr>h2m_state = H2M_IDLE, h2m_buffer = 0\<rparr>"
      "\<lparr>depth = None, que = [demo_metadata]\<rparr>" "s_new None" "s_new None" "s_new None" "s_new None" "\<lambda>n. mask n"]
  by (simp add: h2m_ready_def s_new_def)

text \<open>
  The two header words of a UDP packet are its 42 header bytes followed by zeros, and they are
  framed as a packet of their own.
\<close>

lemma header_words_bits:
  assumes "pkt_type m = PKT_TYPE_UDP"
  shows "concat (map (msb_bits \<circ> ad_data) (header_words kb m)) =
      msb_bits (header_parser_to_int (metadata_to_header m)) @ replicate 176 False \<and>
    is_packet ad_last (header_words kb m)"
proof -
  let ?h = "header_parser_to_int (metadata_to_header m)"
  have "msb_bits (word_cat (ap_range 335 80 ?h :: 256 word) (ap_range 79 0 ?h :: 80 word) :: 336 word) =
      msb_bits (ap_range 335 80 ?h :: 256 word) @ msb_bits (ap_range 79 0 ?h :: 80 word)"
    by (rule msb_bits_cat) simp
  then have "msb_bits ?h = msb_bits (ap_range 335 80 ?h :: 256 word) @ msb_bits (ap_range 79 0 ?h :: 80 word)"
    by (simp add: ap_range_join ap_range_whole)
  moreover have "msb_bits (word_cat b (0 :: 176 word) :: 256 word) = msb_bits b @ msb_bits (0 :: 176 word)" for b :: "80 word"
    by (rule msb_bits_cat) simp
  ultimately show ?thesis
    using assms by (simp add: header_words_def Let_def first_word_def second_word_def msb_bits_zero is_packet_Cons)
qed

text \<open>
  Padding is exact: of a two-beat packet the second beat gets at least 28 valid bytes (60 bytes
  with the first beat), the bytes that were valid keep their value, and every byte that was not
  valid is zero.
\<close>

lemma ethernet_padding_pads:
  assumes "mx_last beat"
  shows "(\<forall>i. 4 \<le> i \<and> i < 32 \<longrightarrow> bit (mx_keep (pad_beat 1 beat)) i) \<and>
    (\<forall>i. bit (mx_keep beat) i \<longrightarrow> bit (mx_keep (pad_beat 1 beat)) i) \<and>
    (\<forall>n. bit (mx_data (pad_beat 1 beat)) n \<longleftrightarrow> bit (mx_data beat) n \<and> bit (mx_keep beat) (n div 8))"
  using assms bit_pad_mask by (simp add: pad_beat_def bit_or_iff bit_pad_one) blast

end
