(* ===== verification/Demux.thy ===== *)
theory Demux
  imports Udp_Builder
begin

text \<open>
  The demultiplexor of \<open>src/nica/hls/demux.hpp\<close>, which sorts the output of the ikernels into the queues
  of the traffic classes (\<open>tc-ports.hpp\<close>). Port numbers are natural numbers: \<open>index_t\<close> of the source is
  wide enough for the ports, which the source asserts.
\<close>

record tc_port =
  tp_meta :: "metadata hls_stream"
  tp_data :: data_stream

definition num_ports :: nat where "num_ports = NUM_TC - 1"

definition tc_link_fifo :: "tc_port list \<Rightarrow> tc_port list \<Rightarrow> tc_port list \<times> tc_port list" where
  "tc_link_fifo ins outs =
     (let ms = map2 (\<lambda>i t. link_fifo (tp_meta i) (tp_meta t)) ins outs;
          ds = map2 (\<lambda>i t. link_fifo (tp_data i) (tp_data t)) ins outs
      in (map2 (\<lambda>(m, _) (d, _). \<lparr>tp_meta = m, tp_data = d\<rparr>) ms ds,
          map2 (\<lambda>(_, m) (_, d). \<lparr>tp_meta = m, tp_data = d\<rparr>) ms ds))"

definition tc_link_axi_to_fifo :: "tc_port list \<Rightarrow> tc_port list \<Rightarrow> tc_port list \<times> tc_port list" where
  "tc_link_axi_to_fifo ins outs =
     (let ms = map2 (\<lambda>i t. link_axi_to_fifo (tp_meta i) (tp_meta t)) ins outs;
          ds = map2 (\<lambda>i t. link_axi_to_fifo (tp_data i) (tp_data t)) ins outs
      in (map2 (\<lambda>(m, _) (d, _). \<lparr>tp_meta = m, tp_data = d\<rparr>) ms ds,
          map2 (\<lambda>(_, m) (_, d). \<lparr>tp_meta = m, tp_data = d\<rparr>) ms ds))"

datatype demux_meta_phase = DM_META_IDLE | WRITE_METADATA

record demultiplexor =
  dx_meta_state :: demux_meta_phase
  dx_meta_port :: nat
  meta_to_select_port :: "metadata hls_stream"
  meta_to_output :: "metadata hls_stream"
  empty_stream :: "bool hls_stream"
  selected_ports :: "nat hls_stream"
  port_to_meta_output :: "nat hls_stream"
  port_to_data_output :: "nat hls_stream"
  dx_state :: idle_stream
  dx_data_port :: nat

definition select_port :: "metadata \<Rightarrow> nat" where
  "select_port m =
     (let ik_id = unat (ikernel_id m AND of_nat (NUM_TC - 1))
      in if ik_id \<ge> num_ports then ik_id - num_ports else ik_id)"

definition port_selector :: "demultiplexor \<Rightarrow> demultiplexor" where
  "port_selector s =
     (if s_full (selected_ports s) \<or> s_full (empty_stream s) then s
      else case s_read_nb (meta_to_select_port s) of
        None \<Rightarrow> s
      | Some (m, i') \<Rightarrow>
          s\<lparr>meta_to_select_port := i',
            selected_ports := s_write_nb (select_port m) (selected_ports s),
            empty_stream := s_write_nb (empty_packet m) (empty_stream s)\<rparr>)"

definition demux_meta :: "demultiplexor \<Rightarrow> tc_port list \<Rightarrow> demultiplexor \<times> tc_port list" where
  "demux_meta s tc =
     (case dx_meta_state s of
        DM_META_IDLE \<Rightarrow>
          (case s_read_nb (port_to_meta_output s) of
             None \<Rightarrow> (s, tc)
           | Some (p, i') \<Rightarrow>
               (s\<lparr>port_to_meta_output := i', dx_meta_port := p, dx_meta_state := WRITE_METADATA\<rparr>, tc))
      | WRITE_METADATA \<Rightarrow>
          if s_empty (meta_to_output s) then (s, tc)
          else (let p = dx_meta_port s
                in if p < num_ports \<and> s_full (tp_meta (tc ! p)) then (s, tc)
                   else (let (m, i') = s_read (meta_to_output s)
                         in (s\<lparr>meta_to_output := i', dx_meta_state := DM_META_IDLE\<rparr>,
                             if p < num_ports
                             then tc[p := (tc ! p)\<lparr>tp_meta := s_write_nb m (tp_meta (tc ! p))\<rparr>] else tc))))"

definition demux_data :: "demultiplexor \<Rightarrow> data_stream \<Rightarrow> tc_port list \<Rightarrow> demultiplexor \<times> data_stream \<times> tc_port list" where
  "demux_data s data_in tc =
     (case dx_state s of
        IDLE \<Rightarrow>
          if s_empty (empty_stream s) \<or> s_empty (port_to_data_output s) then (s, data_in, tc)
          else (let (p, po') = s_read (port_to_data_output s);
                    (e, es') = s_read (empty_stream s)
                in (s\<lparr>port_to_data_output := po', empty_stream := es', dx_data_port := p,
                      dx_state := (if e then IDLE else STREAMING)\<rparr>, data_in, tc))
      | STREAMING \<Rightarrow>
          if s_empty data_in then (s, data_in, tc)
          else (let p = dx_data_port s
                in if p < num_ports \<and> s_full (tp_data (tc ! p)) then (s, data_in, tc)
                   else (let (w, data_in') = s_read data_in
                         in (s\<lparr>dx_state := (if ad_last w then IDLE else STREAMING)\<rparr>, data_in',
                             if p < num_ports
                             then tc[p := (tc ! p)\<lparr>tp_data := s_write_nb w (tp_data (tc ! p))\<rparr>] else tc))))"

type_synonym demux_sys = "demultiplexor \<times> metadata hls_stream \<times> data_stream \<times> tc_port list"

definition demux :: "demux_sys \<Rightarrow> demux_sys" where
  "demux sys = (case sys of (s, metadata_in, data_in, tc) \<Rightarrow>
     (let (mi', ms, mo) = dup metadata_in (meta_to_select_port s) (meta_to_output s);
          s1 = port_selector (s\<lparr>meta_to_select_port := ms, meta_to_output := mo\<rparr>);
          (sp, pm, pd) = dup (selected_ports s1) (port_to_meta_output s1) (port_to_data_output s1);
          (s2, tc1) = demux_meta (s1\<lparr>selected_ports := sp, port_to_meta_output := pm, port_to_data_output := pd\<rparr>) tc;
          (s3, data_in', tc2) = demux_data s2 data_in tc1
      in (s3, mi', data_in', tc2)))"

section \<open>What the demultiplexor owes\<close>

text \<open>
  The chosen ports and the metadata wait in different queues. Read from the exit backwards they are
  two sequences, of ports and of metadata, whose elements meet again in \<open>demux_meta\<close>.
\<close>

definition dx_later :: "demultiplexor \<Rightarrow> metadata hls_stream \<Rightarrow> metadata list" where
  "dx_later s mi = que (meta_to_select_port s) @ que mi"

definition dx_meta_ports :: "demultiplexor \<Rightarrow> metadata hls_stream \<Rightarrow> nat list" where
  "dx_meta_ports s mi =
     (if dx_meta_state s = WRITE_METADATA then [dx_meta_port s] else []) @
     que (port_to_meta_output s) @ que (selected_ports s) @ map select_port (dx_later s mi)"

definition dx_data_ports :: "demultiplexor \<Rightarrow> metadata hls_stream \<Rightarrow> nat list" where
  "dx_data_ports s mi =
     que (port_to_data_output s) @ que (selected_ports s) @ map select_port (dx_later s mi)"

definition dx_empties :: "demultiplexor \<Rightarrow> metadata hls_stream \<Rightarrow> bool list" where
  "dx_empties s mi = que (empty_stream s) @ map empty_packet (dx_later s mi)"

definition to_port :: "nat \<Rightarrow> (nat \<times> 'a) list \<Rightarrow> 'a list" where
  "to_port k xs = map snd (filter (\<lambda>x. fst x = k) xs)"

definition demux_meta_owed :: "nat \<Rightarrow> demux_sys \<Rightarrow> metadata list" where
  "demux_meta_owed k sys = (case sys of (s, mi, di, tc) \<Rightarrow>
     to_port k (zip (dx_meta_ports s mi) (que (meta_to_output s) @ que mi)))"

function demux_run :: "nat option \<Rightarrow> (nat \<times> bool) list \<Rightarrow> axi_data list \<Rightarrow> (nat \<times> axi_data) list" where
  "demux_run None [] ws = []"
| "demux_run None ((p, e) # ps) ws = demux_run (if e then None else Some p) ps ws"
| "demux_run (Some p) ps [] = []"
| "demux_run (Some p) ps (w # ws) = (p, w) # demux_run (if ad_last w then None else Some p) ps ws"
  by pat_completeness auto
termination
  by (relation "measure (\<lambda>(m, ps, ws). length ps + length ws)") auto

definition demux_data_owed :: "nat \<Rightarrow> demux_sys \<Rightarrow> axi_data list" where
  "demux_data_owed k sys = (case sys of (s, mi, di, tc) \<Rightarrow>
     to_port k (demux_run (case dx_state s of IDLE \<Rightarrow> None | STREAMING \<Rightarrow> Some (dx_data_port s))
       (zip (dx_data_ports s mi) (dx_empties s mi)) (que di)))"

definition port_meta :: "nat \<Rightarrow> demux_sys \<Rightarrow> metadata list" where
  "port_meta k sys = (case sys of (s, mi, di, tc) \<Rightarrow> que (tp_meta (tc ! k)))"

definition port_data :: "nat \<Rightarrow> demux_sys \<Rightarrow> axi_data list" where
  "port_data k sys = (case sys of (s, mi, di, tc) \<Rightarrow> que (tp_data (tc ! k)))"

lemma select_port_traffic_class: "select_port m = traffic_class (ikernel_id m)"
proof -
  have "ikernel_id m AND 7 \<le> 7" by (rule word_and_le1)
  then have "unat (ikernel_id m AND 7) \<le> 7" by (simp add: word_le_nat_alt)
  then show ?thesis by (auto simp: select_port_def traffic_class_def num_ports_def NUM_TC_def Let_def)
qed

text \<open>The five processes of \<open>demux\<close>, as steps of the whole.\<close>

definition dx_dup_meta :: "demux_sys \<Rightarrow> demux_sys" where
  "dx_dup_meta sys = (case sys of (s, mi, di, tc) \<Rightarrow>
     (let (mi', ms, mo) = dup mi (meta_to_select_port s) (meta_to_output s)
      in (s\<lparr>meta_to_select_port := ms, meta_to_output := mo\<rparr>, mi', di, tc)))"

definition dx_select :: "demux_sys \<Rightarrow> demux_sys" where
  "dx_select sys = (case sys of (s, mi, di, tc) \<Rightarrow> (port_selector s, mi, di, tc))"

definition dx_dup_ports :: "demux_sys \<Rightarrow> demux_sys" where
  "dx_dup_ports sys = (case sys of (s, mi, di, tc) \<Rightarrow>
     (let (sp, pm, pd) = dup (selected_ports s) (port_to_meta_output s) (port_to_data_output s)
      in (s\<lparr>selected_ports := sp, port_to_meta_output := pm, port_to_data_output := pd\<rparr>, mi, di, tc)))"

definition dx_meta :: "demux_sys \<Rightarrow> demux_sys" where
  "dx_meta sys = (case sys of (s, mi, di, tc) \<Rightarrow> (let (s', tc') = demux_meta s tc in (s', mi, di, tc')))"

definition dx_data :: "demux_sys \<Rightarrow> demux_sys" where
  "dx_data sys = (case sys of (s, mi, di, tc) \<Rightarrow>
     (let (s', di', tc') = demux_data s di tc in (s', mi, di', tc')))"

lemma demux_eq: "demux sys = dx_data (dx_meta (dx_dup_ports (dx_select (dx_dup_meta sys))))"
  by (cases sys) (simp add: demux_def dx_data_def dx_meta_def dx_dup_ports_def dx_select_def
      dx_dup_meta_def Let_def split: prod.splits)

definition dx_inv :: "nat \<Rightarrow> demux_sys \<Rightarrow> bool" where
  "dx_inv k sys = (case sys of (s, mi, di, tc) \<Rightarrow> k < num_ports \<and> num_ports \<le> length tc)"

text \<open>One measure of both outputs, so that each process is looked at once.\<close>

definition dx_total :: "nat \<Rightarrow> demux_sys \<Rightarrow> metadata list \<times> axi_data list" where
  "dx_total k sys = (port_meta k sys @ demux_meta_owed k sys, port_data k sys @ demux_data_owed k sys)"

lemmas dx_owed_defs = dx_total_def port_meta_def port_data_def demux_meta_owed_def demux_data_owed_def
  dx_meta_ports_def dx_data_ports_def dx_empties_def dx_later_def

lemma to_port_simps [simp]:
  "to_port k [] = []" "to_port k (x # xs) = (if fst x = k then snd x # to_port k xs else to_port k xs)"
  by (simp_all add: to_port_def)

lemma dx_dup_meta_total: "dx_total k (dx_dup_meta sys) = dx_total k sys"
proof -
  obtain s mi di tc where sys: "sys = (s, mi, di, tc)" by (cases sys)
  show ?thesis unfolding sys
    by (cases "que mi"; cases "dx_state s") (simp_all add: dx_dup_meta_def dup_def dx_owed_defs stream_defs)
qed

lemma dx_select_total: "dx_total k (dx_select sys) = dx_total k sys"
proof -
  obtain s mi di tc where sys: "sys = (s, mi, di, tc)" by (cases sys)
  show ?thesis unfolding sys
    by (cases "que (meta_to_select_port s)"; cases "dx_state s")
      (simp_all add: dx_select_def port_selector_def dx_owed_defs stream_defs)
qed

lemma dx_dup_ports_total: "dx_total k (dx_dup_ports sys) = dx_total k sys"
proof -
  obtain s mi di tc where sys: "sys = (s, mi, di, tc)" by (cases sys)
  show ?thesis unfolding sys
    by (cases "que (selected_ports s)"; cases "dx_state s") (simp_all add: dx_dup_ports_def dup_def dx_owed_defs stream_defs)
qed

lemma dx_meta_total: "dx_inv k sys \<Longrightarrow> dx_total k (dx_meta sys) = dx_total k sys"
proof -
  assume inv: "dx_inv k sys"
  obtain s mi di tc where sys: "sys = (s, mi, di, tc)" by (cases sys)
  show ?thesis
  proof (cases "dx_meta_state s")
    case DM_META_IDLE
    then show ?thesis unfolding sys
      by (cases "que (port_to_meta_output s)"; cases "dx_state s")
        (simp_all add: dx_meta_def demux_meta_def dx_owed_defs stream_defs)
  next
    case WRITE_METADATA
    then show ?thesis using inv unfolding sys
      by (cases "que (meta_to_output s)"; cases "dx_state s")
        (auto simp: dx_meta_def demux_meta_def dx_owed_defs dx_inv_def stream_defs nth_list_update Let_def)
  qed
qed

lemma dx_data_total: "dx_inv k sys \<Longrightarrow> dx_total k (dx_data sys) = dx_total k sys"
proof -
  assume inv: "dx_inv k sys"
  obtain s mi di tc where sys: "sys = (s, mi, di, tc)" by (cases sys)
  show ?thesis
  proof (cases "dx_state s")
    case IDLE
    then show ?thesis unfolding sys
      by (cases "que (port_to_data_output s)"; cases "que (empty_stream s)")
        (simp_all add: dx_data_def demux_data_def dx_owed_defs stream_defs)
  next
    case STREAMING
    then show ?thesis using inv unfolding sys
      by (cases "que di")
        (auto simp: dx_data_def demux_data_def dx_owed_defs dx_inv_def stream_defs nth_list_update Let_def)
  qed
qed

lemma dx_inv_steps:
  "dx_inv k (dx_dup_meta sys) = dx_inv k sys" "dx_inv k (dx_select sys) = dx_inv k sys"
  "dx_inv k (dx_dup_ports sys) = dx_inv k sys" "dx_inv k (dx_meta sys) = dx_inv k sys"
  "dx_inv k (dx_data sys) = dx_inv k sys"
  by (cases sys; simp add: dx_inv_def dx_dup_meta_def dx_select_def dx_dup_ports_def dx_meta_def dx_data_def
      demux_meta_def demux_data_def Let_def
      split: prod.splits demux_meta_phase.splits idle_stream.splits option.splits; auto)+

lemma demux_total: "dx_inv k sys \<Longrightarrow> dx_total k (demux sys) = dx_total k sys"
  by (simp add: demux_eq dx_data_total dx_meta_total dx_dup_ports_total dx_select_total
      dx_dup_meta_total dx_inv_steps)

lemma demux_inv: "dx_inv k (demux sys) = dx_inv k sys"
  by (simp add: demux_eq dx_inv_steps)

interpretation dxm: conserving_on demux "port_meta k" "demux_meta_owed k" "dx_inv k"
  by unfold_locales (use demux_total in \<open>auto simp: demux_inv dx_total_def\<close>)

interpretation dxd: conserving_on demux "port_data k" "demux_data_owed k" "dx_inv k"
  by unfold_locales (use demux_total in \<open>auto simp: demux_inv dx_total_def\<close>)

section \<open>Packets\<close>

type_synonym ik_packet = "metadata \<times> axi_data list"

definition ik_framed :: "ik_packet \<Rightarrow> bool" where
  "ik_framed j = (if empty_packet (fst j) then snd j = [] else is_packet ad_last (snd j))"

definition dx_fresh :: "demultiplexor \<Rightarrow> bool" where
  "dx_fresh s \<longleftrightarrow> dx_meta_state s = DM_META_IDLE \<and> dx_state s = IDLE \<and>
     que (meta_to_select_port s) = [] \<and> que (meta_to_output s) = [] \<and> que (empty_stream s) = [] \<and>
     que (selected_ports s) = [] \<and> que (port_to_meta_output s) = [] \<and> que (port_to_data_output s) = []"

lemma to_port_append [simp]: "to_port k (xs @ ys) = to_port k xs @ to_port k ys"
  by (simp add: to_port_def)

lemma to_port_map [simp]: "to_port k (map (Pair p) ws) = (if p = k then ws else [])"
  by (induction ws) auto

lemma demux_run_packet:
  "is_packet ad_last w \<Longrightarrow> demux_run (Some p) ps (w @ ws) = map (Pair p) w @ demux_run None ps ws"
  by (induction w) (auto simp: is_packet_Cons split: if_splits)

lemma demux_run_packets:
  assumes "list_all ik_framed js"
  shows "to_port k (demux_run None (zip (map (select_port \<circ> fst) js) (map (empty_packet \<circ> fst) js))
      (concat (map snd js))) =
    concat (map snd (filter (\<lambda>j. select_port (fst j) = k) js))"
  using assms
proof (induction js)
  case Nil
  then show ?case by simp
next
  case (Cons j js)
  then show ?case by (cases "empty_packet (fst j)") (auto simp: ik_framed_def demux_run_packet)
qed

lemma to_port_sorted:
  "to_port k (zip (map (f \<circ> fst) js) (map fst js)) = map fst (filter (\<lambda>j. f (fst j) = k) js)"
  by (induction js) simp_all

section \<open>Properties\<close>

text \<open>
  C17: The demultiplexor sorts packets by traffic class. Started empty on the metadata and data of a
  sequence of packets, after any number of clocks and under any back pressure of the class queues,
  the queue of class \<open>k\<close> has received a prefix of exactly the packets whose ikernel maps to class
  \<open>k\<close>, in order: the metadata and the data words it received, each followed by what is still on the
  way, are those of the packets of class \<open>k\<close>.
\<close>

theorem demux_sorts:
  assumes "list_all ik_framed js" "dx_fresh s" "que mi = map fst js" "que di = concat (map snd js)"
    and "k < num_ports" "num_ports \<le> length tc"
  shows "port_meta k ((demux ^^ n) (s, mi, di, tc)) @ demux_meta_owed k ((demux ^^ n) (s, mi, di, tc)) =
      que (tp_meta (tc ! k)) @ map fst (filter (\<lambda>j. select_port (fst j) = k) js) \<and>
    port_data k ((demux ^^ n) (s, mi, di, tc)) @ demux_data_owed k ((demux ^^ n) (s, mi, di, tc)) =
      que (tp_data (tc ! k)) @ concat (map snd (filter (\<lambda>j. select_port (fst j) = k) js))"
proof -
  let ?s = "(s, mi, di, tc)"
  have "dx_inv k ?s" using assms by (simp add: dx_inv_def)
  moreover have "demux_meta_owed k ?s = map fst (filter (\<lambda>j. select_port (fst j) = k) js)"
    using assms by (simp add: demux_meta_owed_def dx_meta_ports_def dx_later_def dx_fresh_def
        to_port_sorted)
  moreover have "demux_data_owed k ?s = concat (map snd (filter (\<lambda>j. select_port (fst j) = k) js))"
    using assms demux_run_packets [OF assms(1), of k]
    by (simp add: demux_data_owed_def dx_data_ports_def dx_empties_def dx_later_def dx_fresh_def comp_def)
  ultimately show ?thesis
    using dxm.conserve_on_run [of k ?s n] dxd.conserve_on_run [of k ?s n]
    by (simp add: port_meta_def port_data_def)
qed

definition demo_demux :: demultiplexor where
  "demo_demux = \<lparr>dx_meta_state = DM_META_IDLE, dx_meta_port = 0, meta_to_select_port = s_new (Some 1),
     meta_to_output = s_new (Some 2), empty_stream = s_new (Some 1), selected_ports = s_new (Some 1),
     port_to_meta_output = s_new (Some 1), port_to_data_output = s_new (Some 1), dx_state = IDLE, dx_data_port = 0\<rparr>"

lemma demux_sorts_witness:
  "port_meta 1 ((demux ^^ 7) (demo_demux, \<lparr>depth = None, que = [demo_metadata]\<rparr>,
      \<lparr>depth = None, que = [demo_word 5 True]\<rparr>, replicate 8 \<lparr>tp_meta = s_new (Some 3), tp_data = s_new (Some 3)\<rparr>)) @
   demux_meta_owed 1 ((demux ^^ 7) (demo_demux, \<lparr>depth = None, que = [demo_metadata]\<rparr>,
      \<lparr>depth = None, que = [demo_word 5 True]\<rparr>, replicate 8 \<lparr>tp_meta = s_new (Some 3), tp_data = s_new (Some 3)\<rparr>)) =
   [demo_metadata]"
proof -
  have "(1 :: 6 word) AND 7 = 1" by code_simp
  then have "select_port demo_metadata = 1"
    by (simp add: demo_metadata_def select_port_def num_ports_def NUM_TC_def)
  then show ?thesis
    using demux_sorts [of "[(demo_metadata, [demo_word 5 True])]" demo_demux
        "\<lparr>depth = None, que = [demo_metadata]\<rparr>" "\<lparr>depth = None, que = [demo_word 5 True]\<rparr>" 1
        "replicate 8 \<lparr>tp_meta = s_new (Some 3), tp_data = s_new (Some 3)\<rparr>" 7]
    by (simp add: ik_framed_def is_packet_Cons demo_word_def demo_demux_def dx_fresh_def s_new_def
        num_ports_def NUM_TC_def demo_metadata_def empty_packet_def)
qed

text \<open>
  The demultiplexor and the flow control agree on the traffic class: the class whose queue depth an
  ikernel tests with \<open>can_transmit\<close> is the class that its packets are sorted into, and it is never
  the last class, which is reserved for raw packets.
\<close>

lemma flow_control_class:
  "select_port m = traffic_class (ikernel_id m) \<and> select_port m < NUM_TC - 1"
  using traffic_class_less [of "ikernel_id m"] by (simp add: select_port_traffic_class)

end
