(* ===== verification/Arbiter.thy ===== *)
theory Arbiter
  imports Demux "HOL-Library.Multiset"
begin

text \<open>
  The arbiter of \<open>src/nica/hls/arbiter-impl.hpp\<close>: picks the traffic class to serve with a deficit round robin
  scheduler, sends metadata of that class until its quota is used up, and forwards the data words of the
  chosen packets.

  The scheduler and the macro \<open>ALIGN\<close> are code of \<open>ntl\<close>; the record \<open>sched_ops\<close> holds them as
  functions over an abstract scheduler state \<open>'s\<close>. The indices of the classes are 3 bit words, as in
  the source; lists indexed by them have \<open>NUM_TC\<close> elements (\<open>arb_wf\<close>).
\<close>

type_synonym index_t = "3 word"

record 's sched_ops =
  sch_update :: "'s \<Rightarrow> bool \<times> 's"
  sch_schedule :: "index_t \<Rightarrow> 's \<Rightarrow> 's"
  sch_next_flow :: "'s \<Rightarrow> (index_t \<times> 32 word) option \<times> 's"
  sch_update_flow :: "index_t \<Rightarrow> bool \<Rightarrow> 32 word \<Rightarrow> 's \<Rightarrow> 's"
  sch_rpc :: "32 word \<Rightarrow> 32 word \<Rightarrow> 32 word \<Rightarrow> bool \<Rightarrow> 's \<Rightarrow> gw_status \<times> 32 word \<times> 's"
  sch_ALIGN :: "16 word \<Rightarrow> nat \<Rightarrow> 32 word"

record arbiter_per_port_stats =
  ap_not_empty :: "64 word"
  ap_no_tokens :: "64 word"
  ap_cur_tokens :: "32 word"

record arbiter_tx_per_port_stats =
  tx_words :: "64 word"
  tx_packets :: "64 word"

record arbiter_stats =
  as_port :: "arbiter_per_port_stats list"
  as_tx_port :: "arbiter_tx_per_port_stats list"
  as_out_full :: "64 word"

definition arbiter_stats_init :: arbiter_stats where
  "arbiter_stats_init =
     \<lparr>as_port = replicate NUM_TC \<lparr>ap_not_empty = 0, ap_no_tokens = 0, ap_cur_tokens = 0\<rparr>,
      as_tx_port = replicate NUM_TC \<lparr>tx_words = 0, tx_packets = 0\<rparr>, as_out_full = 0\<rparr>"

definition ARBITER_NUM_TC :: "32 word" where "ARBITER_NUM_TC = 0x0"
definition ARBITER_SCHEDULER :: "32 word" where "ARBITER_SCHEDULER = 0x10"
definition TRACE_ARBITER_EVICTED :: nat where "TRACE_ARBITER_EVICTED = 3"

datatype arb_meta_phase = META_IDLE | NEW_PACKET
datatype arb_data_phase = DATA_IDLE | DATA_STREAM

record 's arbiter =
  peek_metadata :: "metadata option list"
  sched :: 's
  ab_meta_state :: arb_meta_phase
  meta_to_data :: "index_t hls_stream"
  ab_data_state :: arb_data_phase
  data_selected_port :: index_t
  tx_requests :: "index_t hls_stream"
  schedule_ports_last :: index_t
  interrupt_sent :: "8 word"
  meta_selected_port :: index_t
  scheduler_decision :: "(index_t \<times> 32 word) hls_stream"
  ab_stats :: arbiter_stats
  quota :: "32 word"

section \<open>Choosing a class\<close>

definition decode_gateway_address :: "32 word \<Rightarrow> (32 word \<times> 32 word) option" where
  "decode_gateway_address address =
     (if ARBITER_SCHEDULER \<le>s address
      then (let offset = address - ARBITER_SCHEDULER in Some (signed_drop_bit 1 offset, offset AND 1))
      else None)"

definition arb_reg_write ::
  "'s sched_ops \<Rightarrow> 32 word \<Rightarrow> 32 word \<Rightarrow> 's arbiter \<Rightarrow> gw_status \<times> 's arbiter" where
  "arb_reg_write ops address value s =
     (case decode_gateway_address address of
        Some (fl, cmd) \<Rightarrow>
          (let (st, _, sc) = sch_rpc ops cmd value fl False (sched s) in (st, s\<lparr>sched := sc\<rparr>))
      | None \<Rightarrow> (GW_DONE, s))"

definition arb_reg_read ::
  "'s sched_ops \<Rightarrow> 32 word \<Rightarrow> 32 word \<Rightarrow> 's arbiter \<Rightarrow> gw_status \<times> 32 word \<times> 's arbiter" where
  "arb_reg_read ops address value s =
     (case decode_gateway_address address of
        Some (fl, cmd) \<Rightarrow>
          (let (st, v, sc) = sch_rpc ops cmd value fl True (sched s) in (st, v, s\<lparr>sched := sc\<rparr>))
      | None \<Rightarrow>
          if address = ARBITER_NUM_TC then (GW_DONE, of_nat NUM_TC, s) else (GW_FAIL, -1, s))"

definition pick_next_packet ::
  "'s sched_ops \<Rightarrow> gw_cmd \<Rightarrow> 's arbiter \<Rightarrow> arbiter_stats \<Rightarrow> 's arbiter \<times> arbiter_stats" where
  "pick_next_packet ops cmd s0 o_stats =
     (let s1 = (case cmd of None \<Rightarrow> s0
                | Some (addr, data) \<Rightarrow>
                    snd (snd (gateway_callback (arb_reg_write ops) (arb_reg_read ops) addr data s0)));
          (upd, sc1) = sch_update ops (sched s1);
          s2 = s1\<lparr>sched := sc1\<rparr>
      in if upd then (s2, o_stats)
         else
           (let s3 = (if \<not> s_empty (tx_requests s2)
                      then (let (req, tr) = s_read (tx_requests s2)
                            in s2\<lparr>tx_requests := tr, sched := sch_schedule ops req (sched s2)\<rparr>)
                      else s2);
                o_stats' = o_stats\<lparr>as_port := as_port (ab_stats s3)\<rparr>
            in if s_full (scheduler_decision s3) then (s3, o_stats')
               else
                 (let (nf, sc2) = sch_next_flow ops (sched s3);
                      s4 = s3\<lparr>sched := sc2\<rparr>
                  in case nf of
                       None \<Rightarrow> (s4, o_stats')
                     | Some d \<Rightarrow> (s4\<lparr>scheduler_decision := s_write d (scheduler_decision s4)\<rparr>, o_stats'))))"

section \<open>Metadata\<close>

definition empty_metadata :: "index_t \<Rightarrow> 's arbiter \<Rightarrow> bool" where
  "empty_metadata port s \<longleftrightarrow> peek_metadata s ! unat port = None"

definition schedule_ports :: "'s arbiter \<Rightarrow> 's arbiter" where
  "schedule_ports s =
     (if s_full (tx_requests s) then s
      else (let l = schedule_ports_last s;
                s1 = (if \<not> empty_metadata l s \<and> \<not> bit (interrupt_sent s) (unat l)
                      then s\<lparr>tx_requests := s_write l (tx_requests s),
                             interrupt_sent := set_bit (unat l) (interrupt_sent s)\<rparr>
                      else s)
            in s1\<lparr>schedule_ports_last := (if unat (l + 1) = NUM_TC then 0 else l + 1)\<rparr>))"

definition update_peek_port :: "nat \<Rightarrow> 's arbiter \<times> tc_port list \<Rightarrow> 's arbiter \<times> tc_port list" where
  "update_peek_port port x = (case x of (s, tc) \<Rightarrow>
     (if \<not> s_empty (tp_meta (tc ! port)) \<and> peek_metadata s ! port = None
      then (let (m, i') = s_read (tp_meta (tc ! port))
            in (s\<lparr>peek_metadata := (peek_metadata s)[port := Some m]\<rparr>,
                tc[port := (tc ! port)\<lparr>tp_meta := i'\<rparr>]))
      else (s, tc)))"

definition update_peek :: "'s arbiter \<Rightarrow> tc_port list \<Rightarrow> 's arbiter \<times> tc_port list" where
  "update_peek s tc = fold update_peek_port [0..<NUM_TC] (s, tc)"

definition packet_flits :: "'s sched_ops \<Rightarrow> metadata \<Rightarrow> 32 word" where
  "packet_flits ops m = drop_bit 5 (sch_ALIGN ops (len m) 32)"

definition peek_stream_packet_length :: "'s sched_ops \<Rightarrow> index_t \<Rightarrow> 's arbiter \<Rightarrow> 32 word option" where
  "peek_stream_packet_length ops port s = map_option (packet_flits ops) (peek_metadata s ! unat port)"

definition read_metadata :: "index_t \<Rightarrow> 's arbiter \<Rightarrow> metadata \<times> 's arbiter" where
  "read_metadata port s =
     (the (peek_metadata s ! unat port), s\<lparr>peek_metadata := (peek_metadata s)[unat port := None]\<rparr>)"

definition tx_meta_fsm ::
  "'s sched_ops \<Rightarrow> 's arbiter \<Rightarrow> metadata hls_stream \<Rightarrow> bool list \<Rightarrow>
   's arbiter \<times> metadata hls_stream \<times> bool list" where
  "tx_meta_fsm ops s metadata_out events =
     (case ab_meta_state s of
        META_IDLE \<Rightarrow>
          if s_empty (scheduler_decision s) then (s, metadata_out, events)
          else (let ((p, q), sd') = s_read (scheduler_decision s)
                in (s\<lparr>scheduler_decision := sd', meta_selected_port := p, quota := q,
                      ab_meta_state := NEW_PACKET\<rparr>,
                    metadata_out, if unat p \<le> 2 then events[unat p := True] else events))
      | NEW_PACKET \<Rightarrow>
          if s_full metadata_out \<or> s_full (meta_to_data s) then (s, metadata_out, events)
          else (let port = meta_selected_port s;
                    plen = peek_stream_packet_length ops port s
                in case plen of
                     Some l \<Rightarrow>
                       if l \<le> quota s then
                         (let (m, s1) = read_metadata port (s\<lparr>quota := quota s - l\<rparr>);
                              s2 = (if \<not> empty_packet m
                                    then s1\<lparr>meta_to_data := s_write_nb port (meta_to_data s1)\<rparr> else s1)
                          in (s2, s_write_nb m metadata_out, events))
                       else
                         (s\<lparr>ab_meta_state := META_IDLE,
                            interrupt_sent := unset_bit (unat port) (interrupt_sent s),
                            sched := sch_update_flow ops port True (quota s) (sched s)\<rparr>,
                          metadata_out, events[TRACE_ARBITER_EVICTED := True])
                   | None \<Rightarrow>
                       (s\<lparr>ab_meta_state := META_IDLE,
                          interrupt_sent := unset_bit (unat port) (interrupt_sent s),
                          sched := sch_update_flow ops port False (quota s) (sched s)\<rparr>,
                        metadata_out, events[TRACE_ARBITER_EVICTED := True])))"

definition tx_meta ::
  "'s sched_ops \<Rightarrow> 's arbiter \<Rightarrow> tc_port list \<Rightarrow> metadata hls_stream \<Rightarrow>
   's arbiter \<times> tc_port list \<times> metadata hls_stream \<times> bool list" where
  "tx_meta ops s tc metadata_out =
     (let (s2, tc') = update_peek (schedule_ports s) tc;
          (s3, mo, events) = tx_meta_fsm ops s2 metadata_out (replicate 4 False)
      in (s3, tc', mo, events))"

section \<open>Data\<close>

definition tx_data ::
  "'s arbiter \<Rightarrow> tc_port list \<Rightarrow> arbiter_stats \<Rightarrow> data_stream \<Rightarrow>
   's arbiter \<times> tc_port list \<times> arbiter_stats \<times> data_stream" where
  "tx_data s tc o_stats outp =
     (let o_stats' = o_stats\<lparr>as_tx_port := as_tx_port (ab_stats s), as_out_full := as_out_full (ab_stats s)\<rparr>
      in case ab_data_state s of
           DATA_IDLE \<Rightarrow>
             (case s_read_nb (meta_to_data s) of
                None \<Rightarrow> (s, tc, o_stats', outp)
              | Some (p, md') \<Rightarrow>
                  (s\<lparr>meta_to_data := md', data_selected_port := p, ab_data_state := DATA_STREAM\<rparr>, tc, o_stats', outp))
         | DATA_STREAM \<Rightarrow>
             if s_full outp then (s, tc, o_stats', outp)
             else
               (let p = unat (data_selected_port s)
                in case s_read_nb (tp_data (tc ! p)) of
                     None \<Rightarrow> (s, tc, o_stats', outp)
                   | Some (w, i') \<Rightarrow>
                       (let t = as_tx_port (ab_stats s) ! p;
                            t' = t\<lparr>tx_words := tx_words t + 1,
                                   tx_packets := (if ad_last w then tx_packets t + 1 else tx_packets t)\<rparr>
                        in (s\<lparr>ab_stats := (ab_stats s)\<lparr>as_tx_port := (as_tx_port (ab_stats s))[p := t']\<rparr>,
                              ab_data_state := (if ad_last w then DATA_IDLE else DATA_STREAM)\<rparr>,
                            tc[p := (tc ! p)\<lparr>tp_data := i'\<rparr>], o_stats', s_write_nb w outp))))"

definition arbiter_step ::
  "'s sched_ops \<Rightarrow> gw_cmd \<Rightarrow> 's arbiter \<Rightarrow> tc_port list \<Rightarrow> metadata hls_stream \<Rightarrow> data_stream \<Rightarrow> arbiter_stats \<Rightarrow>
   's arbiter \<times> tc_port list \<times> metadata hls_stream \<times> data_stream \<times> arbiter_stats \<times> bool list" where
  "arbiter_step ops cmd s tc metadata_out outp o_stats =
     (let (s1, o1) = pick_next_packet ops cmd s o_stats;
          (s2, tc1, mo, events) = tx_meta ops s1 tc metadata_out;
          (s3, tc2, o2, outp') = tx_data s2 tc1 o1 outp
      in (s3, tc2, mo, outp', o2, events))"

section \<open>What the data process puts out\<close>

lemma sum_length_update:
  assumes "p < length qs" "qs ! p = w # ws"
  shows "sum_list (map length (qs[p := ws])) < sum_list (map length qs)"
  using assms by (induction qs arbitrary: p) (auto simp: less_Suc_eq_0_disj nth_Cons split: nat.splits)

function arb_run :: "nat option \<Rightarrow> nat list \<Rightarrow> axi_data list list \<Rightarrow> axi_data list" where
  "arb_run None [] qs = []"
| "arb_run None (p # ps) qs = arb_run (Some p) ps qs"
| "arb_run (Some p) ps qs =
     (if p < length qs then
        (case qs ! p of [] \<Rightarrow> []
         | w # ws \<Rightarrow> w # arb_run (if ad_last w then None else Some p) ps (qs[p := ws]))
      else [])"
  by pat_completeness auto
termination
  by (relation "measure (\<lambda>(m, ps, qs). length ps + sum_list (map length qs))") (auto simp: sum_length_update)

type_synonym 's txd_sys = "'s arbiter \<times> tc_port list \<times> arbiter_stats \<times> data_stream"

definition txd_step :: "'s txd_sys \<Rightarrow> 's txd_sys" where
  "txd_step x = (case x of (s, tc, o_stats, outp) \<Rightarrow> tx_data s tc o_stats outp)"

definition txd_out :: "'s txd_sys \<Rightarrow> axi_data list" where
  "txd_out x = (case x of (s, tc, o_stats, outp) \<Rightarrow> que outp)"

definition txd_queues :: "tc_port list \<Rightarrow> axi_data list list" where
  "txd_queues tc = map (que \<circ> tp_data) tc"

definition txd_owed :: "'s txd_sys \<Rightarrow> axi_data list" where
  "txd_owed x = (case x of (s, tc, o_stats, outp) \<Rightarrow>
     arb_run (case ab_data_state s of DATA_IDLE \<Rightarrow> None | DATA_STREAM \<Rightarrow> Some (unat (data_selected_port s)))
       (map unat (que (meta_to_data s))) (txd_queues tc))"

definition txd_work :: "'s txd_sys \<Rightarrow> nat" where
  "txd_work x = (case x of (s, tc, o_stats, outp) \<Rightarrow>
     length (que (meta_to_data s)) + sum_list (map length (txd_queues tc)))"

definition txd_inv :: "'s txd_sys \<Rightarrow> bool" where
  "txd_inv x = (case x of (s, tc, o_stats, outp) \<Rightarrow> length tc = NUM_TC)"

definition txd_ready :: "'s txd_sys \<Rightarrow> bool" where
  "txd_ready x = (case x of (s, tc, o_stats, outp) \<Rightarrow> length tc = NUM_TC \<and> depth outp = None)"

lemmas txd_defs = txd_step_def tx_data_def txd_out_def txd_queues_def txd_owed_def txd_work_def
  txd_inv_def txd_ready_def

lemma unat_index_less: "unat (p :: index_t) < NUM_TC"
  using unsigned_less [of p, where 'a = nat] by (simp add: NUM_TC_def)

lemma txd_conserve:
  assumes "txd_inv x"
  shows "txd_out (txd_step x) @ txd_owed (txd_step x) = txd_out x @ txd_owed x"
proof -
  obtain s tc o_stats outp where x: "x = (s, tc, o_stats, outp)" by (cases x)
  have l: "length tc = NUM_TC" using assms by (simp add: x txd_inv_def)
  show ?thesis
  proof (cases "ab_data_state s")
    case DATA_IDLE
    then show ?thesis unfolding x
      by (cases "que (meta_to_data s)") (simp_all add: txd_defs stream_defs Let_def del: arb_run.simps(3))
  next
    case DATA_STREAM
    then show ?thesis using l unat_index_less [of "data_selected_port s"] unfolding x
      by (cases "que (tp_data (tc ! unat (data_selected_port s)))")
        (auto simp: txd_defs stream_defs Let_def map_update)
  qed
qed

lemma txd_inv_step: "txd_inv x \<Longrightarrow> txd_inv (txd_step x)" "txd_ready x \<Longrightarrow> txd_ready (txd_step x)"
  by (cases x; auto simp: txd_defs stream_defs Let_def split: arb_data_phase.splits option.splits if_splits)+

lemma txd_progress:
  assumes "txd_ready x" "txd_owed x \<noteq> []"
  shows "txd_work (txd_step x) < txd_work x"
proof -
  obtain s tc o_stats outp where x: "x = (s, tc, o_stats, outp)" by (cases x)
  let ?p = "unat (data_selected_port s)"
  have l: "length tc = NUM_TC" "?p < NUM_TC" using assms unat_index_less by (simp_all add: x txd_ready_def)
  show ?thesis
  proof (cases "ab_data_state s")
    case DATA_IDLE
    then show ?thesis using assms unfolding x
      by (cases "que (meta_to_data s)") (simp_all add: txd_defs stream_defs Let_def del: arb_run.simps(3))
  next
    case DATA_STREAM
    show ?thesis
    proof (cases "que (tp_data (tc ! ?p))")
      case Nil
      then show ?thesis using assms l DATA_STREAM unfolding x by (simp add: txd_defs)
    next
      case (Cons w ws)
      then have "sum_list (map length ((txd_queues tc)[?p := ws])) < sum_list (map length (txd_queues tc))"
        using l by (intro sum_length_update) (simp_all add: txd_queues_def)
      then show ?thesis using assms l DATA_STREAM Cons unfolding x
        by (simp add: txd_defs stream_defs Let_def map_update)
    qed
  qed
qed

interpretation txd: conserving_on txd_step txd_out txd_owed txd_inv
  by unfold_locales (simp_all add: txd_conserve txd_inv_step)

interpretation txdl: stage_on txd_step txd_out txd_owed txd_ready txd_work
proof unfold_locales
  fix x :: "'a txd_sys"
  assume r: "txd_ready x"
  then have "txd_inv x" by (cases x) (simp add: txd_ready_def txd_inv_def)
  then show "txd_out (txd_step x) @ txd_owed (txd_step x) = txd_out x @ txd_owed x"
    by (rule txd_conserve)
qed (simp_all add: txd_inv_step txd_progress)

lemma arb_run_packet:
  assumes "is_packet ad_last w" "p < length qs" "qs ! p = w @ r"
  shows "arb_run (Some p) ps qs = w @ arb_run None ps (qs[p := r])"
  using assms
proof (induction w arbitrary: qs)
  case Nil
  then show ?case by simp
next
  case (Cons x w)
  show ?case
  proof (cases "w = []")
    case True
    with Cons show ?thesis by (simp add: is_packet_Cons)
  next
    case False
    with Cons.prems have "\<not> ad_last x" "is_packet ad_last w" by (simp_all add: is_packet_Cons)
    moreover have "arb_run (Some p) ps (qs[p := w @ r]) = w @ arb_run None ps ((qs[p := w @ r])[p := r])"
      using Cons.prems \<open>is_packet ad_last w\<close> by (intro Cons.IH) simp_all
    ultimately show ?thesis using Cons.prems by simp
  qed
qed

lemma arb_run_packets:
  assumes "list_all (\<lambda>j. fst j < length qs \<and> is_packet ad_last (snd j)) js"
    and "\<forall>p < length qs. \<exists>r. qs ! p = concat (map snd (filter (\<lambda>j. fst j = p) js)) @ r"
  shows "arb_run None (map fst js) qs = concat (map snd js)"
  using assms
proof (induction js arbitrary: qs)
  case Nil
  then show ?case by simp
next
  case (Cons j js)
  obtain p w where j: "j = (p, w)" by (cases j)
  have p: "p < length qs" "is_packet ad_last w" using Cons.prems(1) j by simp_all
  obtain r where r: "qs ! p = concat (map snd (filter (\<lambda>j. fst j = p) (j # js))) @ r"
    using Cons.prems(2) p by blast
  let ?q = "concat (map snd (filter (\<lambda>j. fst j = p) js)) @ r"
  have "arb_run (Some p) (map fst js) qs = w @ arb_run None (map fst js) (qs[p := ?q])"
    using p r by (intro arb_run_packet) (simp_all add: j)
  moreover have "arb_run None (map fst js) (qs[p := ?q]) = concat (map snd js)"
  proof (rule Cons.IH)
    show "list_all (\<lambda>j. fst j < length (qs[p := ?q]) \<and> is_packet ad_last (snd j)) js"
      using Cons.prems(1) by simp
    show "\<forall>k < length (qs[p := ?q]). \<exists>r. qs[p := ?q] ! k = concat (map snd (filter (\<lambda>j. fst j = k) js)) @ r"
    proof (intro allI impI)
      fix k
      assume k: "k < length (qs[p := ?q])"
      show "\<exists>r. qs[p := ?q] ! k = concat (map snd (filter (\<lambda>j. fst j = k) js)) @ r"
        using Cons.prems(2) [rule_format, of k] k p by (cases "k = p") (auto simp: j)
    qed
  qed
  ultimately show ?case by (simp add: j del: arb_run.simps(3))
qed

section \<open>What the metadata process does\<close>

text \<open>The metadata of a class on its way to the arbiter's output: the peeked one, then the queue.\<close>

definition waiting :: "nat \<Rightarrow> 's arbiter \<Rightarrow> tc_port list \<Rightarrow> metadata list" where
  "waiting k s tc =
     (case peek_metadata s ! k of None \<Rightarrow> [] | Some m \<Rightarrow> [m]) @ que (tp_meta (tc ! k))"

definition arb_wf :: "'s arbiter \<Rightarrow> tc_port list \<Rightarrow> bool" where
  "arb_wf s tc \<longleftrightarrow> length (peek_metadata s) = NUM_TC \<and> length tc = NUM_TC"

text \<open>Two states of the arbiter that differ only in the peeked metadata and in the request queue.\<close>

definition same_service :: "'s arbiter \<Rightarrow> 's arbiter \<Rightarrow> bool" where
  "same_service s t \<longleftrightarrow> ab_meta_state s = ab_meta_state t \<and> meta_selected_port s = meta_selected_port t \<and>
     quota s = quota t \<and> meta_to_data s = meta_to_data t"

lemma update_peek_port_waiting:
  assumes "arb_wf s tc" "port < NUM_TC" "update_peek_port port (s, tc) = (s', tc')"
  shows "arb_wf s' tc' \<and> same_service s' s \<and> (\<forall>k < NUM_TC. waiting k s' tc' = waiting k s tc)"
proof (cases "\<not> s_empty (tp_meta (tc ! port)) \<and> peek_metadata s ! port = None")
  case True
  then show ?thesis
    using assms by (auto simp: update_peek_port_def arb_wf_def same_service_def waiting_def s_empty_def
        s_read_def nth_list_update)
next
  case False
  then show ?thesis using assms by (auto simp: update_peek_port_def same_service_def)
qed

lemma update_peek_waiting:
  assumes "arb_wf s tc" "update_peek s tc = (s', tc')"
  shows "arb_wf s' tc' \<and> same_service s' s \<and> (\<forall>k < NUM_TC. waiting k s' tc' = waiting k s tc)"
proof -
  have "list_all (\<lambda>p. p < NUM_TC) ps \<Longrightarrow> arb_wf s tc \<Longrightarrow> fold update_peek_port ps (s, tc) = (s', tc') \<Longrightarrow>
      arb_wf s' tc' \<and> same_service s' s \<and> (\<forall>k < NUM_TC. waiting k s' tc' = waiting k s tc)" for ps
  proof (induction ps arbitrary: s tc)
    case Nil
    then show ?case by (simp add: same_service_def)
  next
    case (Cons p ps)
    obtain s1 tc1 where 1: "update_peek_port p (s, tc) = (s1, tc1)" by (cases "update_peek_port p (s, tc)")
    have "arb_wf s1 tc1 \<and> same_service s1 s \<and> (\<forall>k < NUM_TC. waiting k s1 tc1 = waiting k s tc)"
      using Cons.prems 1 by (intro update_peek_port_waiting) simp_all
    with Cons.IH [of s1 tc1] Cons.prems 1 show ?case by (simp add: same_service_def)
  qed
  from this [of "[0..<NUM_TC]"] show ?thesis using assms by (simp add: update_peek_def list_all_iff)
qed

lemma schedule_ports_waiting:
  "arb_wf (schedule_ports s) tc = arb_wf s tc \<and> same_service (schedule_ports s) s \<and>
   waiting k (schedule_ports s) tc = waiting k s tc"
  by (simp add: schedule_ports_def arb_wf_def same_service_def waiting_def Let_def)

text \<open>One call of \<open>tx_meta\<close>: nothing is sent, or the next packet of the selected class within its quota.\<close>

definition sent_one :: "'s sched_ops \<Rightarrow> 's arbiter \<Rightarrow> tc_port list \<Rightarrow> metadata \<Rightarrow> 's arbiter \<Rightarrow> tc_port list \<Rightarrow> bool" where
  "sent_one ops s tc m s' tc' \<longleftrightarrow>
     waiting (unat (meta_selected_port s)) s tc = m # waiting (unat (meta_selected_port s)) s' tc' \<and>
     (\<forall>k < NUM_TC. k \<noteq> unat (meta_selected_port s) \<longrightarrow> waiting k s' tc' = waiting k s tc) \<and>
     packet_flits ops m \<le> quota s \<and> quota s' = quota s - packet_flits ops m \<and>
     que (meta_to_data s') = que (meta_to_data s) @ (if empty_packet m then [] else [meta_selected_port s]) \<and>
     ab_meta_state s' = NEW_PACKET \<and> meta_selected_port s' = meta_selected_port s"

lemma tx_meta_fsm_sent:
  assumes "arb_wf s tc" "tx_meta_fsm ops s mo ev = (s', mo', ev')"
  shows "arb_wf s' tc \<and>
    (que mo' = que mo \<and> que (meta_to_data s') = que (meta_to_data s) \<and>
       (\<forall>k < NUM_TC. waiting k s' tc = waiting k s tc) \<and> (ab_meta_state s = NEW_PACKET \<longrightarrow> quota s' = quota s) \<or>
     (\<exists>m. ab_meta_state s = NEW_PACKET \<and> que mo' = que mo @ [m] \<and> sent_one ops s tc m s' tc))"
proof (cases "ab_meta_state s")
  case META_IDLE
  then show ?thesis
    using assms by (auto simp: tx_meta_fsm_def arb_wf_def waiting_def s_read_def Let_def split: if_splits prod.splits)
next
  case NEW_PACKET
  have l: "unat (meta_selected_port s) < length (peek_metadata s)"
    using assms unat_index_less by (simp add: arb_wf_def)
  show ?thesis
  proof (cases "s_full mo \<or> s_full (meta_to_data s)")
    case True
    then show ?thesis using assms NEW_PACKET by (auto simp: tx_meta_fsm_def)
  next
    case nf: False
    show ?thesis
    proof (cases "peek_metadata s ! unat (meta_selected_port s)")
      case None
      then show ?thesis using assms NEW_PACKET nf
        by (auto simp: tx_meta_fsm_def peek_stream_packet_length_def arb_wf_def waiting_def Let_def)
    next
      case (Some m)
      then show ?thesis using assms NEW_PACKET nf l
        by (auto simp: tx_meta_fsm_def peek_stream_packet_length_def arb_wf_def waiting_def Let_def
            read_metadata_def sent_one_def nth_list_update split: if_splits)
    qed
  qed
qed

lemma tx_meta_sent:
  assumes "arb_wf s tc" "tx_meta ops s tc mo = (s', tc', mo', ev)"
  shows "arb_wf s' tc' \<and>
    (que mo' = que mo \<and> que (meta_to_data s') = que (meta_to_data s) \<and>
       (\<forall>k < NUM_TC. waiting k s' tc' = waiting k s tc) \<and> (ab_meta_state s = NEW_PACKET \<longrightarrow> quota s' = quota s) \<or>
     (\<exists>m. ab_meta_state s = NEW_PACKET \<and> que mo' = que mo @ [m] \<and> sent_one ops s tc m s' tc'))"
proof -
  obtain s2 where 2: "update_peek (schedule_ports s) tc = (s2, tc')"
    and 3: "tx_meta_fsm ops s2 mo (replicate 4 False) = (s', mo', ev)"
    using assms(2) by (auto simp: tx_meta_def Let_def split: prod.splits)
  have u: "arb_wf s2 tc'" "same_service s2 s" "\<forall>k < NUM_TC. waiting k s2 tc' = waiting k s tc"
    using update_peek_waiting [OF _ 2] schedule_ports_waiting [of s tc] assms(1)
    by (auto simp: same_service_def)
  show ?thesis
    using tx_meta_fsm_sent [OF u(1) 3] u(2,3) unat_index_less [of "meta_selected_port s"]
    by (auto simp: same_service_def sent_one_def)
qed

text \<open>A run of calls of \<open>tx_meta\<close>.\<close>

definition txm_step :: "'s sched_ops \<Rightarrow> 's arbiter \<times> tc_port list \<times> metadata hls_stream \<Rightarrow>
    's arbiter \<times> tc_port list \<times> metadata hls_stream" where
  "txm_step ops x = (case x of (s, tc, mo) \<Rightarrow> (case tx_meta ops s tc mo of (s', tc', mo', ev) \<Rightarrow> (s', tc', mo')))"

definition flits_of :: "'s sched_ops \<Rightarrow> metadata list \<Rightarrow> nat" where
  "flits_of ops ms = sum_list (map (unat \<circ> packet_flits ops) ms)"

lemma txm_step_quota:
  assumes "arb_wf s tc" "txm_step ops (s, tc, mo) = (s', tc', mo')" "ab_meta_state s = NEW_PACKET"
  shows "arb_wf s' tc' \<and> (\<exists>ms. que mo' = que mo @ ms \<and> flits_of ops ms + unat (quota s') = unat (quota s))"
proof -
  obtain ev where "tx_meta ops s tc mo = (s', tc', mo', ev)"
    using assms(2) by (auto simp: txm_step_def split: prod.splits)
  from tx_meta_sent [OF assms(1) this] assms(3) consider
      "arb_wf s' tc'" "que mo' = que mo" "quota s' = quota s"
    | m where "arb_wf s' tc'" "que mo' = que mo @ [m]" "sent_one ops s tc m s' tc'"
    by blast
  then show ?thesis
  proof cases
    case 1
    then show ?thesis by (auto simp: flits_of_def)
  next
    case (2 m)
    then have "packet_flits ops m \<le> quota s" "quota s' = quota s - packet_flits ops m"
      by (simp_all add: sent_one_def)
    then have "flits_of ops [m] + unat (quota s') = unat (quota s)"
      by (simp add: flits_of_def unat_sub word_le_nat_alt)
    with 2 show ?thesis by blast
  qed
qed

section \<open>Properties\<close>

text \<open>
  C21: The arbiter serves classes in order and within their quota. One call of the metadata process
  either sends nothing and leaves every class queue as it was, or it sends exactly the oldest waiting
  metadata of the selected class, only when the packet's length in words is within the remaining quota, which is
  reduced by exactly that; every other class is untouched, and the data process is told to forward the
  packet's data exactly when it has data.
\<close>

theorem arbiter_sends_in_order:
  assumes "length (peek_metadata s) = NUM_TC" "length tc = NUM_TC"
    and "tx_meta ops s tc mo = (s', tc', mo', ev)"
  shows "que mo' = que mo \<and> que (meta_to_data s') = que (meta_to_data s) \<and>
      (\<forall>k < NUM_TC. waiting k s' tc' = waiting k s tc) \<or>
    (\<exists>m. que mo' = que mo @ [m] \<and> sent_one ops s tc m s' tc')"
  using tx_meta_sent [of s tc ops mo s' tc' mo' ev] assms by (auto simp: arb_wf_def)

definition demo_sched :: "unit sched_ops" where
  "demo_sched = \<lparr>sch_update = (\<lambda>s. (False, s)), sch_schedule = (\<lambda>i s. s), sch_next_flow = (\<lambda>s. (Some (1, 9), s)),
     sch_update_flow = (\<lambda>p a q s. s), sch_rpc = (\<lambda>c v f r s. (GW_DONE, v, s)),
     sch_ALIGN = (\<lambda>l a. of_nat ((unat l + a - 1) div a * a))\<rparr>"

definition demo_arbiter :: "unit arbiter" where
  "demo_arbiter = \<lparr>peek_metadata = (replicate 8 None)[1 := Some demo_metadata], sched = (), ab_meta_state = NEW_PACKET,
     meta_to_data = s_new (Some 15), ab_data_state = DATA_IDLE, data_selected_port = 0, tx_requests = s_new (Some 1),
     schedule_ports_last = 0, interrupt_sent = 0, meta_selected_port = 1, scheduler_decision = s_new (Some 1),
     ab_stats = arbiter_stats_init, quota = 9\<rparr>"

definition demo_tc :: "tc_port list" where
  "demo_tc = replicate 8 \<lparr>tp_meta = s_new (Some 3), tp_data = s_new (Some 3)\<rparr>"

lemma arbiter_sends_in_order_witness:
  "\<exists>s' tc' mo' ev. tx_meta demo_sched demo_arbiter demo_tc (s_new None) = (s', tc', mo', ev) \<and>
    (que mo' = [] \<and> que (meta_to_data s') = [] \<and>
      (\<forall>k < NUM_TC. waiting k s' tc' = waiting k demo_arbiter demo_tc) \<or>
    (\<exists>m. que mo' = [m] \<and> sent_one demo_sched demo_arbiter demo_tc m s' tc'))"
proof -
  obtain s' tc' mo' ev where "tx_meta demo_sched demo_arbiter demo_tc (s_new None) = (s', tc', mo', ev)"
    by (cases "tx_meta demo_sched demo_arbiter demo_tc (s_new None)")
  then show ?thesis
    using arbiter_sends_in_order [of demo_arbiter demo_tc demo_sched "s_new None" s' tc' mo' ev]
    by (simp add: demo_arbiter_def demo_tc_def NUM_TC_def s_new_def)
qed

text \<open>
  C23: A class never sends more than the scheduler granted. Over any number of calls of the metadata
  process during which a class stays in service, the lengths of the packets that it sent and the quota
  that is left add up to the quota at the start; the counter never wraps.
\<close>

theorem arbiter_quota:
  assumes "length (peek_metadata s) = NUM_TC" "length tc = NUM_TC"
    and "\<forall>i < n. ab_meta_state (fst ((txm_step ops ^^ i) (s, tc, mo))) = NEW_PACKET"
    and "(txm_step ops ^^ n) (s, tc, mo) = (s', tc', mo')"
  shows "\<exists>ms. que mo' = que mo @ ms \<and> flits_of ops ms + unat (quota s') = unat (quota s)"
proof -
  have "arb_wf s' tc' \<and> (\<exists>ms. que mo' = que mo @ ms \<and> flits_of ops ms + unat (quota s') = unat (quota s))"
    using assms(3,4)
  proof (induction n arbitrary: s' tc' mo')
    case 0
    then show ?case using assms(1,2) by (auto simp: flits_of_def arb_wf_def)
  next
    case (Suc n)
    obtain s1 tc1 mo1 where 1: "(txm_step ops ^^ n) (s, tc, mo) = (s1, tc1, mo1)"
      by (cases "(txm_step ops ^^ n) (s, tc, mo)")
    have "\<forall>i < n. ab_meta_state (fst ((txm_step ops ^^ i) (s, tc, mo))) = NEW_PACKET"
      using Suc.prems(1) by simp
    then obtain ms where w: "arb_wf s1 tc1" and ms: "que mo1 = que mo @ ms"
        "flits_of ops ms + unat (quota s1) = unat (quota s)"
      using Suc.IH [of s1 tc1 mo1] 1 by blast
    have "ab_meta_state s1 = NEW_PACKET" using Suc.prems(1) 1 by (metis fst_conv lessI)
    moreover have "txm_step ops (s1, tc1, mo1) = (s', tc', mo')" using Suc.prems(2) 1 by simp
    ultimately obtain ns where "arb_wf s' tc'" "que mo' = que mo1 @ ns"
        "flits_of ops ns + unat (quota s') = unat (quota s1)"
      using txm_step_quota [OF w, of ops mo1 s' tc' mo'] by blast
    then show ?case using ms by (intro conjI exI [of _ "ms @ ns"]) (simp_all add: flits_of_def)
  qed
  then show ?thesis by blast
qed

lemma arbiter_quota_witness:
  "\<exists>s' tc' mo' ms. (txm_step demo_sched ^^ 1) (demo_arbiter, demo_tc, s_new None) = (s', tc', mo') \<and>
     que mo' = ms \<and> flits_of demo_sched ms + unat (quota s') = 9"
proof -
  obtain s' tc' mo' where x: "(txm_step demo_sched ^^ 1) (demo_arbiter, demo_tc, s_new None) = (s', tc', mo')"
    by (cases "(txm_step demo_sched ^^ 1) (demo_arbiter, demo_tc, s_new None)")
  then show ?thesis
    using arbiter_quota [OF _ _ _ x] by (simp add: demo_arbiter_def demo_tc_def NUM_TC_def s_new_def)
qed

text \<open>
  C22: The arbiter forwards packets whole. When the data process is idle and told to forward a
  sequence of packets, whose words wait in the queues of their classes, then, with an output that
  accepts words, it puts out within a bounded number of clocks exactly these packets one after the
  other: words of different classes are never mixed within a packet.
\<close>

theorem arbiter_forwards_whole_packets:
  assumes "ab_data_state s = DATA_IDLE" "length tc = NUM_TC" "depth outp = None"
    and "que (meta_to_data s) = map fst js" "list_all (\<lambda>j. is_packet ad_last (snd j)) js"
    and "\<forall>p. \<exists>r. que (tp_data (tc ! unat p)) = concat (map snd (filter (\<lambda>j. fst j = p) js)) @ r"
  shows "\<exists>n. txd_out ((txd_step ^^ n) (s, tc, o_stats, outp)) = que outp @ concat (map snd js)"
proof -
  let ?js = "map (\<lambda>j. (unat (fst j), snd j)) js"
  have "arb_run None (map fst ?js) (txd_queues tc) = concat (map snd ?js)"
  proof (rule arb_run_packets)
    show "list_all (\<lambda>j. fst j < length (txd_queues tc) \<and> is_packet ad_last (snd j)) ?js"
      using assms(2,5) unat_index_less by (auto simp: list_all_iff txd_queues_def)
    show "\<forall>p < length (txd_queues tc). \<exists>r. txd_queues tc ! p = concat (map snd (filter (\<lambda>j. fst j = p) ?js)) @ r"
    proof (intro allI impI)
      fix p
      assume p: "p < length (txd_queues tc)"
      then have "p < 8" using assms(2) by (simp add: txd_queues_def NUM_TC_def)
      then have up: "unat (of_nat p :: index_t) = p" by (simp add: unsigned_of_nat take_bit_nat_eq_self)
      then have "(unat i = p) = (i = of_nat p)" for i :: index_t by (metis word_unat_eq_iff)
      then have "map snd (filter (\<lambda>j. fst j = p) ?js) = map snd (filter (\<lambda>j. fst j = of_nat p) js)"
        by (simp add: filter_map comp_def)
      then show "\<exists>r. txd_queues tc ! p = concat (map snd (filter (\<lambda>j. fst j = p) ?js)) @ r"
        using assms(6) [rule_format, of "of_nat p"] p by (simp add: txd_queues_def up)
    qed
  qed
  then have "txd_owed (s, tc, o_stats, outp) = concat (map snd js)"
    using assms(1,4) by (simp add: txd_owed_def comp_def)
  then show ?thesis
    using txdl.drains_on [of "(s, tc, o_stats, outp)"] assms(2,3) by (auto simp: txd_ready_def txd_out_def)
qed

lemma arbiter_forwards_whole_packets_witness:
  "\<exists>n. txd_out ((txd_step ^^ n) (demo_arbiter\<lparr>meta_to_data := \<lparr>depth = None, que = [1]\<rparr>\<rparr>,
     demo_tc[1 := \<lparr>tp_meta = s_new None, tp_data = \<lparr>depth = None, que = [demo_word 1 False, demo_word 2 True]\<rparr>\<rparr>],
     arbiter_stats_init, s_new None)) = [demo_word 1 False, demo_word 2 True]"
proof -
  let ?tc = "demo_tc[1 := \<lparr>tp_meta = s_new None, tp_data = \<lparr>depth = None, que = [demo_word 1 False, demo_word 2 True]\<rparr>\<rparr>]"
  have "\<exists>r. que (tp_data (?tc ! unat p)) =
      concat (map snd (filter (\<lambda>j. fst j = p) [(1, [demo_word 1 False, demo_word 2 True])])) @ r" for p :: index_t
  proof (cases "p = 1")
    case True
    then show ?thesis by (simp add: demo_tc_def)
  next
    case False
    then show ?thesis by simp
  qed
  then show ?thesis
    using arbiter_forwards_whole_packets [of "demo_arbiter\<lparr>meta_to_data := \<lparr>depth = None, que = [1]\<rparr>\<rparr>" ?tc
        "s_new None" "[(1, [demo_word 1 False, demo_word 2 True])]" arbiter_stats_init]
    by (simp add: demo_arbiter_def demo_tc_def NUM_TC_def s_new_def is_packet_Cons demo_word_def)
qed

end
