(* ===== verification/Custom_Ring.thy ===== *)
theory Custom_Ring
  imports Arbiter
begin

text \<open>
  The custom rings of \<open>src/nica/hls/custom_rx_ring.cpp\<close>: packets that an ikernel addresses to a ring leave
  as RoCE UC send packets, with a base transport header (BTH) in front and an invariant CRC behind.

  The table of ring contexts is \<open>ntl::context_manager\<close>; \<open>ctx_ops\<close> holds its operations over an abstract
  state \<open>'c\<close>: indexing, assignment to an element, the pending update of the gateway, and the commands by
  which the gateway stores its staging context in the table or loads it from there. The units that insert the
  header and the suffix into the data are \<open>ntl\<close> code too.
\<close>

record ring_context =
  rc_eth_dst :: "48 word"
  rc_ip_dst :: "32 word"
  rc_dest_qpn :: "24 word"
  rc_psn :: "24 word"

record 'c ctx_ops =
  ctx_get :: "'c \<Rightarrow> nat \<Rightarrow> ring_context"
  ctx_put :: "'c \<Rightarrow> nat \<Rightarrow> ring_context \<Rightarrow> 'c"
  ctx_update :: "'c \<Rightarrow> bool \<times> 'c"
  ctx_gateway_set :: "32 word \<Rightarrow> ring_context \<Rightarrow> 'c \<Rightarrow> gw_status \<times> 'c"
  ctx_gateway_query :: "32 word \<Rightarrow> 'c \<Rightarrow> gw_status \<times> ring_context \<times> 'c"
  ctx_size :: "32 word"

definition ctx_array :: "'c ctx_ops \<Rightarrow> bool" where
  "ctx_array ops \<longleftrightarrow> (\<forall>c i x. ctx_get ops (ctx_put ops c i x) = (ctx_get ops c)(i := x))"

record 'c ring_context_manager =
  gateway_context :: ring_context
  rcm_table :: 'c

definition CR_SRC_MAC_LO :: "32 word" where "CR_SRC_MAC_LO = 0x2"
definition CR_SRC_MAC_HI :: "32 word" where "CR_SRC_MAC_HI = 0x3"
definition CR_SRC_IP :: "32 word" where "CR_SRC_IP = 0x5"
definition CR_DST_UDP :: "32 word" where "CR_DST_UDP = 0x6"
definition CR_SRC_UDP :: "32 word" where "CR_SRC_UDP = 0x7"
definition CR_NUM_CONTEXTS :: "32 word" where "CR_NUM_CONTEXTS = 0xa"
definition CR_DST_MAC_LO :: "32 word" where "CR_DST_MAC_LO = 0x0"
definition CR_DST_MAC_HI :: "32 word" where "CR_DST_MAC_HI = 0x1"
definition CR_DST_IP :: "32 word" where "CR_DST_IP = 0x4"
definition CR_DST_QPN :: "32 word" where "CR_DST_QPN = 0x10"
definition CR_PSN :: "32 word" where "CR_PSN = 0x11"
definition CR_WRITE_CONTEXT :: "32 word" where "CR_WRITE_CONTEXT = 0x1e"
definition CR_READ_CONTEXT :: "32 word" where "CR_READ_CONTEXT = 0x1f"

lemmas cr_addresses = CR_SRC_MAC_LO_def CR_SRC_MAC_HI_def CR_SRC_IP_def CR_DST_UDP_def CR_SRC_UDP_def
  CR_NUM_CONTEXTS_def CR_DST_MAC_LO_def CR_DST_MAC_HI_def CR_DST_IP_def CR_DST_QPN_def CR_PSN_def
  CR_WRITE_CONTEXT_def CR_READ_CONTEXT_def

definition rcm_gateway_write ::
  "'c ctx_ops \<Rightarrow> 32 word \<Rightarrow> 32 word \<Rightarrow> 'c ring_context_manager \<Rightarrow> gw_status \<times> 'c ring_context_manager" where
  "rcm_gateway_write ops address value s =
     (let g = gateway_context s
      in if address = CR_DST_MAC_LO
           then (GW_DONE, s\<lparr>gateway_context := g\<lparr>rc_eth_dst := ap_set_range 31 0 value (rc_eth_dst g)\<rparr>\<rparr>)
         else if address = CR_DST_MAC_HI
           then (GW_DONE, s\<lparr>gateway_context := g\<lparr>rc_eth_dst := ap_set_range 47 32 value (rc_eth_dst g)\<rparr>\<rparr>)
         else if address = CR_DST_IP then (GW_DONE, s\<lparr>gateway_context := g\<lparr>rc_ip_dst := value\<rparr>\<rparr>)
         else if address = CR_DST_QPN then (GW_DONE, s\<lparr>gateway_context := g\<lparr>rc_dest_qpn := ucast value\<rparr>\<rparr>)
         else if address = CR_PSN then (GW_DONE, s\<lparr>gateway_context := g\<lparr>rc_psn := ucast value\<rparr>\<rparr>)
         else if address = CR_WRITE_CONTEXT then
           (let (st, t) = ctx_gateway_set ops (value - 1) g (rcm_table s) in (st, s\<lparr>rcm_table := t\<rparr>))
         else if address = CR_READ_CONTEXT then
           (let (st, g', t) = ctx_gateway_query ops (value - 1) (rcm_table s)
            in (st, s\<lparr>gateway_context := g', rcm_table := t\<rparr>))
         else (GW_FAIL, s))"

definition rcm_gateway_read :: "32 word \<Rightarrow> 'c ring_context_manager \<Rightarrow> gw_status \<times> 32 word" where
  "rcm_gateway_read address s =
     (let g = gateway_context s
      in if address = CR_DST_MAC_LO then (GW_DONE, ap_range 31 0 (rc_eth_dst g))
         else if address = CR_DST_MAC_HI then (GW_DONE, ap_range 47 32 (rc_eth_dst g))
         else if address = CR_DST_IP then (GW_DONE, rc_ip_dst g)
         else if address = CR_DST_QPN then (GW_DONE, ucast (rc_dest_qpn g))
         else if address = CR_PSN then (GW_DONE, ucast (rc_psn g))
         else (GW_FAIL, -1))"

definition next_packet :: "'c ctx_ops \<Rightarrow> ring_id_t \<Rightarrow> 'c \<Rightarrow> ring_context \<times> 'c" where
  "next_packet ops ring c =
     (let i = ring_index ring; ret = ctx_get ops c i
      in (ret, ctx_put ops c i (ret\<lparr>rc_psn := rc_psn ret + 1\<rparr>)))"

section \<open>Headers\<close>

definition IB_OPCODE_UC_SEND_ONLY :: "8 word" where "IB_OPCODE_UC_SEND_ONLY = 0x20 + 0x04"
definition IB_BTH_BYTES :: nat where "IB_BTH_BYTES = 12"

definition bth_pad :: "16 word \<Rightarrow> 16 word" where
  "bth_pad l = (- l) AND 3"

definition gen_bth :: "(nat \<Rightarrow> 32 word) \<Rightarrow> ring_context \<Rightarrow> 16 word \<Rightarrow> axi_data \<times> 16 word" where
  "gen_bth kb context l =
     (let pad_count = bth_pad l;
          flags = push_bit 4 (ucast pad_count :: 8 word);
          data = word_cat IB_OPCODE_UC_SEND_ONLY (word_cat flags (word_cat (0xffff :: 16 word) (word_cat (0 :: 8 word)
                   (word_cat (rc_dest_qpn context) (word_cat (ucast (rc_psn context) :: 32 word) (0 :: 160 word)
                     :: 192 word) :: 216 word) :: 224 word) :: 240 word) :: 248 word)
      in (\<lparr>ad_data = data, ad_keep = kb IB_BTH_BYTES, ad_last = True\<rparr>, l + pad_count))"

record ('c, 'r) custom_rx_ring =
  cr_metadata :: packet_metadata
  cr_metadata_cache :: packet_metadata
  cr_metadata_updates :: "packet_metadata hls_stream"
  cr_contexts :: "'c ring_context_manager"
  cr_bth :: data_stream
  cr_data_bth_to_icrc :: data_stream
  cr_icrc :: "32 word hls_stream"
  cr_empty_packet :: "bool hls_stream"
  cr_empty_packet_bth :: "bool hls_stream"
  cr_empty_packet_icrc :: "bool hls_stream"
  cr_enable_stream :: "bool hls_stream"
  cr_enable_bth :: "bool hls_stream"
  cr_enable_icrc :: "bool hls_stream"
  cr_push_bth :: 'r
  cr_push_icrc :: 'r

definition custom_rx_ring_metadata_init :: "packet_metadata" where
  "custom_rx_ring_metadata_init =
     (packet_metadata_from_int 0)\<lparr>eth_src := 0x1, ip_src := 0x0a000001, udp_dst := 4791, udp_src := 4791\<rparr>"

definition ring_packet ::
  "(nat \<Rightarrow> 32 word) \<Rightarrow> packet_metadata \<Rightarrow> ring_context \<Rightarrow> metadata \<Rightarrow> axi_data \<times> metadata" where
  "ring_packet kb pm context m =
     (let (bth_flit, l) = gen_bth kb context (len m);
          pm' = pm\<lparr>eth_dst := rc_eth_dst context, ip_dst := rc_ip_dst context\<rparr>
      in (bth_flit, (set_packet_metadata pm' m)\<lparr>len := l + (of_nat IB_BTH_BYTES + 4), ring_id := 0\<rparr>))"

definition ring_hdrs ::
  "(nat \<Rightarrow> 32 word) \<Rightarrow> 'c ctx_ops \<Rightarrow> ('c, 'r) custom_rx_ring \<Rightarrow> metadata hls_stream \<Rightarrow> metadata hls_stream \<Rightarrow>
   ('c, 'r) custom_rx_ring \<times> metadata hls_stream \<times> metadata hls_stream" where
  "ring_hdrs kb ops s0 hdr_in hdr_out =
     (let s1 = (if \<not> s_empty (cr_metadata_updates s0)
                then (let (m, u) = s_read (cr_metadata_updates s0) in s0\<lparr>cr_metadata := m, cr_metadata_updates := u\<rparr>)
                else s0);
          (upd, t) = ctx_update ops (rcm_table (cr_contexts s1));
          s2 = s1\<lparr>cr_contexts := (cr_contexts s1)\<lparr>rcm_table := t\<rparr>\<rparr>
      in if upd then (s2, hdr_in, hdr_out)
         else if s_empty hdr_in \<or> s_full hdr_out \<or> s_full (cr_bth s2) \<or> s_full (cr_enable_stream s2) \<or>
                 s_full (cr_empty_packet s2) \<or> s_full (cr_icrc s2) then (s2, hdr_in, hdr_out)
         else
           (let (m, hdr_in') = s_read hdr_in;
                s3 = s2\<lparr>cr_empty_packet := s_write (empty_packet m) (cr_empty_packet s2),
                        cr_enable_stream := s_write (ring_id m \<noteq> 0) (cr_enable_stream s2)\<rparr>
            in if ring_id m \<noteq> 0 then
                 (let (context, t') = next_packet ops (ring_id m) (rcm_table (cr_contexts s3));
                      (bth_flit, m') = ring_packet kb (cr_metadata s3) context m
                  in (s3\<lparr>cr_contexts := (cr_contexts s3)\<lparr>rcm_table := t'\<rparr>,
                        cr_bth := s_write bth_flit (cr_bth s3), cr_icrc := s_write 0 (cr_icrc s3)\<rparr>,
                      hdr_in', s_write m' hdr_out))
               else (s3, hdr_in', s_write m hdr_out)))"

definition cr_reg_read :: "'c ctx_ops \<Rightarrow> 32 word \<Rightarrow> 32 word \<Rightarrow> ('c, 'r) custom_rx_ring \<Rightarrow> gw_status \<times> 32 word \<times> ('c, 'r) custom_rx_ring" where
  "cr_reg_read ops address value s =
     (let c = cr_metadata_cache s
      in if address = CR_SRC_MAC_LO then (GW_DONE, ap_range 31 0 (eth_src c), s)
         else if address = CR_SRC_MAC_HI then (GW_DONE, ap_range 47 32 (eth_src c), s)
         else if address = CR_SRC_IP then (GW_DONE, ip_src c, s)
         else if address = CR_DST_UDP then (GW_DONE, ucast (udp_dst c), s)
         else if address = CR_SRC_UDP then (GW_DONE, ucast (udp_src c), s)
         else if address = CR_NUM_CONTEXTS then (GW_DONE, ctx_size ops, s)
         else if address = CR_DST_MAC_LO \<or> address = CR_DST_MAC_HI \<or> address = CR_DST_IP \<or>
                 address = CR_DST_QPN \<or> address = CR_PSN
           then (let (st, v) = rcm_gateway_read address (cr_contexts s) in (st, v, s))
         else (GW_FAIL, -1, s))"

definition cr_reg_write :: "'c ctx_ops \<Rightarrow> 32 word \<Rightarrow> 32 word \<Rightarrow> ('c, 'r) custom_rx_ring \<Rightarrow> gw_status \<times> ('c, 'r) custom_rx_ring" where
  "cr_reg_write ops address value s =
     (let c = cr_metadata_cache s;
          finish = (\<lambda>c'. let s' = s\<lparr>cr_metadata_cache := c'\<rparr>
                          in if s_full (cr_metadata_updates s) then (GW_BUSY, s')
                             else (GW_DONE, s'\<lparr>cr_metadata_updates := s_write c' (cr_metadata_updates s)\<rparr>))
      in if address = CR_SRC_MAC_LO then finish (c\<lparr>eth_src := ap_set_range 31 0 value (eth_src c)\<rparr>)
         else if address = CR_SRC_MAC_HI then finish (c\<lparr>eth_src := ap_set_range 47 32 value (eth_src c)\<rparr>)
         else if address = CR_SRC_IP then finish (c\<lparr>ip_src := value\<rparr>)
         else if address = CR_DST_UDP then finish (c\<lparr>udp_dst := ucast value\<rparr>)
         else if address = CR_SRC_UDP then finish (c\<lparr>udp_src := ucast value\<rparr>)
         else if address = CR_DST_MAC_LO \<or> address = CR_DST_MAC_HI \<or> address = CR_DST_IP \<or>
                 address = CR_DST_QPN \<or> address = CR_PSN \<or> address = CR_WRITE_CONTEXT \<or> address = CR_READ_CONTEXT
           then (let (st, cs) = rcm_gateway_write ops address value (cr_contexts s) in (st, s\<lparr>cr_contexts := cs\<rparr>))
         else (GW_FAIL, s))"

record 'r ntl_ring_ops =
  push_bth_reorder :: "'r \<Rightarrow> data_stream \<Rightarrow> bool hls_stream \<Rightarrow> bool hls_stream \<Rightarrow> data_stream \<Rightarrow> data_stream \<Rightarrow>
    'r \<times> data_stream \<times> bool hls_stream \<times> bool hls_stream \<times> data_stream \<times> data_stream"
  push_icrc_reorder :: "'r \<Rightarrow> data_stream \<Rightarrow> bool hls_stream \<Rightarrow> bool hls_stream \<Rightarrow> 32 word hls_stream \<Rightarrow> data_stream \<Rightarrow>
    'r \<times> data_stream \<times> bool hls_stream \<times> bool hls_stream \<times> 32 word hls_stream \<times> data_stream"

definition custom_ring ::
  "(nat \<Rightarrow> 32 word) \<Rightarrow> 'r ntl_ring_ops \<Rightarrow> 'c ctx_ops \<Rightarrow> gw_cmd \<Rightarrow> ('c, 'r) custom_rx_ring \<Rightarrow> metadata hls_stream \<Rightarrow> data_stream \<Rightarrow>
   metadata hls_stream \<Rightarrow> data_stream \<Rightarrow>
   ('c, 'r) custom_rx_ring \<times> metadata hls_stream \<times> data_stream \<times> metadata hls_stream \<times> data_stream" where
  "custom_ring kb ro ops cmd s0 hdr_in data_in hdr_out data_out =
     (let s1 = (case cmd of None \<Rightarrow> s0
                | Some (addr, data) \<Rightarrow>
                    snd (snd (gateway_callback (cr_reg_write ops) (cr_reg_read ops) addr data s0)));
          (s2, hdr_in', hdr_out') = ring_hdrs kb ops s1 hdr_in hdr_out;
          (en, eb, ei) = dup (cr_enable_stream s2) (cr_enable_bth s2) (cr_enable_icrc s2);
          (ep, pb, pi) = dup (cr_empty_packet s2) (cr_empty_packet_bth s2) (cr_empty_packet_icrc s2);
          (rb, b, pb', eb', data_in', di) = push_bth_reorder ro (cr_push_bth s2) (cr_bth s2) pb eb data_in (cr_data_bth_to_icrc s2);
          (ri, di', pi', ei', ic, data_out') = push_icrc_reorder ro (cr_push_icrc s2) di pi ei (cr_icrc s2) data_out
      in (s2\<lparr>cr_enable_stream := en, cr_enable_bth := eb', cr_enable_icrc := ei', cr_empty_packet := ep,
             cr_empty_packet_bth := pb', cr_empty_packet_icrc := pi', cr_bth := b,
             cr_data_bth_to_icrc := di', cr_icrc := ic, cr_push_bth := rb, cr_push_icrc := ri\<rparr>,
          hdr_in', data_in', hdr_out', data_out'))"

section \<open>Facts\<close>

lemma ring_index_inject: "ring_index r = ring_index q \<longleftrightarrow> r = q"
  by (metis diff_add_cancel ring_index_def word_unat_eq_iff)

lemma pad_to_four: "(n + (4 - n mod 4) mod 4) mod 4 = (0 :: nat)"
proof -
  have "n mod 4 < 4" by simp
  then have "(n mod 4 + (4 - n mod 4) mod 4) mod 4 = 0" by (cases "n mod 4 = 0") simp_all
  then show ?thesis by (simp add: mod_add_left_eq)
qed

lemma complement_mod_four:
  assumes "n < (65536 :: nat)"
  shows "(65536 - n) mod 4 = (4 - n mod 4) mod 4"
proof -
  define q where "q = n div 4"
  have n: "n = 4 * q + n mod 4" by (simp add: q_def)
  have r: "n mod 4 < 4" by simp
  have "65536 - n = 4 * (16383 - q) + (4 - n mod 4)" using n r assms by linarith
  then show ?thesis by (simp only: mod_mult_self4)
qed

lemma unat_bth_pad: "unat (bth_pad l) = (4 - unat l mod 4) mod 4"
proof -
  have u: "unat l < 2 ^ LENGTH(16)" by (rule unsigned_less)
  have "unat (bth_pad l) = take_bit 2 (unat (- l))"
  proof -
    have "(- l) AND 3 = take_bit 2 (- l)" by (simp add: take_bit_eq_mask mask_eq_exp_minus_1)
    then show ?thesis by (simp add: bth_pad_def unsigned_take_bit_eq)
  qed
  also have "\<dots> = unat (- l) mod 4" by (simp add: take_bit_eq_mod)
  also have "\<dots> = (4 - unat l mod 4) mod 4"
  proof (cases "l = 0")
    case True
    then show ?thesis by simp
  next
    case False
    have "unat (- l) = unat (0 - l)" by simp
    also have "\<dots> = 65536 - unat l" using False by (subst unat_sub_if') (simp add: word_le_nat_alt unat_gt_0)
    finally have "unat (- l) = 65536 - unat l" .
    moreover have "(65536 - unat l) mod 4 = (4 - unat l mod 4) mod 4"
      using u by (intro complement_mod_four) simp
    ultimately show ?thesis by simp
  qed
  finally show ?thesis .
qed

lemma bth_fields:
  "ap_range 247 240 (ad_data (fst (gen_bth kb context l))) = (push_bit 4 (ucast (bth_pad l)) :: 8 word)"
  "ap_range 215 192 (ad_data (fst (gen_bth kb context l))) = rc_dest_qpn context"
  "ap_range 183 160 (ad_data (fst (gen_bth kb context l))) = rc_psn context"
  by (simp_all add: gen_bth_def Let_def range_simps)

text \<open>The contexts that a sequence of packets for the given rings is sent with.\<close>

fun ring_run :: "'c ctx_ops \<Rightarrow> 'c \<Rightarrow> ring_id_t list \<Rightarrow> ring_context list" where
  "ring_run ops c [] = []"
| "ring_run ops c (r # rs) = (let (x, c') = next_packet ops r c in x # ring_run ops c' rs)"

lemma length_ring_run [simp]: "length (ring_run ops c rs) = length rs"
  by (induction rs arbitrary: c) (simp_all add: Let_def split: prod.splits)

lemma ring_run_nth:
  assumes "ctx_array ops" "k < length rs"
  shows "ring_run ops c rs ! k =
    (ctx_get ops c (ring_index (rs ! k)))
      \<lparr>rc_psn := rc_psn (ctx_get ops c (ring_index (rs ! k))) + of_nat (count_list (take k rs) (rs ! k))\<rparr>"
  using assms(2)
proof (induction rs arbitrary: k c)
  case Nil
  then show ?case by simp
next
  case (Cons r rs)
  show ?case
  proof (cases k)
    case 0
    then show ?thesis by (simp add: next_packet_def Let_def)
  next
    case (Suc j)
    let ?x = "ctx_get ops c (ring_index r)"
    let ?c = "ctx_put ops c (ring_index r) (?x\<lparr>rc_psn := rc_psn ?x + 1\<rparr>)"
    have get: "ctx_get ops ?c = (ctx_get ops c)(ring_index r := ?x\<lparr>rc_psn := rc_psn ?x + 1\<rparr>)"
      using assms(1) by (simp add: ctx_array_def)
    have "j < length rs" using Cons.prems Suc by simp
    then have "ring_run ops ?c rs ! j = (ctx_get ops ?c (ring_index (rs ! j)))
        \<lparr>rc_psn := rc_psn (ctx_get ops ?c (ring_index (rs ! j))) + of_nat (count_list (take j rs) (rs ! j))\<rparr>"
      by (rule Cons.IH)
    then have "ring_run ops ?c rs ! j = (if rs ! j = r then ?x\<lparr>rc_psn := rc_psn ?x + 1\<rparr> else ctx_get ops c (ring_index (rs ! j)))
        \<lparr>rc_psn := rc_psn (if rs ! j = r then ?x\<lparr>rc_psn := rc_psn ?x + 1\<rparr> else ctx_get ops c (ring_index (rs ! j))) +
          of_nat (count_list (take j rs) (rs ! j))\<rparr>"
      unfolding get by (simp add: ring_index_inject)
    moreover have "ring_run ops c (r # rs) ! k = ring_run ops ?c rs ! j"
      by (simp add: Suc next_packet_def Let_def)
    ultimately show ?thesis using Suc by (simp add: add.assoc)
  qed
qed

section \<open>Properties\<close>

text \<open>
  C28: Packet sequence numbers have no gaps. Of any interleaving of packets for the rings, the k-th
  packet is sent with the destination of its ring and with the ring's initial sequence number plus
  the number of earlier packets of the same ring, modulo 2 to the 24; other rings do not matter.
\<close>

theorem ring_psn_consecutive:
  assumes "ctx_array ops" "k < length rs"
  shows "rc_psn (ring_run ops c rs ! k) =
      rc_psn (ctx_get ops c (ring_index (rs ! k))) + of_nat (count_list (take k rs) (rs ! k)) \<and>
    rc_dest_qpn (ring_run ops c rs ! k) = rc_dest_qpn (ctx_get ops c (ring_index (rs ! k)))"
  using ring_run_nth [OF assms, of c] by simp

definition demo_ctx :: "(nat \<Rightarrow> ring_context) ctx_ops" where
  "demo_ctx = \<lparr>ctx_get = (\<lambda>c i. c i), ctx_put = (\<lambda>c i x. c(i := x)), ctx_update = (\<lambda>c. (False, c)),
     ctx_gateway_set = (\<lambda>i x c. (GW_DONE, c(unat i := x))), ctx_gateway_query = (\<lambda>i c. (GW_DONE, c (unat i), c)),
     ctx_size = 64\<rparr>"

lemma ring_psn_consecutive_witness:
  "rc_psn (ring_run demo_ctx (\<lambda>i. \<lparr>rc_eth_dst = 0, rc_ip_dst = 0, rc_dest_qpn = 7, rc_psn = 10\<rparr>) [3, 5, 3] ! 2) = 11"
  using ring_psn_consecutive [of demo_ctx 2 "[3, 5, 3]"
      "\<lambda>i. \<lparr>rc_eth_dst = 0, rc_ip_dst = 0, rc_dest_qpn = 7, rc_psn = 10\<rparr>"]
  by (simp add: demo_ctx_def ctx_array_def del: ring_run.simps)

text \<open>
  A ring packet is well formed. The payload is padded to a multiple of four bytes and the pad count
  is what the header announces; the metadata's length is the padded payload plus the 12 header bytes
  and 4 CRC bytes; the result is addressed to the ring's destination and is ordinary UDP metadata again
  (ring 0 with packet headers, so that its verification holds).
\<close>

lemma ring_packet_well_formed:
  assumes "unat (len m) \<le> 65500" "ring_packet kb pm context m = (flit, m')"
  shows "\<exists>pad < 4. (unat (len m) + pad) mod 4 = 0 \<and> unat (len m') = unat (len m) + pad + 16 \<and>
      ap_range 247 240 (ad_data flit) = (push_bit 4 (of_nat pad) :: 8 word) \<and>
      ap_range 215 192 (ad_data flit) = rc_dest_qpn context \<and>
      ap_range 183 160 (ad_data flit) = rc_psn context \<and>
      metadata_verify m' \<and> ring_id m' = 0 \<and>
      eth_dst (get_packet_metadata m') = rc_eth_dst context \<and> ip_dst (get_packet_metadata m') = rc_ip_dst context"
proof (intro exI [of _ "unat (bth_pad (len m))"] conjI)
  let ?l = "len m"
  have m': "m' = (set_packet_metadata (pm\<lparr>eth_dst := rc_eth_dst context, ip_dst := rc_ip_dst context\<rparr>) m)
      \<lparr>len := ?l + bth_pad ?l + 16, ring_id := 0\<rparr>" and flit: "flit = fst (gen_bth kb context ?l)"
    using assms(2) by (simp_all add: ring_packet_def gen_bth_def Let_def IB_BTH_BYTES_def)
  show p: "unat (bth_pad ?l) < 4" by (simp add: unat_bth_pad)
  show "(unat ?l + unat (bth_pad ?l)) mod 4 = 0" by (simp only: unat_bth_pad pad_to_four)
  have a: "unat (?l + bth_pad ?l) = unat ?l + unat (bth_pad ?l)"
    using assms(1) p by (subst unat_add_lem [THEN iffD1]) simp_all
  then have "unat (?l + bth_pad ?l + 16) = unat ?l + unat (bth_pad ?l) + 16"
    using assms(1) p by (subst unat_add_lem [THEN iffD1]) simp_all
  then show "unat (len m') = unat ?l + unat (bth_pad ?l) + 16" by (simp add: m')
  have "(of_nat (unat (bth_pad ?l)) :: 8 word) = ucast (bth_pad ?l)" by simp
  then show "ap_range 247 240 (ad_data flit) = (push_bit 4 (of_nat (unat (bth_pad ?l))) :: 8 word)"
    by (simp only: flit bth_fields)
  show "ap_range 215 192 (ad_data flit) = rc_dest_qpn context" "ap_range 183 160 (ad_data flit) = rc_psn context"
    by (simp_all only: flit bth_fields)
  show "metadata_verify m'" "ring_id m' = 0" "eth_dst (get_packet_metadata m') = rc_eth_dst context"
    "ip_dst (get_packet_metadata m') = rc_ip_dst context"
    by (simp_all add: m' metadata_verify_iff set_packet_metadata_def get_packet_metadata_def)
qed

end
