(* ===== verification/Nica.thy ===== *)
theory Nica
  imports Custom_Ring
begin

text \<open>
  The top level of \<open>src/nica/hls/nica.cpp\<close> and \<open>nica-impl.hpp\<close>: the wrapper around each ikernel, the path
  of the raw packets, the pipeline of one direction and the two directions together. Streams of
  metadata carry metadata records; their packing is in \<open>Metadata\<close>. The build that is modelled is the
  synthesis build (no \<open>SIMULATION_BUILD\<close>).
\<close>

definition header_to_metadata :: "header_buffer \<Rightarrow> flow_table_result \<Rightarrow> metadata" where
  "header_to_metadata buf ft_res =
     (let hdr = header_parser_from_int (hb_hdr buf);
          m = metadata_from_int 0;
          pkt = get_packet_metadata m;
          pkt' = pkt\<lparr>eth_dst := eh_dest (hp_eth hdr), eth_src := eh_source (hp_eth hdr),
                     ip_dst := ih_daddr (hp_ip hdr), ip_src := ih_saddr (hp_ip hdr),
                     udp_dst := uh_dest (hp_udp hdr), udp_src := uh_source (hp_udp hdr)\<rparr>
      in (set_packet_metadata pkt' m)\<lparr>ip_identification := ih_id (hp_ip hdr),
             len := uh_length (hp_udp hdr) - 64 div 8,
             ikernel_id := ft_ikernel_id (fr_v ft_res), flow_id := fr_flow_id ft_res\<rparr>)"

definition split_udp_hdr_stream ::
  "header_buffer hls_stream \<Rightarrow> flow_table_result hls_stream \<Rightarrow> metadata hls_stream \<Rightarrow>
   header_buffer hls_stream \<times> flow_table_result hls_stream \<times> metadata hls_stream" where
  "split_udp_hdr_stream hdr_in ft_res_in metadata_out =
     (if s_empty hdr_in \<or> s_empty ft_res_in \<or> s_full metadata_out then (hdr_in, ft_res_in, metadata_out)
      else (let (r, fr') = s_read ft_res_in;
                (buf, hi') = s_read hdr_in
            in (hi', fr', s_write (header_to_metadata buf r) metadata_out)))"

definition packet_counter_count ::
  "32 word \<Rightarrow> metadata hls_stream \<Rightarrow> metadata hls_stream \<Rightarrow>
   32 word \<times> metadata hls_stream \<times> metadata hls_stream \<times> 32 word" where
  "packet_counter_count packets metadata_in header_out =
     (if s_empty metadata_in \<or> s_full header_out then (packets, metadata_in, header_out, packets)
      else (let (m, i') = s_read metadata_in in (packets + 1, i', s_write_nb m header_out, packets)))"

text \<open>
  The wrapper of one direction of an ikernel: its state, the pipeline ports of the ikernel, the port of the
  crossbar it is fed from, the streams to the demultiplexor and the published packet counter.
\<close>

type_synonym wrap_io = "pipeline_ports \<times> xbar_port \<times> metadata hls_stream \<times> data_stream \<times> 32 word"

definition ikernel_wrapper_common :: "32 word \<Rightarrow> wrap_io \<Rightarrow> 32 word \<times> wrap_io" where
  "ikernel_wrapper_common packets io = (case io of (ik, xp, hdr_out, data_out, ik_stats) \<Rightarrow>
     (let (h, f, mi) = split_udp_hdr_stream (xp_hdr xp) (xp_ft xp) (metadata_input ik);
          (d, di) = link_axi_stream (xp_data xp) (data_input ik);
          (dout', data_out') = link_fifo (data_output ik) data_out;
          (packets', mo, hdr_out', ik_stats') = packet_counter_count packets (metadata_output ik) hdr_out
      in (packets', ik\<lparr>metadata_input := mi, data_input := di, data_output := dout', metadata_output := mo\<rparr>,
          \<lparr>xp_hdr = h, xp_ft = f, xp_data = d\<rparr>, hdr_out', data_out', ik_stats')))"

definition ikernel_wrapper_host :: "32 word \<Rightarrow> wrap_io \<Rightarrow> 32 word \<times> wrap_io" where
  "ikernel_wrapper_host = ikernel_wrapper_common"

record ('c, 'r) ikernel_wrapper_net =
  iw_packets :: "32 word"
  iw_custom_ring :: "('c, 'r) custom_rx_ring"
  hdr_ik_to_custom_ring :: "metadata hls_stream"
  data_ik_to_custom_ring :: data_stream

definition ikernel_wrapper_net_step ::
  "(nat \<Rightarrow> 32 word) \<Rightarrow> 'r ntl_ring_ops \<Rightarrow> 'c ctx_ops \<Rightarrow> gw_cmd \<Rightarrow> ('c, 'r) ikernel_wrapper_net \<Rightarrow> wrap_io \<Rightarrow>
   ('c, 'r) ikernel_wrapper_net \<times> wrap_io" where
  "ikernel_wrapper_net_step kb ro ops cmd w io = (case io of (ik, xp, hdr_out, data_out, ik_stats) \<Rightarrow>
     (let (packets, ik', xp', hr, dr, ik_stats') =
            ikernel_wrapper_common (iw_packets w) (ik, xp, hdr_ik_to_custom_ring w, data_ik_to_custom_ring w, ik_stats);
          (cr, hr', dr', hdr_out', data_out') = custom_ring kb ro ops cmd (iw_custom_ring w) hr dr hdr_out data_out
      in (\<lparr>iw_packets = packets, iw_custom_ring = cr, hdr_ik_to_custom_ring = hr', data_ik_to_custom_ring = dr'\<rparr>,
          ik', xp', hdr_out', data_out', ik_stats')))"

section \<open>Raw packets\<close>

definition raw_to_data :: "axi4s \<Rightarrow> axi_data" where
  "raw_to_data w = \<lparr>ad_data = mx_data w, ad_keep = mx_keep w, ad_last = mx_last w\<rparr>"

record passthrough_wrapper =
  pw_drop :: bool
  pw_state :: idle_stream
  pw_length :: "16 word"
  pw_mlx_metadata :: mlx_metadata

definition generate_metadata :: "16 word \<Rightarrow> metadata" where
  "generate_metadata l = (metadata_from_int 0)\<lparr>pkt_type := PKT_TYPE_RAW, len := push_bit 5 l\<rparr>"

type_synonym pw_sys =
  "passthrough_wrapper \<times> mlx_stream \<times> bool hls_stream \<times> metadata hls_stream \<times> data_stream"

definition passthrough_wrapper_step :: "pw_sys \<Rightarrow> pw_sys" where
  "passthrough_wrapper_step s = (case s of (st, inp, pass_stream, hdr_out, data_out) \<Rightarrow>
     (case pw_state st of
        IDLE \<Rightarrow>
          if s_empty pass_stream \<or> s_empty inp \<or> s_full hdr_out \<or> s_full data_out then s
          else
            (let (pass, ps') = s_read pass_stream;
                 (word, inp') = s_read inp;
                 st1 = st\<lparr>pw_drop := \<not> pass, pw_state := (if mx_last word then IDLE else STREAMING)\<rparr>
             in if pass then
                  (st1\<lparr>pw_mlx_metadata := \<lparr>mm_user = mx_user word, mm_id = mx_id word\<rparr>, pw_length := 1\<rparr>, inp', ps',
                   if mx_last word then s_write_nb (generate_metadata 1) hdr_out else hdr_out,
                   s_write_nb (raw_to_data word) data_out)
                else (st1, inp', ps', hdr_out, data_out))
      | STREAMING \<Rightarrow>
          if s_empty inp \<or> s_full data_out \<or> s_full hdr_out then s
          else
            (let (word, inp') = s_read inp;
                 st1 = st\<lparr>pw_length := pw_length st + 1, pw_state := (if mx_last word then IDLE else STREAMING)\<rparr>
             in if \<not> pw_drop st then
                  (st1, inp', pass_stream,
                   if mx_last word then s_write_nb (generate_metadata (pw_length st1)) hdr_out else hdr_out,
                   s_write_nb (raw_to_data word) data_out)
                else (st1, inp', pass_stream, hdr_out, data_out))))"

section \<open>The pipeline of a direction\<close>

text \<open>\<open>'w\<close> is the state of a wrapper; the wrapper's step is an argument, since the net direction has the custom ring.\<close>

record ('h, 'e, 'w, 's, 'm) nica_state =
  ns_udp :: "('h, 'e) udp"
  ns_wrappers :: "'w list"
  ns_ports :: "xbar_port list"
  ns_demux :: demultiplexor
  ns_arb :: "'s arbiter"
  ns_builder :: "'m udp_builder"
  ns_ethernet_pad :: "6 word"
  ns_dropper :: passthrough_wrapper
  raw_in_to_udp :: mlx_stream
  raw_in_to_dropper :: mlx_stream
  raw_builder_to_pad :: mlx_stream
  bool_pass_from_steering :: "bool hls_stream"
  hdr_ik_to_demux :: "metadata hls_stream"
  hdr_arbiter_to_builder :: "metadata hls_stream"
  data_ik_to_demux :: data_stream
  data_arbiter_to_builder :: data_stream

record nica_pipeline_stats =
  ps_udp :: hds_stats
  ps_arbiter :: arbiter_stats
  ps_ik :: "32 word list"

record ('h, 'e, 's, 'm) nica_ops =
  no_rx :: "('h, 'e) ntl_rx_ops"
  no_junk :: header_buffer
  no_sched :: "'s sched_ops"
  no_reorder :: "'m reorder_op"

record nica_cmds =
  nc_enable :: bool
  nc_flow_table :: gw_cmd
  nc_arbiter :: gw_cmd

text \<open>The wrappers run one after the other on the shared streams to the demultiplexor.\<close>

fun run_wrappers ::
  "('w \<Rightarrow> wrap_io \<Rightarrow> 'w \<times> wrap_io) \<Rightarrow> ('w \<times> pipeline_ports \<times> xbar_port \<times> 32 word) list \<Rightarrow>
   metadata hls_stream \<Rightarrow> data_stream \<Rightarrow>
   ('w \<times> pipeline_ports \<times> xbar_port \<times> 32 word) list \<times> metadata hls_stream \<times> data_stream" where
  "run_wrappers f [] h d = ([], h, d)"
| "run_wrappers f ((w, ik, xp, c) # xs) h d =
     (let (w', ik', xp', h', d', c') = f w (ik, xp, h, d, c);
          (ys, h'', d'') = run_wrappers f xs h' d'
      in ((w', ik', xp', c') # ys, h'', d''))"

definition nica_step ::
  "('h, 'e, 's, 'm) nica_ops \<Rightarrow> ('w \<Rightarrow> wrap_io \<Rightarrow> 'w \<times> wrap_io) \<Rightarrow> nica_cmds \<Rightarrow>
   ('h, 'e, 'w, 's, 'm) nica_state \<Rightarrow> mlx_stream \<Rightarrow> mlx_stream \<Rightarrow> nica_pipeline_stats \<Rightarrow>
   pipeline_ports list \<Rightarrow> tc_port list \<Rightarrow> tc_port list \<Rightarrow>
   ('h, 'e, 'w, 's, 'm) nica_state \<times> mlx_stream \<times> mlx_stream \<times> nica_pipeline_stats \<times>
   bool list \<times> pipeline_ports list \<times> tc_port list \<times> tc_port list" where
  "nica_step ops wrap cfg n port2sbu sbu2port st iks tc_out tc_in =
     (let (p2s, ru, rd) = dup2 port2sbu (raw_in_to_udp n) (raw_in_to_dropper n);
          (u, ru', ports, bp, ustats) =
            udp_step (no_rx ops) (no_junk ops) (nc_enable cfg) (nc_flow_table cfg) (ns_udp n) ru (ns_ports n)
              (bool_pass_from_steering n) (ps_udp st);
          last_tc = tc_out ! (NUM_TC - 1);
          (dr, rd', bp', hm, hd) =
            passthrough_wrapper_step (ns_dropper n, rd, bp, tp_meta last_tc, tp_data last_tc);
          tc1 = tc_out[NUM_TC - 1 := last_tc\<lparr>tp_meta := hm, tp_data := hd\<rparr>];
          (ws, hd1, dd1) =
            run_wrappers wrap (zip (ns_wrappers n) (zip iks (zip ports (ps_ik st))))
              (hdr_ik_to_demux n) (data_ik_to_demux n);
          (dx, hd2, dd2, tc2) = demux (ns_demux n, hd1, dd1, tc1);
          (ab, tcin', ha, da, astats, events) =
            arbiter_step (no_sched ops) (nc_arbiter cfg) (ns_arb n) tc_in (hdr_arbiter_to_builder n)
              (data_arbiter_to_builder n) (ps_arbiter st);
          (bd, ha', da', rb) =
            builder_step (ntl_keep_bytes (no_rx ops)) (no_reorder ops) (ns_builder n) ha da (raw_builder_to_pad n);
          (bc, rb', s2p) = ethernet_padding_pad (ns_ethernet_pad n) rb sbu2port
      in (\<lparr>ns_udp = u, ns_wrappers = map fst ws, ns_ports = map (\<lambda>(_, _, xp, _). xp) ws, ns_demux = dx,
           ns_arb = ab, ns_builder = bd, ns_ethernet_pad = bc, ns_dropper = dr, raw_in_to_udp = ru',
           raw_in_to_dropper = rd', raw_builder_to_pad = rb', bool_pass_from_steering = bp',
           hdr_ik_to_demux = hd2, hdr_arbiter_to_builder = ha', data_ik_to_demux = dd2,
           data_arbiter_to_builder = da'\<rparr>,
          p2s, s2p, \<lparr>ps_udp = ustats, ps_arbiter = astats, ps_ik = map (\<lambda>(_, _, _, c). c) ws\<rparr>,
          events, map (\<lambda>(_, ik, _, _). ik) ws, tc2, tcin'))"

section \<open>Links to the ikernels and the two directions\<close>

record link_pipe =
  lp_metadata_input :: "metadata link_reg"
  lp_data_input :: "axi_data link_reg"
  lp_metadata_output :: "metadata link_reg"
  lp_data_output :: "axi_data link_reg"

definition link_pipe_link ::
  "link_pipe \<Rightarrow> pipeline_ports \<Rightarrow> pipeline_ports \<Rightarrow> link_pipe \<times> pipeline_ports \<times> pipeline_ports" where
  "link_pipe_link lp ik_buf ik =
     (let (r1, bmi, imi) = link_with_reg False (lp_metadata_input lp) (metadata_input ik_buf) (metadata_input ik);
          (r2, bdi, idi) = link_with_reg False (lp_data_input lp) (data_input ik_buf) (data_input ik);
          (r3, imo, bmo) = link_with_reg True (lp_metadata_output lp) (metadata_output ik) (metadata_output ik_buf);
          (r4, ido, bdo) = link_with_reg True (lp_data_output lp) (data_output ik) (data_output ik_buf)
      in (\<lparr>lp_metadata_input = r1, lp_data_input = r2, lp_metadata_output = r3, lp_data_output = r4\<rparr>,
          \<lparr>metadata_input = bmi, data_input = bdi, metadata_output = bmo, data_output = bdo\<rparr>,
          \<lparr>metadata_input = imi, data_input = idi, metadata_output = imo, data_output = ido\<rparr>))"

definition link_ports_link ::
  "link_pipe \<times> link_pipe \<Rightarrow> ports \<Rightarrow> ports \<Rightarrow> (link_pipe \<times> link_pipe) \<times> ports \<times> ports" where
  "link_ports_link lps ik_buf ik =
     (let (h, bh, ih) = link_pipe_link (fst lps) (po_host ik_buf) (po_host ik);
          (n, bn, i_n) = link_pipe_link (snd lps) (po_net ik_buf) (po_net ik)
      in ((h, n), \<lparr>po_host = bh, po_net = bn\<rparr>, \<lparr>po_host = ih, po_net = i_n\<rparr>))"

definition link_pipeline_sim :: "pipeline_ports \<Rightarrow> pipeline_ports \<Rightarrow> pipeline_ports \<times> pipeline_ports" where
  "link_pipeline_sim i t =
     (let (imi, tmi) = link_axi_to_fifo (metadata_input i) (metadata_input t);
          (idi, tdi) = link_axi_to_fifo (data_input i) (data_input t);
          (tmo, imo) = link_axi_stream (metadata_output t) (metadata_output i);
          (tdo, ido) = link_axi_stream (data_output t) (data_output i)
      in (\<lparr>metadata_input = imi, data_input = idi, metadata_output = imo, data_output = ido\<rparr>,
          \<lparr>metadata_input = tmi, data_input = tdi, metadata_output = tmo, data_output = tdo\<rparr>))"

text \<open>
  The two directions share the buffered ports of the ikernels, of which each uses its half; then the
  buffers are linked with the ikernels. \<open>FLOW_TABLE_SIZE\<close> is published in the statistics.
\<close>

record nica_io =
  io_prt_nw2sbu :: mlx_stream
  io_sbu2prt_nw :: mlx_stream
  io_prt_cx2sbu :: mlx_stream
  io_sbu2prt_cx :: mlx_stream
  io_stats_n2h :: nica_pipeline_stats
  io_stats_h2n :: nica_pipeline_stats
  io_flow_table_size :: nat
  io_ik :: "ports list"
  io_h2n_tc_out :: "tc_port list"
  io_h2n_tc_in :: "tc_port list"
  io_n2h_tc_out :: "tc_port list"
  io_n2h_tc_in :: "tc_port list"

record ('h, 'e, 'c, 'r, 's, 'm) nica_top =
  nt_n2h :: "('h, 'e, ('c, 'r) ikernel_wrapper_net, 's, 'm) nica_state"
  nt_h2n :: "('h, 'e, 32 word, 's, 'm) nica_state"
  nt_ik_buf :: "ports list"
  nt_linker :: "(link_pipe \<times> link_pipe) list"

definition nica ::
  "('h, 'e, 's, 'm) nica_ops \<Rightarrow> 'r ntl_ring_ops \<Rightarrow> 'c ctx_ops \<Rightarrow> nica_cmds \<Rightarrow> gw_cmd \<Rightarrow> nica_cmds \<Rightarrow>
   ('h, 'e, 'c, 'r, 's, 'm) nica_top \<Rightarrow> nica_io \<Rightarrow> ('h, 'e, 'c, 'r, 's, 'm) nica_top \<times> nica_io \<times> bool list" where
  "nica ops ro co cfg_n2h ring_cmd cfg_h2n t io =
     (let kb = ntl_keep_bytes (no_rx ops);
          (n2h, nw2sbu, sbu2cx, st1, ev1, iks1, n_out, n_in) =
            nica_step ops (ikernel_wrapper_net_step kb ro co ring_cmd) cfg_n2h (nt_n2h t)
              (io_prt_nw2sbu io) (io_sbu2prt_cx io) (io_stats_n2h io) (map po_net (nt_ik_buf t))
              (io_n2h_tc_out io) (io_n2h_tc_in io);
          (h2n, cx2sbu, sbu2nw, st2, ev2, iks2, h_out, h_in) =
            nica_step ops ikernel_wrapper_host cfg_h2n (nt_h2n t)
              (io_prt_cx2sbu io) (io_sbu2prt_nw io) (io_stats_h2n io) (map po_host (nt_ik_buf t))
              (io_h2n_tc_out io) (io_h2n_tc_in io);
          bufs = map2 (\<lambda>h n. \<lparr>po_host = h, po_net = n\<rparr>) iks2 iks1;
          linked = map2 (\<lambda>l (b, ik). link_ports_link l b ik) (nt_linker t) (zip bufs (io_ik io))
      in (\<lparr>nt_n2h = n2h, nt_h2n = h2n, nt_ik_buf = map (\<lambda>(_, b, _). b) linked, nt_linker = map fst linked\<rparr>,
          \<lparr>io_prt_nw2sbu = nw2sbu, io_sbu2prt_nw = sbu2nw, io_prt_cx2sbu = cx2sbu, io_sbu2prt_cx = sbu2cx,
           io_stats_n2h = st1, io_stats_h2n = st2, io_flow_table_size = 2 ^ 10,
           io_ik = map (\<lambda>(_, _, i). i) linked, io_h2n_tc_out = h_out, io_h2n_tc_in = h_in,
           io_n2h_tc_out = n_out, io_n2h_tc_in = n_in\<rparr>, ev1 @ ev2))"

section \<open>Facts\<close>

lemma header_to_metadata_fields:
  "get_packet_metadata (header_to_metadata buf r) =
     (let hdr = header_parser_of_buffer buf in
      \<lparr>eth_dst = eh_dest (hp_eth hdr), eth_src = eh_source (hp_eth hdr), ip_dst = ih_daddr (hp_ip hdr),
       ip_src = ih_saddr (hp_ip hdr), udp_dst = uh_dest (hp_udp hdr), udp_src = uh_source (hp_udp hdr)\<rparr>)"
  "len (header_to_metadata buf r) = uh_length (hp_udp (header_parser_of_buffer buf)) - 8"
  "ring_id (header_to_metadata buf r) = 0" "metadata_verify (header_to_metadata buf r)"
proof -
  have r0: "ring_id (metadata_from_int 0) = 0"
    by (simp add: metadata_from_int_def ap_range_def)
  have eight: "(64 div 8 :: 16 word) = 8" by code_simp
  show "len (header_to_metadata buf r) = uh_length (hp_udp (header_parser_of_buffer buf)) - 8"
    by (simp add: header_to_metadata_def Let_def header_parser_of_buffer_eq eight)
  show "ring_id (header_to_metadata buf r) = 0" "metadata_verify (header_to_metadata buf r)"
    by (simp_all add: header_to_metadata_def Let_def set_packet_metadata_def r0 metadata_verify_iff)
qed (simp add: header_to_metadata_def Let_def set_packet_metadata_def get_packet_metadata_def
    header_parser_of_buffer_eq)

text \<open>What the raw path puts out: the mode is the decision and the words counted so far.\<close>

definition pw_emit :: "bool \<Rightarrow> 16 word \<Rightarrow> axi4s \<Rightarrow> metadata list \<times> axi_data list \<Rightarrow> metadata list \<times> axi_data list" where
  "pw_emit d l w r =
     (if d then ((if mx_last w then [generate_metadata l] else []) @ fst r, raw_to_data w # snd r) else r)"

fun pw_run :: "(bool \<times> 16 word) option \<Rightarrow> bool list \<Rightarrow> axi4s list \<Rightarrow> metadata list \<times> axi_data list" where
  "pw_run m ds [] = ([], [])"
| "pw_run None [] (w # ws) = ([], [])"
| "pw_run None (d # ds) (w # ws) = pw_emit d 1 w (pw_run (if mx_last w then None else Some (d, 1)) ds ws)"
| "pw_run (Some (d, l)) ds (w # ws) =
     pw_emit d (l + 1) w (pw_run (if mx_last w then None else Some (d, l + 1)) ds ws)"

definition pw_owed :: "pw_sys \<Rightarrow> metadata list \<times> axi_data list" where
  "pw_owed s = (case s of (st, inp, ps, ho, dt) \<Rightarrow>
     pw_run (case pw_state st of IDLE \<Rightarrow> None | STREAMING \<Rightarrow> Some (\<not> pw_drop st, pw_length st)) (que ps) (que inp))"

definition pw_hdrs :: "pw_sys \<Rightarrow> metadata list" where
  "pw_hdrs s = (case s of (st, inp, ps, ho, dt) \<Rightarrow> que ho)"

definition pw_data :: "pw_sys \<Rightarrow> axi_data list" where
  "pw_data s = (case s of (st, inp, ps, ho, dt) \<Rightarrow> que dt)"

definition pw_work :: "pw_sys \<Rightarrow> nat" where
  "pw_work s = (case s of (st, inp, ps, ho, dt) \<Rightarrow> length (que inp))"

definition pw_ready :: "pw_sys \<Rightarrow> bool" where
  "pw_ready s = (case s of (st, inp, ps, ho, dt) \<Rightarrow> depth ho = None \<and> depth dt = None)"

lemmas pw_defs = passthrough_wrapper_step_def pw_owed_def pw_hdrs_def pw_data_def pw_work_def pw_ready_def

lemma pw_run_drop: "pw_run (Some (False, l)) ds ws = pw_run (Some (False, k)) ds ws"
  by (induction ws arbitrary: l k) (auto simp: pw_emit_def)

lemma pw_conserve:
  "pw_hdrs (passthrough_wrapper_step s) @ fst (pw_owed (passthrough_wrapper_step s)) = pw_hdrs s @ fst (pw_owed s)"
  "pw_data (passthrough_wrapper_step s) @ snd (pw_owed (passthrough_wrapper_step s)) = pw_data s @ snd (pw_owed s)"
proof -
  obtain st inp ps ho dt where s: "s = (st, inp, ps, ho, dt)" by (cases s)
  have drp: "pw_run (Some (False, pw_length st)) ds ws = pw_run (Some (False, 1)) ds ws" for ds ws
    by (rule pw_run_drop)
  have "pw_hdrs (passthrough_wrapper_step s) @ fst (pw_owed (passthrough_wrapper_step s)) = pw_hdrs s @ fst (pw_owed s) \<and>
      pw_data (passthrough_wrapper_step s) @ snd (pw_owed (passthrough_wrapper_step s)) = pw_data s @ snd (pw_owed s)"
  proof (cases "pw_state st")
    case IDLE
    then show ?thesis unfolding s by (cases "que inp"; cases "que ps")
        (auto simp: pw_defs stream_defs Let_def pw_emit_def drp)
  next
    case STREAMING
    then show ?thesis unfolding s by (cases "que inp")
        (auto simp: pw_defs stream_defs Let_def pw_emit_def)
  qed
  then show "pw_hdrs (passthrough_wrapper_step s) @ fst (pw_owed (passthrough_wrapper_step s)) = pw_hdrs s @ fst (pw_owed s)"
    "pw_data (passthrough_wrapper_step s) @ snd (pw_owed (passthrough_wrapper_step s)) = pw_data s @ snd (pw_owed s)"
    by blast+
qed

lemma pw_live:
  assumes "pw_ready s"
  shows "pw_ready (passthrough_wrapper_step s)"
    and "pw_owed s \<noteq> ([], []) \<Longrightarrow> pw_work (passthrough_wrapper_step s) < pw_work s"
proof -
  obtain st inp ps ho dt where s: "s = (st, inp, ps, ho, dt)" by (cases s)
  show "pw_ready (passthrough_wrapper_step s)"
    using assms unfolding s by (cases "pw_state st") (auto simp: pw_defs stream_defs Let_def)
  show "pw_work (passthrough_wrapper_step s) < pw_work s" if "pw_owed s \<noteq> ([], [])"
    using assms that unfolding s by (cases "pw_state st"; cases "que inp"; cases "que ps")
      (auto simp: pw_defs stream_defs Let_def)
qed

interpretation pw: stage2 passthrough_wrapper_step pw_hdrs pw_data pw_owed pw_work pw_ready
  by unfold_locales (simp_all add: pw_conserve pw_live)

section \<open>Packets\<close>

definition raw_metadata :: "axi4s list \<Rightarrow> metadata" where
  "raw_metadata p = generate_metadata (of_nat (length p))"

lemma pw_run_stream:
  assumes "is_packet mx_last p"
  shows "pw_run (Some (d, l)) ds (p @ ws) =
    (if d then (generate_metadata (l + of_nat (length p)) # fst (pw_run None ds ws),
                map raw_to_data p @ snd (pw_run None ds ws))
     else pw_run None ds ws)"
  using assms
proof (induction p arbitrary: l)
  case Nil
  then show ?case by simp
next
  case (Cons w p)
  then show ?case by (auto simp: is_packet_Cons pw_emit_def add.assoc split: if_splits)
qed

lemma pw_run_packets:
  assumes "list_all (is_packet mx_last) pkts" "length ds = length pkts"
  shows "pw_run None ds (concat pkts) =
    (map raw_metadata (passed_packets ds pkts), map raw_to_data (concat (passed_packets ds pkts)))"
  using assms
proof (induction pkts arbitrary: ds)
  case Nil
  then show ?case by (simp add: passed_packets_def)
next
  case (Cons p pkts)
  obtain d es where ds: "ds = d # es" using Cons.prems by (cases ds) auto
  obtain w ws where p: "p = w # ws" using Cons.prems(1) by (cases p) auto
  have IH: "pw_run None es (concat pkts) =
      (map raw_metadata (passed_packets es pkts), map raw_to_data (concat (passed_packets es pkts)))"
    using Cons ds by simp
  show ?case
  proof (cases "ws = []")
    case True
    then have "mx_last w" using Cons.prems(1) p by (simp add: is_packet_Cons)
    with True show ?thesis using IH by (simp add: ds p pw_emit_def passed_packets_def raw_metadata_def)
  next
    case False
    then have "\<not> mx_last w" "is_packet mx_last ws" using Cons.prems(1) p by (simp_all add: is_packet_Cons)
    with False show ?thesis using IH
      by (simp add: ds p pw_emit_def passed_packets_def raw_metadata_def pw_run_stream)
  qed
qed

section \<open>Properties\<close>

text \<open>
  C30: The raw path is exact. On the words of a sequence of packets with one decision each, and outputs that accept words,
  the passthrough unit puts out within a bounded number of clocks exactly the packets with a positive
  decision, in order and unchanged, and for each of them one raw metadata entry with the packet's
  length in words times 32.
\<close>

theorem raw_path_exact:
  assumes "list_all (is_packet mx_last) pkts" "length (que ps) = length pkts" "que inp = concat pkts"
    and "pw_state st = IDLE" "depth ho = None" "depth dt = None"
  shows "\<exists>n \<le> length (concat pkts).
    pw_hdrs ((passthrough_wrapper_step ^^ n) (st, inp, ps, ho, dt)) =
      que ho @ map raw_metadata (passed_packets (que ps) pkts) \<and>
    pw_data ((passthrough_wrapper_step ^^ n) (st, inp, ps, ho, dt)) =
      que dt @ map raw_to_data (concat (passed_packets (que ps) pkts))"
proof -
  let ?s = "(st, inp, ps, ho, dt)"
  have "pw_ready ?s" using assms by (simp add: pw_ready_def)
  then show ?thesis
    using pw.drains2 [of ?s] pw_run_packets [OF assms(1,2)] assms
    by (simp add: pw_work_def pw_owed_def pw_hdrs_def pw_data_def) blast
qed

definition demo_beat :: "256 word \<Rightarrow> bool \<Rightarrow> axi4s" where
  "demo_beat d l = \<lparr>mx_data = d, mx_keep = -1, mx_last = l, mx_user = 0, mx_id = 0\<rparr>"

lemma raw_path_exact_witness:
  "\<exists>n. pw_data ((passthrough_wrapper_step ^^ n)
      (\<lparr>pw_drop = False, pw_state = IDLE, pw_length = 0, pw_mlx_metadata = \<lparr>mm_user = 0, mm_id = 0\<rparr>\<rparr>,
       \<lparr>depth = None, que = [demo_beat 1 True, demo_beat 2 False, demo_beat 3 True]\<rparr>,
       \<lparr>depth = None, que = [False, True]\<rparr>, s_new None, s_new None)) =
     [raw_to_data (demo_beat 2 False), raw_to_data (demo_beat 3 True)]"
  using raw_path_exact [of "[[demo_beat 1 True], [demo_beat 2 False, demo_beat 3 True]]"
      "\<lparr>depth = None, que = [False, True]\<rparr>"
      "\<lparr>depth = None, que = [demo_beat 1 True, demo_beat 2 False, demo_beat 3 True]\<rparr>"
      "\<lparr>pw_drop = False, pw_state = IDLE, pw_length = 0, pw_mlx_metadata = \<lparr>mm_user = 0, mm_id = 0\<rparr>\<rparr>"
      "s_new None" "s_new None"]
  by (auto simp: is_packet_Cons demo_beat_def passed_packets_def s_new_def)

text \<open>
  Metadata survives the wire. The metadata that the receive path derives from the headers that the
  transmit path generates has the same addresses, ports, IP identification and length as the metadata that was
  sent, for every length, and it carries the flow and ikernel identifiers of the flow table's result.
\<close>

lemma header_metadata_roundtrip:
  assumes "m' = header_to_metadata (header_buffer_of_parser (metadata_to_header m)) r"
  shows "get_packet_metadata m' = get_packet_metadata m \<and> len m' = len m \<and>
    ip_identification m' = ip_identification m \<and> ring_id m' = 0 \<and> metadata_verify m' \<and>
    flow_id m' = fr_flow_id r \<and> ikernel_id m' = ft_ikernel_id (fr_v r)"
proof -
  let ?b = "header_buffer_of_parser (metadata_to_header m)"
  have "get_packet_metadata m' = get_packet_metadata m"
    by (simp add: assms header_to_metadata_fields(1)) (simp add: metadata_to_header_def Let_def)
  moreover have "len m' = len m"
    by (simp add: assms header_to_metadata_fields(2) header_length_fields)
  moreover have "ip_identification m' = ip_identification m"
    by (simp add: assms header_to_metadata_def Let_def header_buffer_of_parser_def hp.from_to)
      (simp add: metadata_to_header_def Let_def)
  moreover have "flow_id m' = fr_flow_id r" "ikernel_id m' = ft_ikernel_id (fr_v r)"
    by (simp_all add: assms header_to_metadata_def Let_def)
  ultimately show ?thesis using header_to_metadata_fields(3,4) [of ?b r] assms by simp
qed

end
