(* ===== verification/Heap.thy ===== *)
theory Heap
  imports Main "HOL-Library.Multiset"
begin

text \<open>
  The bounded min-heap of \<open>src/ikernels/hls/heap.hpp\<close>: an array of fixed capacity of which the first \<open>_size\<close>
  elements are in use. The element type is any linear order. The indices of the source are unsigned
  and stay far below their width, so they are natural numbers; \<open>parent\<close> and \<open>child\<close> return \<open>None\<close> where the
  source returns -1. \<open>parent\<close> of index 0 computes \<open>(int)(0u - 1) / 2\<close>, which is 0 in the source and in the
  truncated subtraction used here.
\<close>

record 'a heap =
  hp_data :: "'a list"
  hp_size :: nat

definition heap_empty :: "'a list \<Rightarrow> 'a heap" where
  "heap_empty d = \<lparr>hp_data = d, hp_size = 0\<rparr>"

definition isEmpty :: "'a heap \<Rightarrow> bool" where
  "isEmpty h \<longleftrightarrow> hp_size h = 0"

definition getItem :: "'a heap \<Rightarrow> nat \<Rightarrow> 'a" where
  "getItem h idx = hp_data h ! idx"

definition heap_parent :: "nat \<Rightarrow> nat \<Rightarrow> nat option" where
  "heap_parent n idx = (if n \<le> 1 then None else Some ((idx - 1) div 2))"

definition heap_child :: "nat \<Rightarrow> nat \<Rightarrow> nat option" where
  "heap_child n idx = (if n \<le> 1 \<or> n \<le> 2 * idx + 1 then None else Some (2 * idx + 1))"

definition swap_at :: "nat \<Rightarrow> nat \<Rightarrow> 'a list \<Rightarrow> 'a list" where
  "swap_at i j d = d[i := d ! j, j := d ! i]"

definition getMinIdx :: "'a::linorder list \<Rightarrow> nat \<Rightarrow> nat \<Rightarrow> nat \<Rightarrow> nat \<Rightarrow> nat" where
  "getMinIdx d n a b c =
     (let isLeftSmaller = (d ! a < d ! b)
      in if n \<le> c then (if isLeftSmaller then a else b)
         else if isLeftSmaller then (if d ! a < d ! c then a else c)
         else (if d ! b < d ! c then b else c))"

function bubbleUp :: "nat \<Rightarrow> nat \<Rightarrow> 'a::linorder list \<Rightarrow> 'a list \<times> nat" where
  "bubbleUp n idx d =
     (case heap_parent n idx of
        None \<Rightarrow> (d, idx)
      | Some p \<Rightarrow> if d ! p > d ! idx then bubbleUp n p (swap_at p idx d) else (d, idx))"
  by pat_completeness auto
termination
proof (relation "measure (\<lambda>(n, idx, d). idx)", goal_cases)
  case 1
  then show ?case by simp
next
  case (2 n idx d p)
  then show ?case by (cases idx) (auto simp: heap_parent_def split: if_splits)
qed

lemma getMinIdx_cases:
  "getMinIdx d n a b c = a \<or> getMinIdx d n a b c = b \<or> getMinIdx d n a b c = c \<and> c < n"
  by (auto simp: getMinIdx_def Let_def)

function bubbleDown :: "nat \<Rightarrow> nat \<Rightarrow> 'a::linorder list \<Rightarrow> 'a list \<times> nat" where
  "bubbleDown n idx d =
     (case heap_child n idx of
        None \<Rightarrow> (d, idx)
      | Some c \<Rightarrow>
          (let m = getMinIdx d n idx c (c + 1)
           in if m \<noteq> idx then bubbleDown n m (swap_at m idx d) else (d, idx)))"
  by pat_completeness auto
termination
proof (relation "measure (\<lambda>(n, idx, d). n - idx)", goal_cases)
  case 1
  then show ?case by simp
next
  case (2 n idx d c m)
  then show ?case using getMinIdx_cases [of d n idx c "c + 1"]
    by (auto simp: heap_child_def split: if_splits)
qed

declare bubbleUp.simps [simp del] bubbleDown.simps [simp del]

definition heap_insert :: "'a::linorder \<Rightarrow> 'a heap \<Rightarrow> nat \<times> 'a heap" where
  "heap_insert val h =
     (if hp_size h \<ge> length (hp_data h)
      then (let (d, i) = bubbleDown (hp_size h) 0 ((hp_data h)[0 := val]) in (i, h\<lparr>hp_data := d\<rparr>))
      else (let n = hp_size h + 1;
                (d, i) = bubbleUp n (n - 1) ((hp_data h)[hp_size h := val])
            in (i, h\<lparr>hp_data := d, hp_size := n\<rparr>)))"

definition heap_update :: "nat \<Rightarrow> 'a::linorder \<Rightarrow> 'a heap \<Rightarrow> nat \<times> 'a heap" where
  "heap_update idx newVal h =
     (let oldVal = hp_data h ! idx;
          d0 = (hp_data h)[idx := newVal];
          (d, i) = (if oldVal < newVal then bubbleDown (hp_size h) idx d0 else bubbleUp (hp_size h) idx d0)
      in (i, h\<lparr>hp_data := d\<rparr>))"

definition extractMin :: "'a::linorder heap \<Rightarrow> 'a \<times> 'a heap" where
  "extractMin h =
     (let mn = hp_data h ! 0;
          d0 = (hp_data h)[0 := hp_data h ! (hp_size h - 1)];
          n = hp_size h - 1;
          (d, _) = bubbleDown n 0 d0
      in (mn, h\<lparr>hp_data := d, hp_size := n\<rparr>))"

definition heap_peek :: "'a heap \<Rightarrow> 'a" where
  "heap_peek h = hp_data h ! 0"

section \<open>The contract of a priority queue\<close>

text \<open>
  What a client relies on: the contents are a multiset, extraction returns and removes a minimum.
  The client's theorem is that extracting everything sorts.
\<close>

locale priority_queue =
  fixes contents :: "'q \<Rightarrow> 'a::linorder multiset"
    and ok :: "'q \<Rightarrow> bool"
    and room :: "'q \<Rightarrow> bool"
    and put :: "'a \<Rightarrow> 'q \<Rightarrow> 'q"
    and take_min :: "'q \<Rightarrow> 'a \<times> 'q"
  assumes put_ok: "ok q \<Longrightarrow> room q \<Longrightarrow> ok (put x q)"
    and put_contents: "ok q \<Longrightarrow> room q \<Longrightarrow> contents (put x q) = add_mset x (contents q)"
    and take_ok: "ok q \<Longrightarrow> contents q \<noteq> {#} \<Longrightarrow> ok (snd (take_min q))"
    and take_contents: "ok q \<Longrightarrow> contents q \<noteq> {#} \<Longrightarrow>
      contents q = add_mset (fst (take_min q)) (contents (snd (take_min q)))"
    and take_least: "ok q \<Longrightarrow> contents q \<noteq> {#} \<Longrightarrow> x \<in># contents q \<Longrightarrow> fst (take_min q) \<le> x"
begin

fun take_n :: "nat \<Rightarrow> 'q \<Rightarrow> 'a list" where
  "take_n 0 q = []"
| "take_n (Suc n) q = (let (x, q') = take_min q in x # take_n n q')"

theorem take_n_sorts:
  assumes "ok q" "n = size (contents q)"
  shows "mset (take_n n q) = contents q \<and> sorted (take_n n q)"
  using assms
proof (induction n arbitrary: q)
  case 0
  then show ?case by simp
next
  case (Suc n)
  then have ne: "contents q \<noteq> {#}" by auto
  obtain x q' where t: "take_min q = (x, q')" by (cases "take_min q")
  have q': "ok q'" "contents q = add_mset x (contents q')"
    using take_ok take_contents Suc.prems(1) ne t by fastforce+
  then have IH: "mset (take_n n q') = contents q' \<and> sorted (take_n n q')"
    using Suc by simp
  moreover have "\<forall>y \<in># contents q'. x \<le> y"
    using take_least [OF Suc.prems(1) ne] t q'(2) by auto
  ultimately show ?case using t q'(2) by (simp flip: set_mset_mset)
qed

end

section \<open>The heap order\<close>

definition heap_ordered :: "nat \<Rightarrow> 'a::linorder list \<Rightarrow> bool" where
  "heap_ordered n d \<longleftrightarrow> (\<forall>i. 0 < i \<and> i < n \<longrightarrow> d ! ((i - 1) div 2) \<le> d ! i)"

text \<open>The order holds except that the element at \<open>k\<close> may be too small, or too large.\<close>

definition up_ordered :: "nat \<Rightarrow> nat \<Rightarrow> 'a::linorder list \<Rightarrow> bool" where
  "up_ordered n k d \<longleftrightarrow>
     (\<forall>i. 0 < i \<and> i < n \<and> i \<noteq> k \<longrightarrow> d ! ((i - 1) div 2) \<le> d ! i) \<and>
     (\<forall>i. 0 < i \<and> i < n \<and> (i - 1) div 2 = k \<and> 0 < k \<longrightarrow> d ! ((k - 1) div 2) \<le> d ! i)"

definition down_ordered :: "nat \<Rightarrow> nat \<Rightarrow> 'a::linorder list \<Rightarrow> bool" where
  "down_ordered n k d \<longleftrightarrow>
     (\<forall>i. 0 < i \<and> i < n \<and> (i - 1) div 2 \<noteq> k \<longrightarrow> d ! ((i - 1) div 2) \<le> d ! i) \<and>
     (\<forall>i. 0 < i \<and> i < n \<and> (i - 1) div 2 = k \<and> 0 < k \<longrightarrow> d ! ((k - 1) div 2) \<le> d ! i)"

definition in_use :: "nat \<Rightarrow> 'a list \<Rightarrow> 'a multiset" where
  "in_use n d = mset (take n d)"

lemma length_swap_at [simp]: "length (swap_at i j d) = length d"
  by (simp add: swap_at_def)

lemma nth_swap_at:
  "i < length d \<Longrightarrow> j < length d \<Longrightarrow>
   swap_at i j d ! k = (if k = i then d ! j else if k = j then d ! i else d ! k)"
  by (auto simp: swap_at_def nth_list_update)

lemma in_use_swap:
  assumes "i < n" "j < n" "n \<le> length d"
  shows "in_use n (swap_at i j d) = in_use n d"
proof -
  have "take n (swap_at i j d) = (take n d)[i := take n d ! j, j := take n d ! i]"
    using assms by (simp add: swap_at_def take_update_swap)
  moreover have "mset ((take n d)[i := take n d ! j, j := take n d ! i]) = mset (take n d)"
    using assms by (intro mset_swap) auto
  ultimately show ?thesis by (simp add: in_use_def)
qed

lemma heap_root_least:
  assumes "heap_ordered n d" "i < n"
  shows "d ! 0 \<le> d ! i"
  using assms(2)
proof (induction i rule: less_induct)
  case (less i)
  show ?case
  proof (cases "i = 0")
    case False
    then have "(i - 1) div 2 < i" by simp
    then have "d ! 0 \<le> d ! ((i - 1) div 2)" using less by auto
    also have "\<dots> \<le> d ! i" using assms(1) False less.prems by (simp add: heap_ordered_def)
    finally show ?thesis .
  qed simp
qed

lemma up_ordered_done:
  assumes "up_ordered n k d" "k = 0 \<or> d ! ((k - 1) div 2) \<le> d ! k"
  shows "heap_ordered n d"
  unfolding heap_ordered_def
proof (intro allI impI)
  fix i assume "0 < i \<and> i < n"
  then show "d ! ((i - 1) div 2) \<le> d ! i"
    using assms by (cases "i = k") (auto simp: up_ordered_def)
qed

lemma up_ordered_step:
  assumes "up_ordered n k d" "0 < k" "k < n" "n \<le> length d" "d ! ((k - 1) div 2) > d ! k"
  shows "up_ordered n ((k - 1) div 2) (swap_at ((k - 1) div 2) k d)"
proof -
  define p where "p = (k - 1) div 2"
  have pk: "p < k" using assms(2) by (simp add: p_def)
  have nth: "swap_at p k d ! i = (if i = p then d ! k else if i = k then d ! p else d ! i)" for i
    using assms pk by (intro nth_swap_at) auto
  have others: "d ! ((i - 1) div 2) \<le> d ! i" if "0 < i" "i < n" "i \<noteq> k" for i
    using assms(1) that by (simp add: up_ordered_def)
  have kids: "d ! p \<le> d ! i" if "0 < i" "i < n" "(i - 1) div 2 = k" for i
    using assms(1,2) that by (simp add: up_ordered_def p_def)
  have gt: "d ! k < d ! p" using assms(5) by (simp add: p_def)
  have first: "swap_at p k d ! ((i - 1) div 2) \<le> swap_at p k d ! i" if i: "0 < i" "i < n" "i \<noteq> p" for i
  proof -
    consider "i = k" | "i \<noteq> k" "(i - 1) div 2 = k" | "i \<noteq> k" "(i - 1) div 2 = p"
      | "i \<noteq> k" "(i - 1) div 2 \<noteq> k" "(i - 1) div 2 \<noteq> p" by blast
    then show ?thesis
    proof cases
      case 1
      then have "(i - 1) div 2 = p" by (simp add: p_def)
      with 1 show ?thesis using gt pk by (simp add: nth)
    next
      case 2
      then show ?thesis using kids i pk by (auto simp: nth)
    next
      case 3
      then show ?thesis using others [OF i(1,2)] i gt by (auto simp: nth)
    next
      case 4
      then show ?thesis using others [OF i(1,2)] i by (auto simp: nth)
    qed
  qed
  have second: "swap_at p k d ! ((p - 1) div 2) \<le> swap_at p k d ! i"
    if i: "0 < i" "i < n" "(i - 1) div 2 = p" "0 < p" for i
  proof -
    have "(p - 1) div 2 \<noteq> p" "(p - 1) div 2 \<noteq> k" using i(4) pk by auto
    then have "swap_at p k d ! ((p - 1) div 2) = d ! ((p - 1) div 2)" by (simp add: nth)
    moreover have a: "d ! ((p - 1) div 2) \<le> d ! p" using others [of p] i pk assms(3) by auto
    moreover have "i = k \<or> d ! p \<le> d ! i" using others [OF i(1,2)] i(3) by auto
    moreover have "i \<noteq> p" using i by auto
    ultimately show ?thesis by (auto simp: nth)
  qed
  show ?thesis unfolding p_def [symmetric] up_ordered_def using first second by blast
qed

lemma down_ordered_done:
  assumes "down_ordered n k d" "\<And>i. 0 < i \<Longrightarrow> i < n \<Longrightarrow> (i - 1) div 2 = k \<Longrightarrow> d ! k \<le> d ! i"
  shows "heap_ordered n d"
  unfolding heap_ordered_def
proof (intro allI impI)
  fix i assume "0 < i \<and> i < n"
  then show "d ! ((i - 1) div 2) \<le> d ! i"
    using assms by (cases "(i - 1) div 2 = k") (auto simp: down_ordered_def)
qed

lemma down_ordered_step:
  assumes "down_ordered n k d" "0 < m" "m < n" "(m - 1) div 2 = k" "n \<le> length d"
    and least: "\<And>i. 0 < i \<Longrightarrow> i < n \<Longrightarrow> (i - 1) div 2 = k \<Longrightarrow> d ! m \<le> d ! i"
    and le: "d ! m \<le> d ! k"
  shows "down_ordered n m (swap_at m k d)"
proof -
  have km: "k < m" using assms(2,4) by auto
  have nth: "swap_at m k d ! i = (if i = m then d ! k else if i = k then d ! m else d ! i)" for i
    using assms km by (intro nth_swap_at) auto
  have others: "d ! ((i - 1) div 2) \<le> d ! i" if "0 < i" "i < n" "(i - 1) div 2 \<noteq> k" for i
    using assms(1) that by (simp add: down_ordered_def)
  have kids: "d ! ((k - 1) div 2) \<le> d ! i" if "0 < i" "i < n" "(i - 1) div 2 = k" "0 < k" for i
    using assms(1) that by (simp add: down_ordered_def)
  have first: "swap_at m k d ! ((i - 1) div 2) \<le> swap_at m k d ! i"
    if i: "0 < i" "i < n" "(i - 1) div 2 \<noteq> m" for i
  proof -
    consider "(i - 1) div 2 = k" "i = m" | "(i - 1) div 2 = k" "i \<noteq> m" | "(i - 1) div 2 \<noteq> k" "i = k"
      | "(i - 1) div 2 \<noteq> k" "i \<noteq> k" by blast
    then show ?thesis
    proof cases
      case 1
      then show ?thesis using km le by (auto simp: nth)
    next
      case 2
      moreover have "i \<noteq> k" using i 2 by auto
      ultimately show ?thesis using least [OF i(1,2)] i km by (auto simp: nth)
    next
      case 3
      then show ?thesis using kids [OF assms(2,3,4)] i km by (auto simp: nth)
    next
      case 4
      moreover have "i \<noteq> m" using 4 assms(4) by auto
      ultimately show ?thesis using others [OF i(1,2)] i by (auto simp: nth)
    qed
  qed
  have second: "swap_at m k d ! ((m - 1) div 2) \<le> swap_at m k d ! i"
    if i: "0 < i" "i < n" "(i - 1) div 2 = m" for i
  proof -
    have "i \<noteq> m" "i \<noteq> k" using i km by auto
    moreover have "d ! m \<le> d ! i" using others [OF i(1,2)] i(3) km by auto
    ultimately show ?thesis using assms(4) km by (auto simp: nth)
  qed
  show ?thesis unfolding down_ordered_def using first second by blast
qed

lemma bubbleUp_correct:
  assumes "up_ordered n k d" "k < n" "n \<le> length d" "bubbleUp n k d = (d', k')"
  shows "heap_ordered n d' \<and> in_use n d' = in_use n d \<and> length d' = length d"
  using assms
proof (induction n k d arbitrary: d' k' rule: bubbleUp.induct)
  case (1 n k d)
  show ?case
  proof (cases "1 < n \<and> 0 < k \<and> d ! ((k - 1) div 2) > d ! k")
    case True
    then have p: "heap_parent n k = Some ((k - 1) div 2)" "(k - 1) div 2 < k" by (auto simp: heap_parent_def)
    have b: "bubbleUp n ((k - 1) div 2) (swap_at ((k - 1) div 2) k d) = (d', k')"
      using 1(5) True p by (simp add: bubbleUp.simps [of n k])
    have u: "up_ordered n ((k - 1) div 2) (swap_at ((k - 1) div 2) k d)"
      using up_ordered_step [OF 1(2)] True 1(3,4) by simp
    show ?thesis using 1(1) [OF p(1) _ u _ _ b] True p(2) 1(3,4) by (simp add: in_use_swap)
  next
    case False
    then have "bubbleUp n k d = (d, k)"
      using bubbleUp.simps [of n k d] by (auto simp: heap_parent_def split: if_splits)
    moreover have "heap_ordered n d"
      using False 1(3) by (intro up_ordered_done [OF 1(2)]) (auto simp: not_less)
    ultimately show ?thesis using 1(5) by simp
  qed
qed

lemma parent_iff: "0 < (i::nat) \<Longrightarrow> (i - 1) div 2 = k \<longleftrightarrow> i = 2 * k + 1 \<or> i = 2 * k + 2"
  by arith

lemma getMinIdx_le:
  assumes "m = getMinIdx d n k l r" "l < n" "k < n"
  shows "d ! m \<le> d ! k" "d ! m \<le> d ! l" "r < n \<Longrightarrow> d ! m \<le> d ! r" "m < n"
  using assms by (auto simp: getMinIdx_def Let_def split: if_splits)

lemma getMinIdx_least:
  assumes "m = getMinIdx d n k (2 * k + 1) (2 * k + 2)" "2 * k + 1 < n"
  shows "d ! m \<le> d ! k" "0 < i \<Longrightarrow> i < n \<Longrightarrow> (i - 1) div 2 = k \<Longrightarrow> d ! m \<le> d ! i" "m < n"
proof -
  have k: "k < n" using assms(2) by simp
  note le = getMinIdx_le [OF assms k]
  show "d ! m \<le> d ! k" "m < n" by (fact le)+
  assume i: "0 < i" "i < n" "(i - 1) div 2 = k"
  then have "i = 2 * k + 1 \<or> i = 2 * k + 2" using parent_iff by blast
  then show "d ! m \<le> d ! i" using le i(2) by blast
qed

lemma bubbleDown_correct:
  assumes "down_ordered n k d" "k < n" "n \<le> length d" "bubbleDown n k d = (d', k')"
  shows "heap_ordered n d' \<and> in_use n d' = in_use n d \<and> length d' = length d"
  using assms
proof (induction n k d arbitrary: d' k' rule: bubbleDown.induct)
  case (1 n k d)
  define m where "m = getMinIdx d n k (2 * k + 1) (2 * k + 2)"
  show ?case
  proof (cases "2 * k + 1 < n")
    case inner: True
    then have c: "heap_child n k = Some (2 * k + 1)" by (auto simp: heap_child_def)
    note least = getMinIdx_least [OF m_def inner]
    show ?thesis
    proof (cases "m = k")
      case True
      then have "bubbleDown n k d = (d, k)"
        using c m_def by (simp add: bubbleDown.simps [of n k])
      moreover have "heap_ordered n d"
        using least(2) True by (intro down_ordered_done [OF 1(2)]) auto
      ultimately show ?thesis using 1(5) by simp
    next
      case False
      have b: "bubbleDown n m (swap_at m k d) = (d', k')"
        using 1(5) False c m_def by (simp add: bubbleDown.simps [of n k] Let_def)
      have "m = 2 * k + 1 \<or> m = 2 * k + 2"
        using getMinIdx_cases [of d n k "2 * k + 1" "2 * k + 2"] False unfolding m_def by blast
      then have pm: "(m - 1) div 2 = k" "0 < m" by auto
      then have "down_ordered n m (swap_at m k d)"
        using down_ordered_step [OF 1(2) _ least(3) _ 1(4)] least by blast
      then show ?thesis
        using 1(1) [OF c, of m d' k'] b False least(3) 1(3,4) by (simp add: in_use_swap m_def)
    qed
  next
    case False
    then have "bubbleDown n k d = (d, k)" by (simp add: bubbleDown.simps heap_child_def)
    moreover have "heap_ordered n d"
      using False by (intro down_ordered_done [OF 1(2)]) (auto simp: parent_iff)
    ultimately show ?thesis using 1(5) by simp
  qed
qed

section \<open>The operations\<close>

definition heap_ok :: "'a::linorder heap \<Rightarrow> bool" where
  "heap_ok h \<longleftrightarrow> hp_size h \<le> length (hp_data h) \<and> heap_ordered (hp_size h) (hp_data h)"

definition heap_contents :: "'a heap \<Rightarrow> 'a multiset" where
  "heap_contents h = in_use (hp_size h) (hp_data h)"

definition heap_room :: "'a heap \<Rightarrow> bool" where
  "heap_room h \<longleftrightarrow> hp_size h < length (hp_data h)"

lemma in_use_update:
  "i < n \<Longrightarrow> n \<le> length d \<Longrightarrow> in_use n (d[i := x]) = add_mset x (in_use n d - {#d ! i#})"
  by (simp add: in_use_def take_update_swap mset_update)

lemma in_use_Suc: "n < length d \<Longrightarrow> in_use (Suc n) d = add_mset (d ! n) (in_use n d)"
  by (simp add: in_use_def take_Suc_conv_app_nth)

lemma nth_in_use: "i < n \<Longrightarrow> n \<le> length d \<Longrightarrow> d ! i \<in># in_use n d"
  unfolding in_use_def by (metis length_take min.absorb2 nth_mem nth_take set_mset_mset)

lemma in_use_member: "x \<in># in_use n d \<Longrightarrow> \<exists>i. i < n \<and> i < length d \<and> x = d ! i"
  by (auto simp: in_use_def in_set_conv_nth)

lemma root_down_ordered: "heap_ordered n d \<Longrightarrow> n \<le> length d \<Longrightarrow> down_ordered n 0 (d[0 := x])"
  by (auto simp: heap_ordered_def down_ordered_def nth_list_update)

lemma bubble_root:
  assumes "heap_ordered n d" "0 < n" "n \<le> length d" "bubbleDown n 0 (d[0 := x]) = (d', k)"
  shows "heap_ordered n d' \<and> in_use n d' = add_mset x (in_use n d - {#d ! 0#}) \<and> length d' = length d"
  using bubbleDown_correct [OF root_down_ordered [OF assms(1,3)] assms(2) _ assms(4)] assms(2,3)
  by (simp add: in_use_update)

lemma heap_insert_correct:
  assumes ok: "heap_ok h" and room: "heap_room h" and ins: "heap_insert x h = (i, h')"
  shows "heap_ok h' \<and> heap_contents h' = add_mset x (heap_contents h) \<and> length (hp_data h') = length (hp_data h)"
proof -
  let ?n = "Suc (hp_size h)" and ?d = "(hp_data h)[hp_size h := x]"
  obtain d k where b: "bubbleUp ?n (hp_size h) ?d = (d, k)" by fastforce
  then have h': "h' = h\<lparr>hp_data := d, hp_size := ?n\<rparr>"
    using ins room by (auto simp: heap_insert_def heap_room_def)
  have "up_ordered ?n (hp_size h) ?d"
    using ok room by (auto simp: up_ordered_def heap_ok_def heap_ordered_def heap_room_def nth_list_update)
  from bubbleUp_correct [OF this _ _ b]
  have "heap_ordered ?n d \<and> in_use ?n d = in_use ?n ?d \<and> length d = length (hp_data h)"
    using room by (simp add: heap_room_def)
  moreover have "in_use ?n ?d = add_mset x (in_use (hp_size h) (hp_data h))"
    using room by (simp add: in_use_Suc heap_room_def) (simp add: in_use_def)
  ultimately show ?thesis
    using room h' by (simp add: heap_ok_def heap_contents_def heap_room_def)
qed

lemma extractMin_correct:
  assumes ok: "heap_ok h" and ne: "0 < hp_size h" and ex: "extractMin h = (x, h')"
  shows "heap_ok h' \<and> heap_contents h = add_mset x (heap_contents h') \<and>
    length (hp_data h') = length (hp_data h) \<and> (\<forall>y \<in># heap_contents h. x \<le> y)"
proof -
  define n d where "n = hp_size h - 1" and "d = hp_data h"
  have n: "hp_size h = Suc n" "n < length d" "heap_ordered (Suc n) d"
    using ok ne by (auto simp: n_def d_def heap_ok_def)
  obtain d' k where b: "bubbleDown n 0 (d[0 := d ! n]) = (d', k)" by fastforce
  then have x: "x = d ! 0" and h': "h' = h\<lparr>hp_data := d', hp_size := n\<rparr>"
    using ex by (auto simp: extractMin_def Let_def n_def d_def)
  have ord: "heap_ordered n d" using n(3) by (simp add: heap_ordered_def)
  have "heap_ordered n d' \<and> in_use (Suc n) d = add_mset (d ! 0) (in_use n d') \<and> length d' = length d"
  proof (cases "n = 0")
    case True
    then have "d' = d" using b by (simp add: bubbleDown.simps heap_child_def)
    then show ?thesis using True n(2) by (auto simp: heap_ordered_def in_use_Suc)
  next
    case False
    then have r: "heap_ordered n d' \<and> in_use n d' = add_mset (d ! n) (in_use n d - {#d ! 0#}) \<and> length d' = length d"
      using bubble_root [OF ord _ _ b] n(2) by simp
    moreover have "d ! 0 \<in># in_use n d" using False n(2) by (intro nth_in_use) auto
    ultimately show ?thesis using n(2) by (simp add: in_use_Suc add_mset_commute)
  qed
  moreover have "\<forall>y \<in># in_use (Suc n) d. x \<le> y"
    using heap_root_least [OF n(3)] x by (auto dest!: in_use_member)
  ultimately show ?thesis
    using n h' x by (simp add: heap_ok_def heap_contents_def d_def)
qed

lemma heap_nonempty: "heap_ok h \<Longrightarrow> heap_contents h \<noteq> {#} \<longleftrightarrow> 0 < hp_size h"
  by (auto simp: heap_contents_def heap_ok_def in_use_def)

interpretation hp: priority_queue heap_contents heap_ok heap_room "\<lambda>x h. snd (heap_insert x h)" extractMin
proof (unfold_locales, goal_cases)
  case (1 q x)
  then show ?case using heap_insert_correct [OF 1] by (cases "heap_insert x q") auto
next
  case (2 q x)
  then show ?case using heap_insert_correct [OF 2] by (cases "heap_insert x q") auto
next
  case (3 q)
  then show ?case using extractMin_correct [OF 3(1)] heap_nonempty by (cases "extractMin q") auto
next
  case (4 q)
  then show ?case using extractMin_correct [OF 4(1)] heap_nonempty by (cases "extractMin q") auto
next
  case (5 q x)
  then show ?case using extractMin_correct [OF 5(1)] heap_nonempty by (cases "extractMin q") auto
qed

lemma heap_ordered_mono_kids:
  "heap_ordered n d \<Longrightarrow> 0 < i \<Longrightarrow> i < n \<Longrightarrow> (i - 1) div 2 = k \<Longrightarrow> 0 < k \<Longrightarrow> d ! ((k - 1) div 2) \<le> d ! i"
proof -
  assume o: "heap_ordered n d" and i: "0 < i" "i < n" "(i - 1) div 2 = k" "0 < k"
  have "k < i" using i by auto
  then have "d ! ((k - 1) div 2) \<le> d ! k" using o i by (simp add: heap_ordered_def)
  also have "\<dots> \<le> d ! i" using o i by (auto simp: heap_ordered_def)
  finally show ?thesis .
qed

lemma grow_down_ordered:
  assumes "heap_ordered n d" "k < n" "n \<le> length d" "d ! k \<le> x"
  shows "down_ordered n k (d[k := x])"
  unfolding down_ordered_def
proof (intro conjI allI impI, goal_cases)
  case (1 i)
  then have "d ! ((i - 1) div 2) \<le> d ! i" using assms(1) by (simp add: heap_ordered_def)
  then show ?case using 1 assms by (auto simp: nth_list_update)
next
  case (2 i)
  then have "i \<noteq> k" "(k - 1) div 2 \<noteq> k" by auto
  then show ?case using heap_ordered_mono_kids [OF assms(1), of i k] 2 by simp
qed

lemma shrink_up_ordered:
  assumes "heap_ordered n d" "k < n" "n \<le> length d" "x \<le> d ! k"
  shows "up_ordered n k (d[k := x])"
  unfolding up_ordered_def
proof (intro conjI allI impI, goal_cases)
  case (1 i)
  then have "d ! ((i - 1) div 2) \<le> d ! i" using assms(1) by (simp add: heap_ordered_def)
  then show ?case using 1 assms by (auto simp: nth_list_update)
next
  case (2 i)
  then have "i \<noteq> k" "(k - 1) div 2 \<noteq> k" by auto
  then show ?case using heap_ordered_mono_kids [OF assms(1), of i k] 2 by simp
qed

lemma heap_update_correct:
  assumes "heap_ok h" "k < hp_size h" "heap_update k x h = (i, h')"
  shows "heap_ok h' \<and> heap_contents h' = add_mset x (heap_contents h - {#hp_data h ! k#})"
proof -
  have o: "heap_ordered (hp_size h) (hp_data h)" "hp_size h \<le> length (hp_data h)"
    using assms(1) by (auto simp: heap_ok_def)
  let ?b = "(if hp_data h ! k < x then bubbleDown (hp_size h) k ((hp_data h)[k := x])
             else bubbleUp (hp_size h) k ((hp_data h)[k := x]))"
  obtain d j where b: "?b = (d, j)" by fastforce
  have "heap_ordered (hp_size h) d \<and> in_use (hp_size h) d = in_use (hp_size h) ((hp_data h)[k := x])
      \<and> length d = length (hp_data h)"
  proof (cases "hp_data h ! k < x")
    case True
    then show ?thesis
      using b bubbleDown_correct [OF grow_down_ordered [OF o(1) assms(2) o(2), of x] assms(2), of d j] o(2) by simp
  next
    case False
    then show ?thesis
      using b bubbleUp_correct [OF shrink_up_ordered [OF o(1) assms(2) o(2), of x] assms(2), of d j] o(2) by simp
  qed
  then show ?thesis
    using b o assms(2,3) by (auto simp: heap_update_def Let_def heap_ok_def heap_contents_def in_use_update split: prod.splits)
qed

lemma heap_insert_full:
  assumes "heap_ok h" "0 < hp_size h" "length (hp_data h) = hp_size h" "heap_insert x h = (i, h')"
  shows "heap_ok h' \<and> heap_contents h' = add_mset x (heap_contents h - {#heap_peek h#})"
proof -
  obtain d j where b: "bubbleDown (hp_size h) 0 ((hp_data h)[0 := x]) = (d, j)" by fastforce
  have "heap_ordered (hp_size h) (hp_data h)" using assms(1) by (simp add: heap_ok_def)
  from bubble_root [OF this assms(2) _ b] show ?thesis
    using b assms(3,4) by (auto simp: heap_insert_def heap_ok_def heap_contents_def heap_peek_def)
qed

section \<open>Properties of the heap\<close>

definition insert_all :: "'a::linorder list \<Rightarrow> 'a heap \<Rightarrow> 'a heap" where
  "insert_all xs h = fold (\<lambda>x h. snd (heap_insert x h)) xs h"

fun extract_n :: "nat \<Rightarrow> 'a::linorder heap \<Rightarrow> 'a list" where
  "extract_n 0 h = []"
| "extract_n (Suc n) h = (let (x, h') = extractMin h in x # extract_n n h')"

lemma extract_n_eq: "extract_n n h = hp.take_n n h"
  by (induction n arbitrary: h) (simp_all split: prod.split)

lemma insert_all_correct:
  "heap_ok h \<Longrightarrow> hp_size h + length xs \<le> length (hp_data h) \<Longrightarrow>
   heap_ok (insert_all xs h) \<and> heap_contents (insert_all xs h) = mset xs + heap_contents h"
proof (induction xs arbitrary: h)
  case Nil
  then show ?case by (simp add: insert_all_def)
next
  case (Cons x xs)
  obtain i h' where i: "heap_insert x h = (i, h')" by fastforce
  have room: "heap_room h" using Cons.prems by (simp add: heap_room_def)
  note c = heap_insert_correct [OF Cons.prems(1) room i]
  have "hp_size h' = Suc (hp_size h)"
    using i room by (auto simp: heap_insert_def heap_room_def split: prod.splits)
  then show ?case using Cons.IH [of h'] Cons.prems c i by (simp add: insert_all_def)
qed

text \<open>
  C4: Inserting any elements that fit into an empty heap and extracting that many yields exactly those
  elements in ascending order.
\<close>
theorem heap_sorts:
  assumes "length xs \<le> length d"
  shows "extract_n (length xs) (insert_all xs (heap_empty d)) = sort xs"
proof -
  have "heap_ok (heap_empty d)" "heap_contents (heap_empty d) = {#}"
    by (auto simp: heap_ok_def heap_empty_def heap_ordered_def heap_contents_def in_use_def)
  then have "heap_ok (insert_all xs (heap_empty d))" "heap_contents (insert_all xs (heap_empty d)) = mset xs"
    using insert_all_correct [of "heap_empty d" xs] assms by (auto simp: heap_empty_def)
  then have "mset (extract_n (length xs) (insert_all xs (heap_empty d))) = mset xs \<and>
      sorted (extract_n (length xs) (insert_all xs (heap_empty d)))"
    using hp.take_n_sorts [of "insert_all xs (heap_empty d)" "length xs"] by (simp add: extract_n_eq)
  then show ?thesis by (metis properties_for_sort)
qed

theorem heap_sorts_witness:
  "extract_n 4 (insert_all [3, 1, 2, 1] (heap_empty (replicate 5 0))) = sort [3, 1, 2, 1 :: int]"
  using heap_sorts [of "[3, 1, 2, 1 :: int]" "replicate 5 0"] by (simp add: eval_nat_numeral)

text \<open>
  On a heap at capacity \<open>insert\<close> replaces the minimum by the new element, whatever its value, and keeps
  the heap order; \<open>update\<close> replaces the element at the given index and keeps the heap order.
\<close>
lemma heap_replaces:
  assumes "heap_ok h" "k < hp_size h"
  shows "(case heap_update k x h of (_, h') \<Rightarrow>
      heap_ok h' \<and> heap_contents h' = add_mset x (heap_contents h - {#hp_data h ! k#})) \<and>
    (length (hp_data h) = hp_size h \<longrightarrow> (case heap_insert x h of (_, h') \<Rightarrow>
      heap_ok h' \<and> heap_contents h' = add_mset x (heap_contents h - {#heap_peek h#})))"
  using assms heap_update_correct [OF assms, of x] heap_insert_full [of h x]
  by (cases "heap_update k x h"; cases "heap_insert x h") (auto simp: Let_def)

end
