(* ===== verification/Cms.thy ===== *)
theory Cms
  imports Ikernel_Base Packet_Filter
begin

text \<open>
  The count-min sketch of \<open>src/ikernels/hls/cms.cpp\<close> and the heavy-hitters ikernel around it
  (\<open>cms-ikernel.cpp\<close>). Counters and hash parameters are 32-bit \<open>int\<close>s; the hash is computed in \<open>unsigned\<close>
  arithmetic, so both are kept as \<open>32 word\<close>, compared as signed numbers where the source compares \<open>int\<close>s.
  The members \<open>aj\<close> and \<open>bj\<close> of the struct are never read or written. \<open>generateHashes\<close>, which draws the
  hash parameters from \<open>rand\<close> in floating point, is not modelled: every theorem holds for any parameters.
\<close>

definition WIDTH :: nat where "WIDTH = 272"
definition DEPTH :: nat where "DEPTH = 3"

record CountMinSketch =
  cm_total :: "32 word"
  cm_C :: "32 word list list"
  cm_hashes :: "32 word list list"

definition getCell :: "nat \<Rightarrow> nat \<Rightarrow> CountMinSketch \<Rightarrow> 32 word" where
  "getCell row col s = cm_C s ! row ! col"

definition setHashes :: "32 word list list \<Rightarrow> CountMinSketch \<Rightarrow> CountMinSketch" where
  "setHashes hs s = s\<lparr>cm_hashes :=
     fold (\<lambda>i h. fold (\<lambda>j h. h[i := (h ! i)[j := hs ! i ! j]]) [0..<2] h) [0..<DEPTH] (cm_hashes s)\<rparr>"

definition sketch_new :: "32 word list list \<Rightarrow> CountMinSketch" where
  "sketch_new hs = \<lparr>cm_total = 0, cm_C = replicate DEPTH (replicate WIDTH 0), cm_hashes = hs\<rparr>"

definition totalcount :: "CountMinSketch \<Rightarrow> 32 word" where
  "totalcount s = cm_total s"

definition hashval :: "CountMinSketch \<Rightarrow> nat \<Rightarrow> 32 word \<Rightarrow> nat" where
  "hashval s j item = unat ((cm_hashes s ! j ! 0 * item + cm_hashes s ! j ! 1) mod of_nat WIDTH)"

definition update_row :: "32 word \<Rightarrow> 32 word \<Rightarrow> nat \<Rightarrow> CountMinSketch \<Rightarrow> CountMinSketch" where
  "update_row item c j s =
     (let h = hashval s j item
      in s\<lparr>cm_C := (cm_C s)[j := (cm_C s ! j)[h := cm_C s ! j ! h + c]]\<rparr>)"

definition cms_update :: "32 word \<Rightarrow> 32 word \<Rightarrow> CountMinSketch \<Rightarrow> CountMinSketch" where
  "cms_update item c s = fold (update_row item c) [0..<DEPTH] (s\<lparr>cm_total := cm_total s + c\<rparr>)"

definition updateByAddress :: "nat \<Rightarrow> 32 word \<Rightarrow> CountMinSketch \<Rightarrow> CountMinSketch" where
  "updateByAddress address v s =
     s\<lparr>cm_hashes := (cm_hashes s)[address div 2 := (cm_hashes s ! (address div 2))[address mod 2 := v]]\<rparr>"

definition signed_min :: "32 word \<Rightarrow> 32 word \<Rightarrow> 32 word" where
  "signed_min a b = (if b <s a then b else a)"

definition estimate :: "32 word \<Rightarrow> CountMinSketch \<Rightarrow> 32 word" where
  "estimate item s =
     fold (\<lambda>j minval. signed_min minval (cm_C s ! j ! hashval s j item)) [0..<DEPTH] (2 ^ 31 - 1)"

text \<open>The string hash: \<open>char\<close> is signed, the accumulator has 64 bits and the result is truncated to 32.\<close>

fun hashstr_loop :: "64 word \<Rightarrow> 8 word list \<Rightarrow> 64 word" where
  "hashstr_loop hash [] = hash"
| "hashstr_loop hash (c # cs) =
     (if c = 0 then hash else hashstr_loop (push_bit 5 hash + hash + scast c) cs)"

definition hashstr :: "8 word list \<Rightarrow> 32 word" where
  "hashstr str = ucast (hashstr_loop 5381 str)"

definition cms_update_str :: "8 word list \<Rightarrow> 32 word \<Rightarrow> CountMinSketch \<Rightarrow> CountMinSketch" where
  "cms_update_str str c s = cms_update (hashstr str) c s"

definition estimate_str :: "8 word list \<Rightarrow> CountMinSketch \<Rightarrow> 32 word" where
  "estimate_str str s = estimate (hashstr str) s"

section \<open>The contract of a frequency sketch\<close>

text \<open>
  A sketch hashes an item to one cell of each of its rows and adds to these cells. Its client's
  theorem: a cell holds the sum of all counts that were added for items that share the cell, so a cell
  of an item is never below the item's own count.
\<close>

definition colliding :: "('i \<Rightarrow> nat) \<Rightarrow> nat \<Rightarrow> ('i \<times> nat) list \<Rightarrow> nat" where
  "colliding h k us = (\<Sum>(x, c) \<leftarrow> us. if h x = k then c else 0)"

definition item_count :: "'i \<Rightarrow> ('i \<times> nat) list \<Rightarrow> nat" where
  "item_count y us = (\<Sum>(x, c) \<leftarrow> us. if x = y then c else 0)"

definition total_count :: "('i \<times> nat) list \<Rightarrow> nat" where
  "total_count us = (\<Sum>(x, c) \<leftarrow> us. c)"

lemma item_count_le_colliding: "item_count y us \<le> colliding h (h y) us"
  by (induction us) (auto simp: item_count_def colliding_def)

lemma colliding_le_total: "colliding h k us \<le> total_count us"
  by (induction us) (auto simp: total_count_def colliding_def)

locale frequency_sketch =
  fixes add :: "'i \<Rightarrow> nat \<Rightarrow> 's \<Rightarrow> 's"
    and cell :: "'s \<Rightarrow> nat \<Rightarrow> nat \<Rightarrow> 'c::semiring_1"
    and hash :: "'s \<Rightarrow> nat \<Rightarrow> 'i \<Rightarrow> nat"
    and rows :: nat
    and ok :: "'s \<Rightarrow> bool"
  assumes add_ok: "ok s \<Longrightarrow> ok (add x c s)"
    and add_hash: "hash (add x c s) = hash s"
    and add_cell: "ok s \<Longrightarrow> j < rows \<Longrightarrow>
      cell (add x c s) j k = cell s j k + (if hash s j x = k then of_nat c else 0)"
begin

definition add_all :: "('i \<times> nat) list \<Rightarrow> 's \<Rightarrow> 's" where
  "add_all us s = fold (\<lambda>(x, c). add x c) us s"

lemma add_all_cell:
  "ok s \<Longrightarrow> j < rows \<Longrightarrow>
   cell (add_all us s) j k = cell s j k + of_nat (colliding (hash s j) k us)"
  by (induction us arbitrary: s)
    (auto simp: add_all_def colliding_def add_ok add_hash add_cell algebra_simps)

lemma add_all_hash: "hash (add_all us s) = hash s"
  by (induction us arbitrary: s) (auto simp: add_all_def add_hash)

end

section \<open>The sketch meets the contract\<close>

definition sketch_ok :: "CountMinSketch \<Rightarrow> bool" where
  "sketch_ok s \<longleftrightarrow> length (cm_C s) = DEPTH \<and> (\<forall>j < DEPTH. length (cm_C s ! j) = WIDTH)"

lemma hashval_less: "hashval s j item < WIDTH"
proof -
  have "hashval s j item = unat (cm_hashes s ! j ! 0 * item + cm_hashes s ! j ! 1) mod 272"
    by (simp add: hashval_def WIDTH_def unat_mod)
  then show ?thesis by (simp add: WIDTH_def)
qed

lemma hashval_update_row [simp]: "hashval (update_row item c j s) = hashval s"
  by (simp add: fun_eq_iff hashval_def update_row_def Let_def)

lemma hashval_total [simp]: "hashval (cm_total_update f s) = hashval s"
  by (simp add: fun_eq_iff hashval_def)

lemma sketch_ok_update_row: "sketch_ok s \<Longrightarrow> sketch_ok (update_row item c j s)"
  by (cases "j < DEPTH") (auto simp: sketch_ok_def update_row_def Let_def nth_list_update)

lemma cell_update_row:
  assumes "sketch_ok s" "i < DEPTH" "j < DEPTH"
  shows "cm_C (update_row item c j s) ! i ! k =
    cm_C s ! i ! k + (if i = j \<and> hashval s j item = k then c else 0)"
proof -
  have "length (cm_C s ! j) = WIDTH" "j < length (cm_C s)"
    using assms by (auto simp: sketch_ok_def)
  then show ?thesis
    using assms hashval_less [of s j item]
    by (auto simp: update_row_def Let_def nth_list_update sketch_ok_def)
qed

lemma upt_DEPTH: "[0..<DEPTH] = [0, 1, 2]"
  by (simp add: DEPTH_def upt_rec)

lemma sketch_ok_update: "sketch_ok s \<Longrightarrow> sketch_ok (cms_update item c s)"
proof -
  assume "sketch_ok s"
  then have "sketch_ok (s\<lparr>cm_total := cm_total s + c\<rparr>)" by (simp add: sketch_ok_def)
  then show ?thesis by (simp add: cms_update_def upt_DEPTH sketch_ok_update_row)
qed

lemma hashval_update [simp]: "hashval (cms_update item c s) = hashval s"
  by (simp add: cms_update_def upt_DEPTH)

lemma cell_update:
  assumes "sketch_ok s" "i < DEPTH"
  shows "cm_C (cms_update item c s) ! i ! k = cm_C s ! i ! k + (if hashval s i item = k then c else 0)"
proof -
  define s0 where "s0 = s\<lparr>cm_total := cm_total s + c\<rparr>"
  have s0: "sketch_ok s0" "cm_C s0 = cm_C s" "hashval s0 = hashval s"
    using assms(1) by (simp_all add: s0_def sketch_ok_def)
  have "i = 0 \<or> i = 1 \<or> i = 2" using assms(2) by (auto simp: DEPTH_def)
  then show ?thesis
    unfolding cms_update_def upt_DEPTH s0_def [symmetric] using s0 assms(2)
    by (auto simp: cell_update_row sketch_ok_update_row DEPTH_def)
qed

lemma total_update_row [simp]: "cm_total (update_row item c j s) = cm_total s"
  by (simp add: update_row_def Let_def)

lemma total_update [simp]: "cm_total (cms_update item c s) = cm_total s + c"
  by (simp add: cms_update_def upt_DEPTH)

interpretation cmsk: frequency_sketch "\<lambda>x c. cms_update x (of_nat c)" "\<lambda>s j k. cm_C s ! j ! k" hashval DEPTH sketch_ok
  by unfold_locales (simp_all add: sketch_ok_update cell_update)

definition update_all :: "(32 word \<times> nat) list \<Rightarrow> CountMinSketch \<Rightarrow> CountMinSketch" where
  "update_all us s = fold (\<lambda>(x, c). cms_update x (of_nat c)) us s"

lemma update_all_eq: "update_all us s = cmsk.add_all us s"
  by (simp add: update_all_def cmsk.add_all_def)

lemma sketch_ok_new: "sketch_ok (sketch_new hs)"
  by (simp add: sketch_ok_def sketch_new_def)

lemma update_all_cell:
  assumes "j < DEPTH"
  shows "cm_C (update_all us (sketch_new hs)) ! j ! hashval (sketch_new hs) j x =
    of_nat (colliding (hashval (sketch_new hs) j) (hashval (sketch_new hs) j x) us)"
  using cmsk.add_all_cell [OF sketch_ok_new assms] hashval_less [of "sketch_new hs" j x] assms
  by (simp add: update_all_eq) (simp add: sketch_new_def)

lemma update_all_total: "cm_total (update_all us s) = cm_total s + of_nat (total_count us)"
  by (induction us arbitrary: s) (auto simp: update_all_def total_count_def)

lemma hashval_update_all [simp]: "hashval (update_all us s) = hashval s"
  by (simp add: update_all_eq cmsk.add_all_hash)

lemma signed_min_small:
  assumes "a < 2 ^ 31" "b < 2 ^ 31"
  shows "signed_min (of_nat a) (of_nat b) = of_nat (min a b)"
proof -
  have "sint (of_nat n :: 32 word) = int n" if "n < 2 ^ 31" for n
    using that by (simp add: signed_of_nat signed_take_bit_int_eq_self)
  then show ?thesis using assms by (auto simp: signed_min_def word_sless_alt)
qed

text \<open>Below \<open>2 ^ 31\<close> no counter overflows and the estimate is the least cell of the item.\<close>

lemma estimate_eq:
  fixes hs us x
  defines "s \<equiv> sketch_new hs"
  defines "cells \<equiv> \<lambda>j. colliding (hashval s j) (hashval s j x) us"
  assumes "total_count us < 2 ^ 31"
  shows "estimate x (update_all us s) = of_nat (min (min (cells 0) (cells 1)) (cells 2))"
proof -
  have small: "cells j < 2 ^ 31" for j
    using colliding_le_total [of "hashval s j" "hashval s j x" us] assms(3) by (simp add: cells_def)
  have cell: "cm_C (update_all us s) ! j ! hashval s j x = of_nat (cells j)" if "j < 3" for j
    using update_all_cell [of j us hs x] that by (simp add: s_def cells_def DEPTH_def)
  have "(2 ^ 31 - 1 :: 32 word) = of_nat (2 ^ 31 - 1)" by simp
  moreover have "min (2 ^ 31 - 1) (cells 0) = cells 0" using small [of 0] by simp
  ultimately have "signed_min (2 ^ 31 - 1) (of_nat (cells 0)) = of_nat (cells 0)"
    using signed_min_small [of "2 ^ 31 - 1" "cells 0"] small [of 0] by (simp only:)
  moreover have "min (cells 0) (cells 1) < 2 ^ 31" using small [of 0] by simp
  ultimately show ?thesis
    using small by (simp add: estimate_def upt_DEPTH cell signed_min_small)
qed

text \<open>
  C18: Count-min guarantee: after any sequence of updates of a fresh sketch whose counts sum to less than
  \<open>2 ^ 31\<close>, whatever the hash parameters, \<open>estimate\<close> of an item is at least its true count, at most the total
  count, and exactly the smallest of its three cells; \<open>totalcount\<close> is the total count.
\<close>
theorem cms_estimate_bounds:
  assumes "total_count us < 2 ^ 31"
  shows "item_count x us \<le> unat (estimate x (update_all us (sketch_new hs))) \<and>
    unat (estimate x (update_all us (sketch_new hs))) \<le> total_count us \<and>
    unat (estimate x (update_all us (sketch_new hs))) =
      Min ((\<lambda>j. colliding (hashval (sketch_new hs) j) (hashval (sketch_new hs) j x) us) ` {0..<DEPTH}) \<and>
    unat (totalcount (update_all us (sketch_new hs))) = total_count us"
proof -
  let ?c = "\<lambda>j. colliding (hashval (sketch_new hs) j) (hashval (sketch_new hs) j x) us"
  have le: "?c j \<le> total_count us" for j by (rule colliding_le_total)
  have "{0..<DEPTH} = {0, 1, 2}" by (auto simp: DEPTH_def)
  then have m: "Min (?c ` {0..<DEPTH}) = min (min (?c 0) (?c 1)) (?c 2)" by (simp add: ac_simps)
  have lt: "min (min (?c 0) (?c 1)) (?c 2) < 2 ^ 32" using le [of 0] assms by simp
  have "unat (estimate x (update_all us (sketch_new hs))) = min (min (?c 0) (?c 1)) (?c 2)"
    using lt by (simp add: estimate_eq [OF assms] take_bit_nat_eq_self unsigned_of_nat del: of_nat_min)
  moreover have "item_count x us \<le> min (min (?c 0) (?c 1)) (?c 2)"
    by (intro min.boundedI item_count_le_colliding)
  moreover have "unat (totalcount (update_all us (sketch_new hs))) = total_count us"
    using assms by (simp add: totalcount_def update_all_total sketch_new_def unsigned_of_nat take_bit_nat_eq_self)
  ultimately show ?thesis using m le [of 0] by simp
qed

theorem cms_estimate_bounds_witness:
  "2 \<le> unat (estimate 7 (update_all [(7, 1), (9, 3), (7, 1)] (sketch_new [[1, 0], [3, 1], [5, 2]])))"
  using cms_estimate_bounds [of "[(7, 1), (9, 3), (7, 1)]" 7 "[[1, 0], [3, 1], [5, 2]]"]
  by (simp add: item_count_def total_count_def)

section \<open>The ikernel\<close>

definition READ_TOP_K :: "32 word" where "READ_TOP_K = 0"
definition TOPK_READ_NEXT_VALUE :: "32 word" where "TOPK_READ_NEXT_VALUE = 1"
definition READ_K_VALUE :: "32 word" where "READ_K_VALUE = 2"
definition HASHES_BASE :: "32 word" where "HASHES_BASE = 3"

record value_and_frequency =
  entity :: "32 word"
  frequency :: "32 word"

datatype cms_net_state = METADATA | FIRST_WORD | OTHER_WORDS

datatype cms_read_state = INITIAL | ENTITY | FREQUENCY

record cms =
  cms_state :: cms_net_state
  cms_read_state :: cms_read_state
  values_stream :: "32 word hls_stream"
  hashes_addresses :: "nat hls_stream"
  hashes_values :: "32 word hls_stream"
  topK_read_request :: "bool hls_stream"
  topK_values :: "value_and_frequency hls_stream"
  reading_heap :: bool
  reading_index :: "32 word"
  cms_k :: "32 word"
  next_topK_pair :: value_and_frequency
  sketch :: CountMinSketch

definition cms_reg_write :: "32 word \<Rightarrow> 32 word \<Rightarrow> cms \<Rightarrow> gw_status \<times> cms" where
  "cms_reg_write address v s =
     (if address = READ_TOP_K then (GW_CODE 0, s\<lparr>topK_read_request := s_write True (topK_read_request s)\<rparr>)
      else (let a = address - HASHES_BASE
            in if sint a < 0 \<or> sint a \<ge> 2 * int DEPTH then (GW_CODE (- 1), s)
               else (GW_CODE 0, s\<lparr>hashes_addresses := s_write (unat a) (hashes_addresses s),
                                   hashes_values := s_write v (hashes_values s)\<rparr>)))"

definition cms_reg_read :: "32 word \<Rightarrow> 32 word \<Rightarrow> cms \<Rightarrow> gw_status \<times> 32 word \<times> cms" where
  "cms_reg_read address v s =
     (if address = READ_K_VALUE then (GW_CODE 0, cms_k s, s)
      else if address \<noteq> TOPK_READ_NEXT_VALUE then (GW_CODE (- 1), - 1, s)
      else case cms_read_state s of
        INITIAL \<Rightarrow>
          if s_empty (topK_values s) then (GW_BUSY, v, s)
          else (let (kv, q) = s_read (topK_values s)
                in (GW_CODE 0, entity kv,
                    s\<lparr>topK_values := q, next_topK_pair := kv, cms_read_state := FREQUENCY\<rparr>))
      | ENTITY \<Rightarrow> (GW_CODE 0, entity (next_topK_pair s), s\<lparr>cms_read_state := FREQUENCY\<rparr>)
      | FREQUENCY \<Rightarrow> (GW_CODE 0, frequency (next_topK_pair s), s\<lparr>cms_read_state := INITIAL\<rparr>))"

definition cms_value :: "axi_data \<Rightarrow> 32 word" where
  "cms_value d = ap_range (255 - 14 * 8) (256 - 32 - 14 * 8) (ad_data d)"

definition cms_net_ingress :: "pipeline_ports \<Rightarrow> cms \<Rightarrow> pipeline_ports \<times> cms" where
  "cms_net_ingress p s =
     (case cms_state s of
        METADATA \<Rightarrow>
          if \<not> s_empty (metadata_input p)
          then (let (m, mi) = s_read (metadata_input p)
                in (p\<lparr>metadata_input := mi\<rparr>, s\<lparr>cms_state := FIRST_WORD\<rparr>))
          else (p, s)
      | FIRST_WORD \<Rightarrow>
          if \<not> s_empty (data_input p) \<and> \<not> s_full (values_stream s)
          then (let (d, di) = s_read (data_input p)
                in (p\<lparr>data_input := di\<rparr>,
                    s\<lparr>values_stream := s_write (cms_value d) (values_stream s),
                      cms_state := (if ad_last d then METADATA else OTHER_WORDS)\<rparr>))
          else (p, s)
      | OTHER_WORDS \<Rightarrow>
          if s_empty (data_input p) then (p, s)
          else (let (d, di) = s_read (data_input p)
                in (p\<lparr>data_input := di\<rparr>, if ad_last d then s\<lparr>cms_state := METADATA\<rparr> else s)))"

text \<open>\<open>kv\<close> is a port with a valid signal: \<open>None\<close> is a clock in which it is not written.\<close>

definition write_to_heap :: "cms \<Rightarrow> value_and_frequency option \<times> cms" where
  "write_to_heap s =
     (let s1 = (if \<not> s_empty (hashes_addresses s) \<and> \<not> s_empty (hashes_values s)
                then (let (a, aq) = s_read (hashes_addresses s);
                          (v, vq) = s_read (hashes_values s)
                      in s\<lparr>hashes_addresses := aq, hashes_values := vq,
                           sketch := updateByAddress a v (sketch s)\<rparr>)
                else s)
      in if \<not> s_empty (values_stream s1)
         then (let (v, q) = s_read (values_stream s1);
                   sk = cms_update v 1 (sketch s1)
               in (Some \<lparr>entity = v, frequency = estimate v sk\<rparr>, s1\<lparr>values_stream := q, sketch := sk\<rparr>))
         else (None, s1))"

definition read_heap ::
  "value_and_frequency hls_stream \<Rightarrow> 32 word \<Rightarrow> cms \<Rightarrow> value_and_frequency hls_stream \<times> cms" where
  "read_heap heap_out k_value s =
     (let s1 = (if \<not> reading_heap s then s\<lparr>cms_k := k_value\<rparr> else s);
          s2 = (if \<not> s_empty (topK_read_request s1) \<and> \<not> reading_heap s1
                then s1\<lparr>topK_read_request := snd (s_read (topK_read_request s1)),
                        reading_heap := True, reading_index := 0\<rparr>
                else s1)
      in if reading_index s2 = k_value then (heap_out, s2\<lparr>reading_heap := False\<rparr>)
         else if reading_heap s2 \<and> \<not> s_full (topK_values s2) \<and> \<not> s_empty heap_out
         then (let (kv, ho) = s_read heap_out
               in (ho, s2\<lparr>topK_values := s_write kv (topK_values s2), reading_index := reading_index s2 + 1\<rparr>))
         else (heap_out, s2))"

text \<open>
  \<open>ntl::produce\<close> is called on the two outputs of the network side and is a parameter here.
\<close>

record cms_top =
  top_net :: pipeline_ports
  top_host :: pipeline_ports
  top_heap_out :: "value_and_frequency hls_stream"
  top_cms :: cms

definition cms_step ::
  "(data_stream \<Rightarrow> data_stream) \<Rightarrow> (metadata hls_stream \<Rightarrow> metadata hls_stream) \<Rightarrow> cms_top \<Rightarrow> cms_top" where
  "cms_step produce_data produce_meta t =
     (let host = pass_packets (top_host t);
          (net, c) = cms_net_ingress (top_net t) (top_cms t)
      in t\<lparr>top_host := host, top_cms := c,
           top_net := net\<lparr>data_output := produce_data (data_output net),
                          metadata_output := produce_meta (metadata_output net)\<rparr>\<rparr>)"

definition cms_ikernel ::
  "(data_stream \<Rightarrow> data_stream) \<Rightarrow> (metadata hls_stream \<Rightarrow> metadata hls_stream) \<Rightarrow> gw_cmd \<Rightarrow> 32 word \<Rightarrow>
   cms_top \<Rightarrow> value_and_frequency option \<times> (gw_status \<times> 32 word) option \<times> cms_top" where
  "cms_ikernel produce_data produce_meta cmd k_value t =
     (let t1 = cms_step produce_data produce_meta t;
          (kv, c1) = write_to_heap (top_cms t1);
          (ho, c2) = read_heap (top_heap_out t1) k_value c1
      in case cmd of
           None \<Rightarrow> (kv, None, t1\<lparr>top_heap_out := ho, top_cms := c2\<rparr>)
         | Some (addr, data) \<Rightarrow>
             (let (st, v, c3) = gateway_callback cms_reg_write cms_reg_read addr data c2
              in (kv, Some (st, v), t1\<lparr>top_heap_out := ho, top_cms := c3\<rparr>)))"

section \<open>What the heap is told\<close>

text \<open>
  The clock of the ikernel without register commands, with the pairs written to the heap recorded.
\<close>

type_synonym cms_sys = "cms_top \<times> value_and_frequency list"

definition cms_clock :: "32 word \<Rightarrow> cms_sys \<Rightarrow> cms_sys" where
  "cms_clock k s =
     (let (kv, _, t) = cms_ikernel id id None k (fst s)
      in (t, snd s @ (case kv of None \<Rightarrow> [] | Some x \<Rightarrow> [x])))"

text \<open>The values that the waiting packets carry: one per packet, from its first word.\<close>

fun ingress_run :: "cms_net_state \<Rightarrow> 'm list \<Rightarrow> axi_data list \<Rightarrow> 32 word list" where
  "ingress_run METADATA [] ws = []"
| "ingress_run st ms [] = []"
| "ingress_run METADATA (m # ms) (w # ws) =
     cms_value w # ingress_run (if ad_last w then METADATA else OTHER_WORDS) ms ws"
| "ingress_run FIRST_WORD ms (w # ws) =
     cms_value w # ingress_run (if ad_last w then METADATA else OTHER_WORDS) ms ws"
| "ingress_run OTHER_WORDS ms (w # ws) = ingress_run (if ad_last w then METADATA else OTHER_WORDS) ms ws"

definition cms_out :: "cms_sys \<Rightarrow> 32 word list" where
  "cms_out s = map entity (snd s)"

definition cms_pend :: "cms_sys \<Rightarrow> 32 word list" where
  "cms_pend s = (let c = top_cms (fst s) in que (values_stream c) @
     ingress_run (cms_state c) (que (metadata_input (top_net (fst s)))) (que (data_input (top_net (fst s)))))"

definition cms_work :: "cms_sys \<Rightarrow> nat" where
  "cms_work s = length (que (metadata_input (top_net (fst s)))) +
     2 * length (que (data_input (top_net (fst s)))) + length (que (values_stream (top_cms (fst s))))"

lemma read_heap_frame:
  "sketch (snd (read_heap ho k c)) = sketch c"
  "values_stream (snd (read_heap ho k c)) = values_stream c"
  "cms_state (snd (read_heap ho k c)) = cms_state c"
  "hashes_addresses (snd (read_heap ho k c)) = hashes_addresses c"
  by (simp_all add: read_heap_def Let_def split: prod.split)

lemma cms_clock_simps:
  "cms_clock k (t, l) =
     (let (net, c) = cms_net_ingress (top_net t) (top_cms t);
          (kv, c1) = write_to_heap c;
          (ho, c2) = read_heap (top_heap_out t) k c1
      in (t\<lparr>top_host := pass_packets (top_host t), top_net := net, top_heap_out := ho, top_cms := c2\<rparr>,
          l @ (case kv of None \<Rightarrow> [] | Some x \<Rightarrow> [x])))"
  by (simp add: cms_clock_def cms_ikernel_def cms_step_def Let_def split: prod.split)

lemma write_to_heap_frame:
  "cms_state (snd (write_to_heap c)) = cms_state c"
  "values_stream (snd (write_to_heap c)) = (values_stream c)\<lparr>que := tl (que (values_stream c))\<rparr>"
  "map entity (case fst (write_to_heap c) of None \<Rightarrow> [] | Some x \<Rightarrow> [x]) = take 1 (que (values_stream c))"
  by (cases "que (values_stream c)"; auto simp: write_to_heap_def stream_defs Let_def)+

lemmas cms_sys_defs = cms_out_def cms_pend_def cms_work_def

lemma ingress_run_no_words [simp]: "ingress_run st ms [] = []"
  by (cases st; cases ms) simp_all

text \<open>One call of \<open>net_ingress\<close>: what has gone into \<open>_values_stream\<close> and what the inputs still hold is constant.\<close>

lemma cms_net_ingress_conserves:
  assumes "cms_net_ingress p c = (p', c')"
  shows "que (values_stream c') @ ingress_run (cms_state c') (que (metadata_input p')) (que (data_input p')) =
    que (values_stream c) @ ingress_run (cms_state c) (que (metadata_input p)) (que (data_input p))"
  using assms
  by (cases "cms_state c"; cases "que (metadata_input p)"; cases "que (data_input p)")
    (auto simp: cms_net_ingress_def stream_defs split: if_splits)

lemma cms_net_ingress_work:
  assumes "cms_net_ingress p c = (p', c')"
    "que (values_stream c) @ ingress_run (cms_state c) (que (metadata_input p)) (que (data_input p)) \<noteq> []"
    "depth (values_stream c) \<noteq> Some 0"
  shows "length (que (metadata_input p')) + 2 * length (que (data_input p')) + length (tl (que (values_stream c'))) <
    length (que (metadata_input p)) + 2 * length (que (data_input p)) + length (que (values_stream c))"
  using assms
  by (cases "cms_state c"; cases "que (metadata_input p)"; cases "que (data_input p)"; cases "que (values_stream c)")
    (auto simp: cms_net_ingress_def stream_defs s_full_def split: if_splits option.splits)

lemma cms_net_ingress_frame:
  assumes "cms_net_ingress p c = (p', c')"
  shows "depth (values_stream c') = depth (values_stream c)" "sketch c' = sketch c"
    "hashes_addresses c' = hashes_addresses c"
  using assms
  by (cases "cms_state c"; auto simp: cms_net_ingress_def stream_defs split: if_splits)+

definition cms_ready :: "cms_sys \<Rightarrow> bool" where
  "cms_ready s \<longleftrightarrow> depth (values_stream (top_cms (fst s))) \<noteq> Some 0"

interpretation cms: stage "cms_clock k" cms_out cms_pend cms_work cms_ready
proof unfold_locales
  fix s :: cms_sys
  obtain t l where s: "s = (t, l)" by (cases s)
  obtain net c where i: "cms_net_ingress (top_net t) (top_cms t) = (net, c)" by fastforce
  obtain kv c1 where w: "write_to_heap c = (kv, c1)" by fastforce
  obtain ho c2 where r: "read_heap (top_heap_out t) k c1 = (ho, c2)" by fastforce
  note frames = write_to_heap_frame [of c] read_heap_frame [of "top_heap_out t" k c1]
    cms_net_ingress_frame [OF i]
  have step: "cms_clock k (t, l) = (t\<lparr>top_host := pass_packets (top_host t), top_net := net,
      top_heap_out := ho, top_cms := c2\<rparr>, l @ (case kv of None \<Rightarrow> [] | Some x \<Rightarrow> [x]))"
    by (simp add: cms_clock_simps i w r)
  let ?rest = "ingress_run (cms_state c) (que (metadata_input net)) (que (data_input net))"
  have "cms_out (cms_clock k s) = map entity l @ take 1 (que (values_stream c))"
    using write_to_heap_frame(3) [of c] w by (simp add: s step cms_out_def)
  moreover have "cms_pend (cms_clock k s) = tl (que (values_stream c)) @ ?rest"
    using frames w r by (simp add: s step cms_pend_def Let_def)
  moreover have "take 1 (que (values_stream c)) @ tl (que (values_stream c)) = que (values_stream c)"
    by (cases "que (values_stream c)") simp_all
  ultimately have "cms_out (cms_clock k s) @ cms_pend (cms_clock k s) = map entity l @ que (values_stream c) @ ?rest"
    by (simp only: append.assoc) (simp only: append.assoc [symmetric])
  then show "cms_out (cms_clock k s) @ cms_pend (cms_clock k s) = cms_out s @ cms_pend s"
    using cms_net_ingress_conserves [OF i] by (simp add: cms_out_def cms_pend_def s Let_def)
  show "cms_ready (cms_clock k s)" if "cms_ready s"
    using that frames w r by (simp add: step cms_ready_def s)
  show "cms_work (cms_clock k s) < cms_work s" if "cms_ready s" "cms_pend s \<noteq> []"
    using cms_net_ingress_work [OF i] frames w r that
    by (simp add: step cms_sys_defs cms_ready_def s Let_def)
qed

text \<open>
  While no hash parameter is written, the sketch has counted exactly the entities told to the heap, and
  each pair told carries the estimate at its time.
\<close>

definition told_counts :: "value_and_frequency list \<Rightarrow> (32 word \<times> nat) list" where
  "told_counts l = map (\<lambda>kv. (entity kv, 1)) l"

definition told_ok :: "32 word list list \<Rightarrow> cms_sys \<Rightarrow> bool" where
  "told_ok hs s \<longleftrightarrow> que (hashes_addresses (top_cms (fst s))) = [] \<and>
     sketch (top_cms (fst s)) = update_all (told_counts (snd s)) (sketch_new hs) \<and>
     (\<forall>i < length (snd s). frequency (snd s ! i) =
        estimate (entity (snd s ! i)) (update_all (told_counts (take (Suc i) (snd s))) (sketch_new hs)))"

lemma write_to_heap_told:
  assumes "que (hashes_addresses c) = []" "write_to_heap c = (kv, c')"
  shows "que (hashes_addresses c') = []"
    "kv = None \<Longrightarrow> sketch c' = sketch c"
    "kv = Some x \<Longrightarrow> sketch c' = cms_update (entity x) 1 (sketch c) \<and> frequency x = estimate (entity x) (sketch c')"
  using assms by (auto simp: write_to_heap_def stream_defs Let_def split: if_splits)

lemma told_ok_clock:
  assumes "told_ok hs s"
  shows "told_ok hs (cms_clock k s)"
proof -
  obtain t l where s: "s = (t, l)" by (cases s)
  obtain net c where i: "cms_net_ingress (top_net t) (top_cms t) = (net, c)" by fastforce
  obtain kv c1 where w: "write_to_heap c = (kv, c1)" by fastforce
  obtain ho c2 where r: "read_heap (top_heap_out t) k c1 = (ho, c2)" by fastforce
  have h: "que (hashes_addresses c) = []" "sketch c = update_all (told_counts l) (sketch_new hs)"
    using assms cms_net_ingress_frame [OF i] by (auto simp: told_ok_def s)
  have c2: "hashes_addresses c2 = hashes_addresses c1" "sketch c2 = sketch c1"
    using read_heap_frame [of "top_heap_out t" k c1] r by auto
  show ?thesis
  proof (cases kv)
    case None
    then show ?thesis
      using write_to_heap_told [OF h(1) w] h c2 assms by (simp add: s cms_clock_simps i w r told_ok_def)
  next
    case (Some x)
    then have sk: "sketch c1 = update_all (told_counts (l @ [x])) (sketch_new hs)"
      "frequency x = estimate (entity x) (sketch c1)"
      using write_to_heap_told(3) [OF h(1) w Some] h(2) by (simp_all add: update_all_def told_counts_def)
    then show ?thesis
      using write_to_heap_told(1) [OF h(1) w] c2 assms Some
      by (auto simp: s cms_clock_simps i w r told_ok_def nth_append less_Suc_eq)
  qed
qed

lemma told_ok_run: "told_ok hs s \<Longrightarrow> told_ok hs ((cms_clock k ^^ n) s)"
  by (induction n) (simp_all add: told_ok_clock)

lemma ingress_run_rest:
  "is_packet ad_last p \<Longrightarrow> ingress_run OTHER_WORDS ms (p @ ws) = ingress_run METADATA ms ws"
  by (induction p) (auto simp: is_packet_Cons split: if_splits)

lemma ingress_run_packet:
  "is_packet ad_last p \<Longrightarrow> ingress_run METADATA (m # ms) (p @ ws) = cms_value (hd p) # ingress_run METADATA ms ws"
  by (cases p) (auto simp: is_packet_Cons ingress_run_rest split: if_splits)

lemma ingress_run_packets:
  "length ms = length pkts \<Longrightarrow> \<forall>p \<in> set pkts. is_packet ad_last p \<Longrightarrow>
   ingress_run METADATA ms (concat pkts) = map (\<lambda>p. cms_value (hd p)) pkts"
  by (induction ms pkts rule: list_induct2) (simp_all add: ingress_run_packet)

lemma item_count_told: "item_count x (told_counts l) = count_list (map entity l) x"
  by (induction l) (auto simp: item_count_def told_counts_def)

lemma total_count_told: "total_count (told_counts l) = length l"
  by (induction l) (auto simp: total_count_def told_counts_def)

definition cms_init :: "32 word list list \<Rightarrow> nat option \<Rightarrow> cms" where
  "cms_init hs d = \<lparr>cms_state = METADATA, cms_read_state = INITIAL, values_stream = s_new d,
     hashes_addresses = s_new (Some 6), hashes_values = s_new (Some 6), topK_read_request = s_new (Some 1),
     topK_values = s_new (Some 4), reading_heap = False, reading_index = 0, cms_k = 0,
     next_topK_pair = \<lparr>entity = 0, frequency = 0\<rparr>, sketch = sketch_new hs\<rparr>"

lemma estimate_told:
  assumes "told_ok hs (t, l)" "length l < 2 ^ 31" "i < length l"
  shows "count_list (map entity (take (Suc i) l)) (entity (l ! i)) \<le> unat (frequency (l ! i)) \<and>
    unat (frequency (l ! i)) \<le> Suc i"
proof -
  let ?us = "told_counts (take (Suc i) l)" and ?s = "sketch_new hs" and ?x = "entity (l ! i)"
  let ?c = "\<lambda>j. colliding (hashval ?s j) (hashval ?s j ?x) ?us"
  have tot: "total_count ?us = Suc i" using assms(3) by (simp add: total_count_told)
  have f: "frequency (l ! i) = of_nat (min (min (?c 0) (?c 1)) (?c 2))"
    using assms estimate_eq [of ?us ?x hs] tot by (simp add: told_ok_def)
  have le: "?c 0 \<le> Suc i" using colliding_le_total [of _ _ ?us] tot by metis
  then have "unat (frequency (l ! i)) = min (min (?c 0) (?c 1)) (?c 2)"
    unfolding f using assms(2,3) by (simp add: unsigned_of_nat take_bit_nat_eq_self del: of_nat_min)
  moreover have "item_count ?x ?us \<le> min (min (?c 0) (?c 1)) (?c 2)"
    by (intro min.boundedI item_count_le_colliding)
  ultimately show ?thesis using le by (simp add: item_count_told)
qed

text \<open>
  A fresh heavy-hitters ikernel that is clocked over any waiting packets tells the heap, for each packet in
  order, the 32-bit value 14 bytes into its first word, together with a frequency that is at least the number
  of times the value has occurred so far and at most the number of packets so far.
\<close>
lemma cms_tells_heap:
  assumes "top_cms t = cms_init hs d" "d \<noteq> Some 0"
    "que (data_input (top_net t)) = concat pkts" "\<forall>p \<in> set pkts. is_packet ad_last p"
    "length (que (metadata_input (top_net t))) = length pkts" "length pkts < 2 ^ 31"
  shows "\<exists>n. let l = snd ((cms_clock k ^^ n) (t, [])) in
    map entity l = map (\<lambda>p. cms_value (hd p)) pkts \<and>
    (\<forall>i < length pkts. count_list (map entity (take (Suc i) l)) (entity (l ! i)) \<le> unat (frequency (l ! i)) \<and>
      unat (frequency (l ! i)) \<le> Suc i)"
proof -
  have "cms_ready (t, [])" using assms(1,2) by (simp add: cms_ready_def cms_init_def s_new_def)
  from cms.drains [OF this] obtain n where
    n: "cms_out ((cms_clock k ^^ n) (t, [])) = cms_out (t, []) @ cms_pend (t, [])" by blast
  obtain t' l where l: "(cms_clock k ^^ n) (t, []) = (t', l)" by fastforce
  have m: "map entity l = map (\<lambda>p. cms_value (hd p)) pkts"
    using n l assms by (simp add: cms_sys_defs cms_init_def s_new_def ingress_run_packets)
  have "told_ok hs (t, [])"
    using assms(1) by (simp add: told_ok_def cms_init_def s_new_def update_all_def told_counts_def)
  then have "told_ok hs (t', l)" using told_ok_run [of hs "(t, [])" n k] l by simp
  moreover have "length l = length pkts" using m by (metis length_map)
  ultimately show ?thesis using estimate_told [of hs t' l] assms(6) m l by (intro exI [of _ n]) simp
qed

definition demo_cms_top :: cms_top where
  "demo_cms_top =
     (let p = \<lparr>metadata_input = s_new None, data_input = s_new None, metadata_output = s_new None, data_output = s_new None\<rparr>;
          m = metadata_from_int 0
      in \<lparr>top_net = p\<lparr>metadata_input := \<lparr>depth = None, que = [m, m]\<rparr>,
                     data_input := \<lparr>depth = None, que = [\<lparr>ad_data = 5, ad_keep = 0, ad_last = True\<rparr>,
                                           \<lparr>ad_data = 5, ad_keep = 0, ad_last = True\<rparr>]\<rparr>\<rparr>,
          top_host = p, top_heap_out = s_new None, top_cms = cms_init [[1, 0], [3, 1], [5, 2]] (Some 2)\<rparr>)"

text \<open>
  The register interface hands out the top-K pairs in order: from the initial read state, two reads of
  \<open>TOPK_READ_NEXT_VALUE\<close> return the entity and then the frequency of the oldest waiting pair, remove exactly
  this pair and return to the initial state; with no pair waiting the read reports busy and changes nothing.
\<close>
lemma cms_topK_readout:
  assumes "cms_read_state s = INITIAL"
  shows "case que (topK_values s) of
      [] \<Rightarrow> cms_reg_read TOPK_READ_NEXT_VALUE v s = (GW_BUSY, v, s)
    | kv # kvs \<Rightarrow>
       (case cms_reg_read TOPK_READ_NEXT_VALUE v s of (st1, v1, s1) \<Rightarrow>
        case cms_reg_read TOPK_READ_NEXT_VALUE v' s1 of (st2, v2, s2) \<Rightarrow>
          (st1, v1) = (GW_CODE 0, entity kv) \<and> (st2, v2) = (GW_CODE 0, frequency kv) \<and>
          cms_read_state s2 = INITIAL \<and> que (topK_values s2) = kvs \<and> sketch s2 = sketch s)"
  using assms
  by (auto simp: cms_reg_read_def stream_defs Let_def TOPK_READ_NEXT_VALUE_def READ_K_VALUE_def split: list.splits)

end
