(* ===== verification/Ikernel_Top.thy ===== *)
theory Ikernel_Top
  imports Ikernel_Base Packet_Filter
begin

text \<open>
  What the ikernels of \<open>src/ikernels/hls\<close> share: the two pipelines of their ports, the contexts of the
  virtual ikernels, and the top function that \<open>DEFINE_TOP_FUNCTION\<close> of \<open>ikernel.hpp\<close> defines.

  The table of contexts is \<open>ntl::context_manager\<close>, which is not part of the repository: \<open>context_ops\<close> holds the
  operations the ikernels call, over an abstract table \<open>'c\<close> of contexts \<open>'x\<close>. The memory port of an ikernel is
  handled by \<open>ntl\<close> alone and left out.
\<close>

record tc_ikernel_data_counts =
  tc_net :: tc_pipeline_data_counts
  tc_host :: tc_pipeline_data_counts

text \<open>
  \<open>cx_access index get set v read\<close> stands for \<open>gateway_access_field\<close> on the field with the given reader
  and writer, \<open>cx_rmw index f v\<close> for \<open>gateway_rmw\<close>; both return the status, the register value and the table.
\<close>

record ('c, 'x) context_ops =
  cx_get :: "'c \<Rightarrow> nat \<Rightarrow> 'x"
  cx_put :: "'c \<Rightarrow> nat \<Rightarrow> 'x \<Rightarrow> 'c"
  cx_update :: "'c \<Rightarrow> bool \<times> 'c"
  cx_access :: "nat \<Rightarrow> ('x \<Rightarrow> 32 word) \<Rightarrow> (32 word \<Rightarrow> 'x \<Rightarrow> 'x) \<Rightarrow> 32 word \<Rightarrow> bool \<Rightarrow> 'c \<Rightarrow> gw_status \<times> 32 word \<times> 'c"
  cx_rmw :: "nat \<Rightarrow> ('x \<Rightarrow> 32 word \<times> 'x) \<Rightarrow> 32 word \<Rightarrow> 'c \<Rightarrow> gw_status \<times> 32 word \<times> 'c"

definition context_array :: "('c, 'x) context_ops \<Rightarrow> bool" where
  "context_array ops \<longleftrightarrow> (\<forall>c i x. cx_get ops (cx_put ops c i x) = (cx_get ops c)(i := x))"

definition array_context :: "(nat \<Rightarrow> 'x, 'x) context_ops" where
  "array_context =
     \<lparr>cx_get = (\<lambda>c. c), cx_put = (\<lambda>c i x. c(i := x)), cx_update = (\<lambda>c. (False, c)),
      cx_access = (\<lambda>i get set v read c. if read then (GW_DONE, get (c i), c) else (GW_DONE, v, c(i := set v (c i)))),
      cx_rmw = (\<lambda>i f v c. let (w, x) = f (c i) in (GW_DONE, w, c(i := x)))\<rparr>"

lemma context_array_array [simp]: "context_array array_context"
  by (simp add: context_array_def array_context_def)

text \<open>
  \<open>ntl::scheduler\<close> over flows of type \<open>'f\<close>. \<open>sc_next_flow\<close> gets the current values of its two output
  parameters and returns whether it found a flow and the parameters' new values.
\<close>

record ('s, 'f) flow_sched_ops =
  sc_update :: "'s \<Rightarrow> bool \<times> 's"
  sc_schedule :: "'f \<Rightarrow> 's \<Rightarrow> 's"
  sc_next_flow :: "'f \<Rightarrow> 32 word \<Rightarrow> 's \<Rightarrow> bool \<times> 'f \<times> 32 word \<times> 's"
  sc_update_flow :: "'f \<Rightarrow> 32 word \<Rightarrow> 32 word \<Rightarrow> 's \<Rightarrow> 's"
  sc_rpc :: "32 word \<Rightarrow> 32 word \<Rightarrow> ikernel_id_t \<Rightarrow> bool \<Rightarrow> 's \<Rightarrow> gw_status \<times> 32 word \<times> 's"

text \<open>
  The top function: credit updates of the host, the ikernel's step, one register command. \<open>on_base\<close> applies a
  function to the base class part of the ikernel's state.
\<close>

definition ikernel_top ::
  "((ikernel \<Rightarrow> ikernel) \<Rightarrow> 's \<Rightarrow> 's) \<Rightarrow>
   (tc_ikernel_data_counts \<Rightarrow> ports \<times> 's \<Rightarrow> ports \<times> 's) \<Rightarrow>
   (32 word \<Rightarrow> 32 word \<Rightarrow> ikernel_id_t \<Rightarrow> 's \<Rightarrow> gw_status \<times> 's) \<Rightarrow>
   (32 word \<Rightarrow> 32 word \<Rightarrow> ikernel_id_t \<Rightarrow> 's \<Rightarrow> gw_status \<times> 32 word \<times> 's) \<Rightarrow>
   credit_update_registers \<Rightarrow> (31 word \<times> 32 word \<times> ikernel_id_t) option \<Rightarrow> tc_ikernel_data_counts \<Rightarrow>
   ports \<times> 's \<Rightarrow> (gw_status \<times> 32 word) option \<times> ports \<times> 's" where
  "ikernel_top on_base step reg_write reg_read regs cmd tc ps =
     (let (p1, s1) = step tc (fst ps, on_base (host_credits_update_regs regs) (snd ps))
      in case cmd of
           None \<Rightarrow> (None, p1, s1)
         | Some (addr, data, i) \<Rightarrow>
             (let (st, v, s2) = gateway_callback (\<lambda>a d. reg_write a d i) (\<lambda>a d. reg_read a d i) addr data s1
              in (Some (st, v), p1, s2)))"

text \<open>The register a command names: its address without the bit that selects the write handler.\<close>

definition reg_addr :: "31 word \<Rightarrow> 32 word" where
  "reg_addr addr = ucast (addr AND NOT GW_WRITE)"

text \<open>
  The contract of an ikernel's register handlers: an address that is not one of its registers is refused and changes nothing.
  Then a command for such an address leaves the ikernel in the state that the clock without a command gives.
\<close>

locale register_file =
  fixes on_base :: "(ikernel \<Rightarrow> ikernel) \<Rightarrow> 's \<Rightarrow> 's"
    and step :: "tc_ikernel_data_counts \<Rightarrow> ports \<times> 's \<Rightarrow> ports \<times> 's"
    and reg_write :: "32 word \<Rightarrow> 32 word \<Rightarrow> ikernel_id_t \<Rightarrow> 's \<Rightarrow> gw_status \<times> 's"
    and reg_read :: "32 word \<Rightarrow> 32 word \<Rightarrow> ikernel_id_t \<Rightarrow> 's \<Rightarrow> gw_status \<times> 32 word \<times> 's"
    and known :: "32 word \<Rightarrow> bool"
  assumes write_unknown: "\<not> known a \<Longrightarrow> reg_write a v i s = (GW_FAIL, s)"
    and read_unknown: "\<not> known a \<Longrightarrow> \<exists>w. reg_read a v i s = (GW_FAIL, w, s)"
begin

lemma refused:
  "known (reg_addr addr) \<or>
   (\<exists>w. ikernel_top on_base step reg_write reg_read regs (Some (addr, v, i)) tc ps =
          (Some (GW_FAIL, w), snd (ikernel_top on_base step reg_write reg_read regs None tc ps)))"
proof (cases "known (reg_addr addr)")
  case False
  obtain p s where st: "step tc (fst ps, on_base (host_credits_update_regs regs) (snd ps)) = (p, s)" by fastforce
  obtain w where "reg_read (reg_addr addr) v i s = (GW_FAIL, w, s)" using read_unknown [OF False] by blast
  with write_unknown [OF False, of v i s] st show ?thesis
    by (auto simp: ikernel_top_def gateway_callback_def reg_addr_def)
qed simp

end

section \<open>Sending to the host through a custom ring\<close>

text \<open>The metadata of a packet that goes to a custom ring as a message of its own.\<close>

definition to_ring :: "ring_id_t \<Rightarrow> metadata \<Rightarrow> metadata" where
  "to_ring r m = m\<lparr>ring_id := r, var := either_right \<lparr>end_of_message = 1\<rparr>\<rparr>"

lemma metadata_verify_to_ring: "r \<noteq> 0 \<Longrightarrow> metadata_verify (to_ring r m)"
  by (simp add: metadata_verify_iff to_ring_def)

section \<open>Decisions and the dropper\<close>

text \<open>
  The net pipelines of the ikernels that intercept packets have the same shape: a unit decides for each
  metadata whether its packet passes, forwards the metadata if so and queues the decision; a \<open>drop_or_pass\<close>
  applies the decisions to the data. \<open>kept ds ms\<close> are the elements whose decision is to pass.
\<close>

definition kept :: "bool list \<Rightarrow> 'm list \<Rightarrow> 'm list" where
  "kept ds ms = map snd (filter fst (zip ds ms))"

lemma kept_snoc: "length ds = length ms \<Longrightarrow> kept (ds @ [d]) (ms @ [m]) = kept ds ms @ (if d then [m] else [])"
  by (simp add: kept_def)

lemma kept_map: "map f (kept ds ms) = kept ds (map f ms)"
  by (simp add: kept_def zip_map2 filter_map comp_def case_prod_beta)

lemma length_kept: "length ds = length ms \<Longrightarrow> length (kept ds ms) = count_list ds True"
  by (induction ds ms rule: list_induct2) (auto simp: kept_def)

text \<open>A call of the dropper keeps the output it owes under any further decisions and words.\<close>

lemma dropper_owes:
  assumes "drop_or_pass_filter st dec inp outp = (st', dec', inp', outp')"
  shows "que outp' @ filter_run ad_last (dop_mode st') (que dec' @ e) (que inp' @ f) =
    que outp @ filter_run ad_last (dop_mode st) (que dec @ e) (que inp @ f)"
  using assms
  by (cases "que dec"; cases "que inp"; cases "dop_state st")
    (auto simp: dop_defs stream_defs filter_run_take_decision)

end
