(* ===== verification/Passthrough.thy ===== *)
theory Passthrough
  imports Ikernel_Top
begin

text \<open>
  The passthrough ikernel of \<open>src/ikernels/hls/passthrough.cpp\<close>: host traffic is passed on, network traffic is
  passed on or sent to the custom ring of its virtual ikernel, or dropped when the ring has no credit.
\<close>

definition PASSTHROUGH_RING_ID :: "32 word" where "PASSTHROUGH_RING_ID = 0x10"
definition PASSTHROUGH_IGNORE_CREDITS :: "32 word" where "PASSTHROUGH_IGNORE_CREDITS = 0x11"
definition NUM_PASSTHROUGH_CONTEXTS :: nat where "NUM_PASSTHROUGH_CONTEXTS = 2 ^ 6"

record passthrough_context =
  pc_ring_id :: ring_id_t
  pc_ignore_credits :: bool

definition passthrough_context_init :: passthrough_context where
  "passthrough_context_init = \<lparr>pc_ring_id = 0, pc_ignore_credits = False\<rparr>"

record 'c passthrough =
  pt_base :: ikernel
  pt_decisions :: "bool hls_stream"
  pt_dropper :: drop_or_pass
  pt_contexts :: 'c

type_synonym 'c pt_ops = "('c, passthrough_context) context_ops"

definition passthrough_rpc ::
  "'c pt_ops \<Rightarrow> 32 word \<Rightarrow> 32 word \<Rightarrow> ikernel_id_t \<Rightarrow> bool \<Rightarrow> 'c \<Rightarrow> gw_status \<times> 32 word \<times> 'c" where
  "passthrough_rpc ops address v i read c =
     (if address = PASSTHROUGH_RING_ID
      then cx_access ops (unat i) (\<lambda>x. ucast (pc_ring_id x)) (\<lambda>w x. x\<lparr>pc_ring_id := ucast w\<rparr>) v read c
      else if address = PASSTHROUGH_IGNORE_CREDITS
      then cx_access ops (unat i) (\<lambda>x. of_bool (pc_ignore_credits x)) (\<lambda>w x. x\<lparr>pc_ignore_credits := (w \<noteq> 0)\<rparr>) v read c
      else (GW_FAIL, if read then - 1 else v, c))"

definition intercept_in ::
  "'c pt_ops \<Rightarrow> tc_pipeline_data_counts \<Rightarrow> pipeline_ports \<times> 'c passthrough \<Rightarrow> pipeline_ports \<times> 'c passthrough" where
  "intercept_in ops tc ps =
     (let (p, s) = ps;
          (busy, cs) = cx_update ops (pt_contexts s);
          s1 = s\<lparr>pt_contexts := cs\<rparr>
      in if busy then (p, s1)
         else (let (busy2, b) = ikernel_update (pt_base s1);
                   s2 = s1\<lparr>pt_base := b\<rparr>
               in if busy2 then (p, s2)
                  else if \<not> s_empty (metadata_input p) \<and> \<not> s_full (pt_decisions s2)
                  then (let (m, mi) = s_read (metadata_input p);
                            c = cx_get ops (pt_contexts s2) (unat (ikernel_id m));
                            backpressure = (pc_ring_id c \<noteq> 0 \<and> \<not> pc_ignore_credits c \<and>
                              \<not> can_transmit (pt_base s2) tc (ikernel_id m) (pc_ring_id c) (ucast (len m)) HOST);
                            ring = (pc_ring_id c \<noteq> 0 \<and> \<not> backpressure);
                            s3 = (if ring then s2\<lparr>pt_base := new_message (pc_ring_id c) HOST (pt_base s2)\<rparr> else s2);
                            m' = (if ring then to_ring (pc_ring_id c) m else m);
                            p1 = p\<lparr>metadata_input := mi\<rparr>;
                            p2 = (if \<not> backpressure then p1\<lparr>metadata_output := s_write m' (metadata_output p1)\<rparr> else p1)
                        in (p2, s3\<lparr>pt_decisions := s_write (\<not> backpressure) (pt_decisions s3)\<rparr>))
                  else (p, s2)))"

definition passthrough_step ::
  "'c pt_ops \<Rightarrow> tc_ikernel_data_counts \<Rightarrow> ports \<times> 'c passthrough \<Rightarrow> ports \<times> 'c passthrough" where
  "passthrough_step ops tc ps =
     (let (p, s) = ps;
          host = pass_packets (po_host p);
          (net, s1) = intercept_in ops (tc_net tc) (po_net p, s);
          (dr, dec, di, do) = drop_or_pass_filter (pt_dropper s1) (pt_decisions s1) (data_input net) (data_output net)
      in (p\<lparr>po_host := host, po_net := net\<lparr>data_input := di, data_output := do\<rparr>\<rparr>,
          s1\<lparr>pt_dropper := dr, pt_decisions := dec\<rparr>))"

text \<open>The identifier has six bits, so the tests for an identifier out of range never succeed.\<close>

definition passthrough_reg_write ::
  "'c pt_ops \<Rightarrow> 32 word \<Rightarrow> 32 word \<Rightarrow> ikernel_id_t \<Rightarrow> 'c passthrough \<Rightarrow> gw_status \<times> 'c passthrough" where
  "passthrough_reg_write ops address v i s =
     (if unat i \<ge> NUM_PASSTHROUGH_CONTEXTS then (GW_FAIL, s)
      else (let (st, _, cs) = passthrough_rpc ops address v i False (pt_contexts s) in (st, s\<lparr>pt_contexts := cs\<rparr>)))"

definition passthrough_reg_read ::
  "'c pt_ops \<Rightarrow> 32 word \<Rightarrow> 32 word \<Rightarrow> ikernel_id_t \<Rightarrow> 'c passthrough \<Rightarrow> gw_status \<times> 32 word \<times> 'c passthrough" where
  "passthrough_reg_read ops address v i s =
     (if unat i \<ge> NUM_PASSTHROUGH_CONTEXTS then (GW_FAIL, - 1, s)
      else (let (st, w, cs) = passthrough_rpc ops address v i True (pt_contexts s) in (st, w, s\<lparr>pt_contexts := cs\<rparr>)))"

definition passthrough_top ::
  "'c pt_ops \<Rightarrow> credit_update_registers \<Rightarrow> (31 word \<times> 32 word \<times> ikernel_id_t) option \<Rightarrow> tc_ikernel_data_counts \<Rightarrow>
   ports \<times> 'c passthrough \<Rightarrow> (gw_status \<times> 32 word) option \<times> ports \<times> 'c passthrough" where
  "passthrough_top ops = ikernel_top pt_base_update (passthrough_step ops)
     (\<lambda>a v i s. passthrough_reg_write ops a v i s) (\<lambda>a v i s. passthrough_reg_read ops a v i s)"

section \<open>Packets and metadata stay together\<close>

text \<open>
  The fields of a metadata that the ikernel never changes.
\<close>

definition md_key :: "metadata \<Rightarrow> 1 word \<times> flow_id_t \<times> ikernel_id_t \<times> 16 word \<times> 16 word" where
  "md_key m = (pkt_type m, flow_id m, ikernel_id m, ip_identification m, len m)"

lemma md_key_to_ring [simp]: "md_key (to_ring r m) = md_key m"
  by (simp add: md_key_def to_ring_def)

definition ring_ok :: "metadata \<Rightarrow> bool" where
  "ring_ok m \<longleftrightarrow> ring_id m \<noteq> 0 \<longrightarrow> metadata_verify m"

text \<open>
  \<open>in_sync ds ms0 ws0\<close>: the ikernel has decided \<open>ds\<close> for the first metadata of \<open>ms0\<close>, forwarded those that
  pass, and its data output and what the dropper owes are the packets of \<open>ws0\<close> that pass.
\<close>

definition in_sync ::
  "bool list \<Rightarrow> metadata list \<Rightarrow> axi_data list \<Rightarrow> ports \<times> 'c passthrough \<Rightarrow> bool" where
  "in_sync ds ms0 ws0 ps \<longleftrightarrow>
     (let net = po_net (fst ps); s = snd ps in
      length ds + length (que (metadata_input net)) = length ms0 \<and>
      que (metadata_input net) = drop (length ds) ms0 \<and>
      map md_key (que (metadata_output net)) = map md_key (kept ds (take (length ds) ms0)) \<and>
      (\<forall>e. que (data_output net) @ filter_run ad_last (dop_mode (pt_dropper s)) (que (pt_decisions s) @ e) (que (data_input net)) =
        filter_run ad_last None (ds @ e) ws0))"

lemma intercept_in_cases:
  assumes "intercept_in ops tc (p, s) = (p', s')"
  shows "(metadata_input p' = metadata_input p \<and> metadata_output p' = metadata_output p \<and> pt_decisions s' = pt_decisions s) \<or>
    (\<exists>d m m'. que (metadata_input p) = m # que (metadata_input p') \<and> que (pt_decisions s') = que (pt_decisions s) @ [d] \<and>
      que (metadata_output p') = que (metadata_output p) @ (if d then [m'] else []) \<and> md_key m' = md_key m \<and>
      (m' = m \<or> ring_id m' \<noteq> 0 \<and> metadata_verify m'))"
    "data_input p' = data_input p" "data_output p' = data_output p" "pt_dropper s' = pt_dropper s"
  using assms
  by (cases "que (metadata_input p)";
      auto simp: intercept_in_def stream_defs Let_def metadata_verify_to_ring split: prod.splits if_splits;
      auto simp: to_ring_def)+

lemma passthrough_step_net:
  assumes "intercept_in ops (tc_net tc) (po_net p, s) = (net, s1)"
    "drop_or_pass_filter (pt_dropper s1) (pt_decisions s1) (data_input net) (data_output net) = (dr, dec, di, dout)"
  shows "passthrough_step ops tc (p, s) =
    (p\<lparr>po_host := pass_packets (po_host p), po_net := net\<lparr>data_input := di, data_output := dout\<rparr>\<rparr>,
     s1\<lparr>pt_dropper := dr, pt_decisions := dec\<rparr>)"
  using assms by (simp add: passthrough_step_def)

lemma in_sync_step:
  assumes "in_sync ds ms0 ws0 (p, s)"
  shows "\<exists>ds'. in_sync ds' ms0 ws0 (passthrough_step ops tc (p, s))"
proof -
  obtain net s1 where i: "intercept_in ops (tc_net tc) (po_net p, s) = (net, s1)" by fastforce
  obtain dr dec di dout where
    d: "drop_or_pass_filter (pt_dropper s1) (pt_decisions s1) (data_input net) (data_output net) = (dr, dec, di, dout)"
    by (metis prod_cases4)
  note frame = intercept_in_cases(2-4) [OF i] and step = passthrough_step_net [OF i d]
  let ?F = "\<lambda>e. filter_run ad_last (dop_mode (pt_dropper s)) (que (pt_decisions s) @ e) (que (data_input (po_net p)))"
  have old: "length ds + length (que (metadata_input (po_net p))) = length ms0"
    "que (metadata_input (po_net p)) = drop (length ds) ms0"
    "map md_key (que (metadata_output (po_net p))) = map md_key (kept ds (take (length ds) ms0))"
    "que (data_output (po_net p)) @ ?F e = filter_run ad_last None (ds @ e) ws0" for e
    using assms by (simp_all add: in_sync_def Let_def)
  have owes: "que dout @ filter_run ad_last (dop_mode dr) (que dec @ e) (que di) =
      que (data_output (po_net p)) @
      filter_run ad_last (dop_mode (pt_dropper s)) (que (pt_decisions s1) @ e) (que (data_input (po_net p)))" for e
    using dropper_owes [OF d, of _ "[]"] frame by simp
  from intercept_in_cases(1) [OF i] show ?thesis
  proof (rule disjE, goal_cases)
    case 1
    then show ?thesis using old owes step by (intro exI [of _ ds]) (simp add: in_sync_def)
  next
    case 2
    then obtain b m m' where 2: "que (metadata_input (po_net p)) = m # que (metadata_input net)"
      "que (pt_decisions s1) = que (pt_decisions s) @ [b]"
      "que (metadata_output net) = que (metadata_output (po_net p)) @ (if b then [m'] else [])"
      "md_key m' = md_key m" by blast
    then have lt: "length ds < length ms0" "ms0 ! length ds = m"
      using old(1,2) by (metis length_Cons less_add_Suc1 add_Suc_right, metis nth_via_drop)
    have "que (metadata_input net) = drop (Suc (length ds)) ms0"
      using 2(1) old(2) by (metis drop_Suc list.sel(3) tl_drop)
    moreover have "map md_key (que (metadata_output net)) =
        map md_key (kept (ds @ [b]) (take (Suc (length ds)) ms0))"
      using 2 old(3) lt by (simp add: take_Suc_conv_app_nth kept_snoc)
    moreover have "que dout @ filter_run ad_last (dop_mode dr) (que dec @ e) (que di) =
        filter_run ad_last None ((ds @ [b]) @ e) ws0" for e
      using owes [of e] 2(2) old(4) [of "b # e"] by simp
    ultimately show ?thesis
      using old(1) 2(1) step by (intro exI [of _ "ds @ [b]"]) (simp add: in_sync_def)
  qed
qed

definition passthrough_run ::
  "'c pt_ops \<Rightarrow> tc_ikernel_data_counts list \<Rightarrow> ports \<times> 'c passthrough \<Rightarrow> ports \<times> 'c passthrough" where
  "passthrough_run ops tcs ps = fold (passthrough_step ops) tcs ps"

lemma in_sync_run:
  "in_sync ds ms0 ws0 ps \<Longrightarrow> \<exists>ds'. in_sync ds' ms0 ws0 (passthrough_run ops tcs ps)"
proof (induction tcs arbitrary: ds ps)
  case Nil
  then show ?case by (auto simp: passthrough_run_def)
next
  case (Cons tc tcs)
  then obtain ds' where "in_sync ds' ms0 ws0 (passthrough_step ops tc ps)"
    using in_sync_step [of ds ms0 ws0 "fst ps" "snd ps" ops tc] by auto
  from Cons.IH [OF this] show ?case by (simp add: passthrough_run_def)
qed


definition demo_ports :: "metadata list \<Rightarrow> axi_data list \<Rightarrow> ports" where
  "demo_ports ms ws =
     (let e = \<lparr>metadata_input = s_new None, data_input = s_new None, metadata_output = s_new None, data_output = s_new None\<rparr>
      in \<lparr>po_host = e, po_net = e\<lparr>metadata_input := \<lparr>depth = None, que = ms\<rparr>, data_input := \<lparr>depth = None, que = ws\<rparr>\<rparr>\<rparr>)"

definition demo_base :: ikernel where
  "demo_base = \<lparr>host_credits = replicate NUM_CUSTOM_RINGS \<lparr>msn = 0, max_msn = 0\<rparr>, credit_updates = s_new None,
     last_host_credit_regs = \<lparr>cu_ring_id = 0, cu_max_msn = 0, cu_reset = False\<rparr>\<rparr>"

definition demo_passthrough :: "(nat \<Rightarrow> passthrough_context) passthrough" where
  "demo_passthrough = \<lparr>pt_base = demo_base, pt_decisions = s_new (Some 2), pt_dropper = drop_or_pass_init False,
     pt_contexts = (\<lambda>_. \<lparr>pc_ring_id = 3, pc_ignore_credits = True\<rparr>)\<rparr>"

definition demo_last_beat :: axi_data where
  "demo_last_beat = \<lparr>ad_data = 5, ad_keep = 0, ad_last = True\<rparr>"

definition demo_tcs :: tc_ikernel_data_counts where
  "demo_tcs = \<lparr>tc_net = tc_pipeline_data_counts_init, tc_host = tc_pipeline_data_counts_init\<rparr>"


section \<open>Registers\<close>

definition passthrough_registers :: "32 word set" where
  "passthrough_registers = {PASSTHROUGH_RING_ID, PASSTHROUGH_IGNORE_CREDITS}"

interpretation passthrough_regs: register_file pt_base_update "passthrough_step ops"
  "passthrough_reg_write ops" "passthrough_reg_read ops" "\<lambda>a. a \<in> passthrough_registers"
  by unfold_locales (auto simp: passthrough_registers_def passthrough_reg_write_def passthrough_reg_read_def passthrough_rpc_def)

end
