(* ===== verification/Threshold.thy ===== *)
theory Threshold
  imports Passthrough
begin

text \<open>
  The threshold ikernel of \<open>src/ikernels/hls/threshold.cpp\<close>: it extracts a 32-bit value of each packet, drops the
  packets below the threshold of their virtual ikernel, keeps statistics, and sends either the whole packet
  or, when the virtual ikernel has a custom ring, the value alone.

  \<open>pad\<close> stands for the 224 bits of a default-constructed \<open>ap_uint\<close> beside the value that is sent to a ring; the
  \<open>keep\<close> mask of the word excludes them.
\<close>

definition THRESHOLD_MIN :: "32 word" where "THRESHOLD_MIN = 0x10"
definition THRESHOLD_MAX :: "32 word" where "THRESHOLD_MAX = 0x14"
definition THRESHOLD_COUNT :: "32 word" where "THRESHOLD_COUNT = 0x18"
definition THRESHOLD_SUM_LO :: "32 word" where "THRESHOLD_SUM_LO = 0x1c"
definition THRESHOLD_SUM_HI :: "32 word" where "THRESHOLD_SUM_HI = 0x20"
definition THRESHOLD_VALUE :: "32 word" where "THRESHOLD_VALUE = 0x24"
definition THRESHOLD_DROPPED :: "32 word" where "THRESHOLD_DROPPED = 0x28"
definition THRESHOLD_DROPPED_BACKPRESSURE :: "32 word" where "THRESHOLD_DROPPED_BACKPRESSURE = 0x29"
definition THRESHOLD_RING_ID :: "32 word" where "THRESHOLD_RING_ID = 0x2c"
definition NUM_THRESHOLD_CONTEXTS :: nat where "NUM_THRESHOLD_CONTEXTS = 2 ^ 6"

record threshold_context =
  th_value :: "32 word"
  th_min :: "32 word"
  th_max :: "32 word"
  th_count :: "32 word"
  th_dropped :: "32 word"
  th_dropped_backpressure :: "32 word"
  th_sum :: "64 word"
  th_ring_id :: ring_id_t

record decision_t =
  dt_v :: "32 word"
  dt_ring_id :: ring_id_t

datatype parser_state = FIRST | REST

datatype egress_state = IDLE | STREAMING

record 'c threshold =
  t_base :: ikernel
  t_contexts :: 'c
  t_parsed :: "32 word hls_stream"
  data_dup_to_parser :: data_stream
  data_dup_to_egress :: data_stream
  data_egress_to_filter :: data_stream
  t_decisions :: "decision_t hls_stream"
  decision_pass :: "bool hls_stream"
  egress_last_decision :: decision_t
  t_parser_state :: parser_state
  t_egress_state :: egress_state
  t_dropper :: drop_or_pass

type_synonym 'c th_ops = "('c, threshold_context) context_ops"

definition find_ring :: "'c th_ops \<Rightarrow> 'c \<Rightarrow> ikernel_id_t \<Rightarrow> ring_id_t" where
  "find_ring ops c i = th_ring_id (cx_get ops c (unat i))"

definition threshold_rpc ::
  "'c th_ops \<Rightarrow> 32 word \<Rightarrow> 32 word \<Rightarrow> ikernel_id_t \<Rightarrow> bool \<Rightarrow> 'c \<Rightarrow> gw_status \<times> 32 word \<times> 'c" where
  "threshold_rpc ops address v i read c =
     (if address = THRESHOLD_MIN then cx_access ops (unat i) th_min (\<lambda>w x. x\<lparr>th_min := w\<rparr>) v read c
      else if address = THRESHOLD_MAX then cx_access ops (unat i) th_max (\<lambda>w x. x\<lparr>th_max := w\<rparr>) v read c
      else if address = THRESHOLD_COUNT then cx_access ops (unat i) th_count (\<lambda>w x. x\<lparr>th_count := w\<rparr>) v read c
      else if address = THRESHOLD_SUM_LO then
        cx_rmw ops (unat i)
          (\<lambda>x. if read then (ap_range 31 0 (th_sum x), x) else (v, x\<lparr>th_sum := ap_set_range 31 0 v (th_sum x)\<rparr>)) v c
      else if address = THRESHOLD_SUM_HI then
        cx_rmw ops (unat i)
          (\<lambda>x. if read then (ap_range 63 32 (th_sum x), x) else (v, x\<lparr>th_sum := ap_set_range 63 32 v (th_sum x)\<rparr>)) v c
      else if address = THRESHOLD_VALUE then cx_access ops (unat i) th_value (\<lambda>w x. x\<lparr>th_value := w\<rparr>) v read c
      else if address = THRESHOLD_DROPPED then cx_access ops (unat i) th_dropped (\<lambda>w x. x\<lparr>th_dropped := w\<rparr>) v read c
      else if address = THRESHOLD_DROPPED_BACKPRESSURE then
        cx_access ops (unat i) th_dropped_backpressure (\<lambda>w x. x\<lparr>th_dropped_backpressure := w\<rparr>) v read c
      else if address = THRESHOLD_RING_ID then
        cx_access ops (unat i) (\<lambda>x. ucast (th_ring_id x)) (\<lambda>w x. x\<lparr>th_ring_id := ucast w\<rparr>) v read c
      else (GW_FAIL, if read then - 1 else v, c))"

definition add_sample :: "32 word \<Rightarrow> bool \<Rightarrow> bool \<Rightarrow> threshold_context \<Rightarrow> threshold_context" where
  "add_sample v drp backpressure c =
     c\<lparr>th_min := min (th_min c) v, th_max := max (th_max c) v, th_sum := th_sum c + ucast v, th_count := th_count c + 1,
       th_dropped := (if drp \<and> \<not> backpressure then th_dropped c + 1 else th_dropped c),
       th_dropped_backpressure := (if backpressure then th_dropped_backpressure c + 1 else th_dropped_backpressure c)\<rparr>"

definition update_stats :: "'c th_ops \<Rightarrow> ikernel_id_t \<Rightarrow> 32 word \<Rightarrow> bool \<Rightarrow> bool \<Rightarrow> 'c \<Rightarrow> 'c" where
  "update_stats ops i v drp backpressure c =
     cx_put ops c (unat i) (add_sample v drp backpressure (cx_get ops c (unat i)))"

text \<open>The body of \<open>net_ingress\<close> for a metadata and the value of its packet.\<close>

record 'c verdict =
  vd_drop :: bool
  vd_ring_id :: ring_id_t
  vd_meta :: metadata
  vd_base :: ikernel
  vd_contexts :: 'c

definition threshold_decide ::
  "'c th_ops \<Rightarrow> tc_pipeline_data_counts \<Rightarrow> metadata \<Rightarrow> 32 word \<Rightarrow> ikernel \<Rightarrow> 'c \<Rightarrow> 'c verdict" where
  "threshold_decide ops tc m v b cs =
     (let r = find_ring ops cs (ikernel_id m);
          backpressure = (\<not> can_transmit b tc (ikernel_id m) r 4 HOST);
          drp = (v < th_value (cx_get ops cs (unat (ikernel_id m))) \<or> backpressure);
          ring = (\<not> drp \<and> r \<noteq> 0)
      in \<lparr>vd_drop = drp, vd_ring_id = r,
          vd_meta = (if ring then (to_ring r m)\<lparr>len := 4\<rparr> else m),
          vd_base = (if ring then new_message r HOST b else b),
          vd_contexts = update_stats ops (ikernel_id m) v drp backpressure cs\<rparr>)"

definition threshold_net_ingress ::
  "'c th_ops \<Rightarrow> tc_pipeline_data_counts \<Rightarrow> pipeline_ports \<times> 'c threshold \<Rightarrow> pipeline_ports \<times> 'c threshold" where
  "threshold_net_ingress ops tc ps =
     (let (p, s) = ps;
          (busy, cs) = cx_update ops (t_contexts s);
          s1 = s\<lparr>t_contexts := cs\<rparr>
      in if busy then (p, s1)
         else (let (busy2, b) = ikernel_update (t_base s1);
                   s2 = s1\<lparr>t_base := b\<rparr>
               in if busy2 then (p, s2)
                  else if s_empty (metadata_input p) \<or> s_empty (t_parsed s2) \<or> s_full (t_decisions s2) \<or>
                          s_full (decision_pass s2) then (p, s2)
                  else (let (m, mi) = s_read (metadata_input p);
                            (v, pq) = s_read (t_parsed s2);
                            d = threshold_decide ops tc m v (t_base s2) (t_contexts s2);
                            p1 = p\<lparr>metadata_input := mi\<rparr>;
                            p2 = (if \<not> vd_drop d then p1\<lparr>metadata_output := s_write (vd_meta d) (metadata_output p1)\<rparr> else p1)
                        in (p2, s2\<lparr>t_base := vd_base d, t_parsed := pq,
                                   t_decisions := s_write \<lparr>dt_v = v, dt_ring_id = vd_ring_id d\<rparr> (t_decisions s2),
                                   decision_pass := s_write (\<not> vd_drop d) (decision_pass s2),
                                   t_contexts := vd_contexts d\<rparr>))))"

definition value_word :: "224 word \<Rightarrow> 32 word \<Rightarrow> axi_data" where
  "value_word pad v = \<lparr>ad_data = word_cat v pad, ad_keep = 0xf0000000, ad_last = True\<rparr>"

definition threshold_egress :: "224 word \<Rightarrow> 'c threshold \<Rightarrow> 'c threshold" where
  "threshold_egress pad s =
     (case t_egress_state s of
        IDLE \<Rightarrow>
          if s_empty (t_decisions s) \<or> s_full (data_egress_to_filter s) then s
          else (let (d, q) = s_read (t_decisions s);
                    s1 = s\<lparr>t_decisions := q, egress_last_decision := d, t_egress_state := STREAMING\<rparr>
                in if dt_ring_id d \<noteq> 0
                   then s1\<lparr>data_egress_to_filter := s_write (value_word pad (dt_v d)) (data_egress_to_filter s1)\<rparr>
                   else s1)
      | STREAMING \<Rightarrow>
          if s_empty (data_dup_to_egress s) \<or> s_full (data_egress_to_filter s) then s
          else (let (d, q) = s_read (data_dup_to_egress s);
                    s1 = s\<lparr>data_dup_to_egress := q, t_egress_state := (if ad_last d then IDLE else STREAMING)\<rparr>
                in if dt_ring_id (egress_last_decision s) = 0
                   then s1\<lparr>data_egress_to_filter := s_write d (data_egress_to_filter s1)\<rparr>
                   else s1))"

definition parse_value :: "axi_data \<Rightarrow> 32 word" where
  "parse_value d = ap_range (255 - 14 * 8) (256 - 32 - 14 * 8) (ad_data d)"

definition threshold_parser :: "'c threshold \<Rightarrow> 'c threshold" where
  "threshold_parser s =
     (case t_parser_state s of
        FIRST \<Rightarrow>
          if s_empty (data_dup_to_parser s) \<or> s_full (t_parsed s) then s
          else (let (d, q) = s_read (data_dup_to_parser s)
                in s\<lparr>data_dup_to_parser := q, t_parsed := s_write (parse_value d) (t_parsed s),
                     t_parser_state := (if ad_last d then FIRST else REST)\<rparr>)
      | REST \<Rightarrow>
          if s_empty (data_dup_to_parser s) then s
          else (let (d, q) = s_read (data_dup_to_parser s)
                in s\<lparr>data_dup_to_parser := q, t_parser_state := (if ad_last d then FIRST else REST)\<rparr>))"

definition threshold_step ::
  "224 word \<Rightarrow> 'c th_ops \<Rightarrow> tc_ikernel_data_counts \<Rightarrow> ports \<times> 'c threshold \<Rightarrow> ports \<times> 'c threshold" where
  "threshold_step pad ops tc ps =
     (let (p, s) = ps;
          host = pass_packets (po_host p);
          (di, dp, de) = dup (data_input (po_net p)) (data_dup_to_parser s) (data_dup_to_egress s);
          s1 = threshold_parser (s\<lparr>data_dup_to_parser := dp, data_dup_to_egress := de\<rparr>);
          (net, s2) = threshold_net_ingress ops (tc_net tc) ((po_net p)\<lparr>data_input := di\<rparr>, s1);
          s3 = threshold_egress pad s2;
          (dr, dec, fi, dout) = drop_or_pass_filter (t_dropper s3) (decision_pass s3) (data_egress_to_filter s3) (data_output net)
      in (p\<lparr>po_host := host, po_net := net\<lparr>data_output := dout\<rparr>\<rparr>,
          s3\<lparr>t_dropper := dr, decision_pass := dec, data_egress_to_filter := fi\<rparr>))"

definition threshold_reg_write ::
  "'c th_ops \<Rightarrow> 32 word \<Rightarrow> 32 word \<Rightarrow> ikernel_id_t \<Rightarrow> 'c threshold \<Rightarrow> gw_status \<times> 'c threshold" where
  "threshold_reg_write ops address v i s =
     (if unat i \<ge> NUM_THRESHOLD_CONTEXTS then (GW_FAIL, s)
      else (let (st, _, cs) = threshold_rpc ops address v i False (t_contexts s) in (st, s\<lparr>t_contexts := cs\<rparr>)))"

definition threshold_reg_read ::
  "'c th_ops \<Rightarrow> 32 word \<Rightarrow> 32 word \<Rightarrow> ikernel_id_t \<Rightarrow> 'c threshold \<Rightarrow> gw_status \<times> 32 word \<times> 'c threshold" where
  "threshold_reg_read ops address v i s =
     (if unat i \<ge> NUM_THRESHOLD_CONTEXTS then (GW_FAIL, - 1, s)
      else (let (st, w, cs) = threshold_rpc ops address v i True (t_contexts s) in (st, w, s\<lparr>t_contexts := cs\<rparr>)))"

definition threshold_top ::
  "224 word \<Rightarrow> 'c th_ops \<Rightarrow> credit_update_registers \<Rightarrow> (31 word \<times> 32 word \<times> ikernel_id_t) option \<Rightarrow>
   tc_ikernel_data_counts \<Rightarrow> ports \<times> 'c threshold \<Rightarrow> (gw_status \<times> 32 word) option \<times> ports \<times> 'c threshold" where
  "threshold_top pad ops = ikernel_top t_base_update (threshold_step pad ops)
     (threshold_reg_write ops) (threshold_reg_read ops)"

section \<open>Values, metadata and data stay together\<close>

fun parse_run :: "parser_state \<Rightarrow> axi_data list \<Rightarrow> 32 word list" where
  "parse_run st [] = []"
| "parse_run FIRST (w # ws) = parse_value w # parse_run (if ad_last w then FIRST else REST) ws"
| "parse_run REST (w # ws) = parse_run (if ad_last w then FIRST else REST) ws"

fun egress_run ::
  "224 word \<Rightarrow> egress_state \<Rightarrow> decision_t \<Rightarrow> decision_t list \<Rightarrow> axi_data list \<Rightarrow> axi_data list" where
  "egress_run pad IDLE l [] ws = []"
| "egress_run pad IDLE l (d # ds) ws =
     (if dt_ring_id d \<noteq> 0 then [value_word pad (dt_v d)] else []) @ egress_run pad STREAMING d ds ws"
| "egress_run pad STREAMING l ds [] = []"
| "egress_run pad STREAMING l ds (w # ws) =
     (if dt_ring_id l = 0 then [w] else []) @ egress_run pad (if ad_last w then IDLE else STREAMING) l ds ws"

text \<open>What a packet that passes becomes.\<close>

definition sent_as :: "224 word \<Rightarrow> decision_t \<Rightarrow> axi_data list \<Rightarrow> axi_data list" where
  "sent_as pad d p = (if dt_ring_id d = 0 then p else [value_word pad (dt_v d)])"

lemma parse_run_rest: "is_packet ad_last p \<Longrightarrow> parse_run REST (p @ ws) = parse_run FIRST ws"
  by (induction p) (auto simp: is_packet_Cons split: if_splits)

lemma parse_run_packets:
  "\<forall>p \<in> set pkts. is_packet ad_last p \<Longrightarrow> parse_run FIRST (concat pkts) = map (\<lambda>p. parse_value (hd p)) pkts"
proof (induction pkts)
  case (Cons p pkts)
  then show ?case by (cases p) (auto simp: is_packet_Cons parse_run_rest split: if_splits)
qed simp

lemma egress_run_rest:
  "is_packet ad_last p \<Longrightarrow>
   egress_run pad STREAMING l ds (p @ ws) = (if dt_ring_id l = 0 then p else []) @ egress_run pad IDLE l ds ws"
  by (induction p) (auto simp: is_packet_Cons split: if_splits)

lemma egress_run_IDLE_any: "egress_run pad IDLE l ds ws = egress_run pad IDLE l' ds ws"
  by (cases ds) simp_all

lemma egress_run_packets:
  "\<forall>p \<in> set pkts. is_packet ad_last p \<Longrightarrow> length ds \<le> length pkts \<Longrightarrow>
   egress_run pad IDLE l ds (concat pkts) = concat (map2 (sent_as pad) ds pkts)"
proof (induction ds arbitrary: l pkts)
  case (Cons d ds)
  then obtain p ps where pkts: "pkts = p # ps" by (cases pkts) auto
  have "egress_run pad IDLE d ds (concat ps) = concat (map2 (sent_as pad) ds ps)"
    using Cons pkts by simp
  then show ?case using Cons.prems pkts by (simp add: egress_run_rest sent_as_def)
qed simp

lemma is_packet_sent_as: "is_packet ad_last p \<Longrightarrow> is_packet ad_last (sent_as pad d p)"
  by (simp add: sent_as_def is_packet_Cons value_word_def)

text \<open>The metadata fields that the ikernel never changes.\<close>

definition th_key :: "metadata \<Rightarrow> 1 word \<times> flow_id_t \<times> ikernel_id_t \<times> 16 word" where
  "th_key m = (pkt_type m, flow_id m, ikernel_id m, ip_identification m)"

definition th_sync ::
  "224 word \<Rightarrow> bool list \<Rightarrow> decision_t list \<Rightarrow> metadata list \<Rightarrow> axi_data list \<Rightarrow> pipeline_ports \<times> 'c threshold \<Rightarrow> bool" where
  "th_sync pad ds vrs ms0 ws0 ps \<longleftrightarrow>
     (let (net, s) = ps in
      length vrs = length ds \<and> length ds + length (que (metadata_input net)) = length ms0 \<and>
      que (metadata_input net) = drop (length ds) ms0 \<and>
      map th_key (que (metadata_output net)) = map th_key (kept ds (take (length ds) ms0)) \<and>
      map dt_v vrs @ que (t_parsed s) @ parse_run (t_parser_state s) (que (data_dup_to_parser s) @ que (data_input net)) =
        parse_run FIRST ws0 \<and>
      (\<forall>e es. que (data_output net) @
          filter_run ad_last (dop_mode (t_dropper s)) (que (decision_pass s) @ e)
            (que (data_egress_to_filter s) @ egress_run pad (t_egress_state s) (egress_last_decision s)
              (que (t_decisions s) @ es) (que (data_dup_to_egress s) @ que (data_input net))) =
        filter_run ad_last None (ds @ e) (egress_run pad IDLE \<lparr>dt_v = 0, dt_ring_id = 0\<rparr> (vrs @ es) ws0)))"

lemma th_sync_dup:
  assumes "th_sync pad ds vrs ms0 ws0 (net, s)" "dup (data_input net) (data_dup_to_parser s) (data_dup_to_egress s) = (di, dp, de)"
  shows "th_sync pad ds vrs ms0 ws0 (net\<lparr>data_input := di\<rparr>, s\<lparr>data_dup_to_parser := dp, data_dup_to_egress := de\<rparr>)"
proof -
  have "que dp @ que di = que (data_dup_to_parser s) @ que (data_input net)"
    "que de @ que di = que (data_dup_to_egress s) @ que (data_input net)"
    using assms(2) by (cases "que (data_input net)"; auto simp: dup_def stream_defs split: if_splits)+
  then show ?thesis using assms(1) by (simp add: th_sync_def)
qed

lemma th_sync_parser:
  assumes "th_sync pad ds vrs ms0 ws0 (net, s)"
  shows "th_sync pad ds vrs ms0 ws0 (net, threshold_parser s)"
proof -
  let ?s = "threshold_parser s"
  have "que (t_parsed ?s) @ parse_run (t_parser_state ?s) (que (data_dup_to_parser ?s) @ ws) =
      que (t_parsed s) @ parse_run (t_parser_state s) (que (data_dup_to_parser s) @ ws)" for ws
    by (cases "que (data_dup_to_parser s)"; cases "t_parser_state s") (auto simp: threshold_parser_def stream_defs)
  moreover have "t_dropper ?s = t_dropper s" "decision_pass ?s = decision_pass s" "t_decisions ?s = t_decisions s"
    "data_egress_to_filter ?s = data_egress_to_filter s" "t_egress_state ?s = t_egress_state s"
    "egress_last_decision ?s = egress_last_decision s" "data_dup_to_egress ?s = data_dup_to_egress s"
    by (cases "t_parser_state s"; simp add: threshold_parser_def split: prod.split)+
  ultimately show ?thesis using assms by (simp add: th_sync_def)
qed

lemma th_sync_egress:
  assumes "th_sync pad ds vrs ms0 ws0 (net, s)"
  shows "th_sync pad ds vrs ms0 ws0 (net, threshold_egress pad s)"
proof -
  let ?s = "threshold_egress pad s"
  have "que (data_egress_to_filter ?s) @ egress_run pad (t_egress_state ?s) (egress_last_decision ?s)
        (que (t_decisions ?s) @ es) (que (data_dup_to_egress ?s) @ ws) =
      que (data_egress_to_filter s) @ egress_run pad (t_egress_state s) (egress_last_decision s)
        (que (t_decisions s) @ es) (que (data_dup_to_egress s) @ ws)" for es ws
    by (cases "que (data_dup_to_egress s)"; cases "que (t_decisions s)"; cases "t_egress_state s")
      (auto simp: threshold_egress_def stream_defs Let_def)
  moreover have "t_dropper ?s = t_dropper s" "decision_pass ?s = decision_pass s" "t_parsed ?s = t_parsed s"
    "t_parser_state ?s = t_parser_state s" "data_dup_to_parser ?s = data_dup_to_parser s"
    by (cases "t_egress_state s"; simp add: threshold_egress_def Let_def split: prod.split)+
  ultimately show ?thesis using assms by (simp add: th_sync_def)
qed

lemma th_sync_dropper:
  assumes "th_sync pad ds vrs ms0 ws0 (net, s)"
    "drop_or_pass_filter (t_dropper s) (decision_pass s) (data_egress_to_filter s) (data_output net) = (dr, dec, fi, dout)"
  shows "th_sync pad ds vrs ms0 ws0
    (net\<lparr>data_output := dout\<rparr>, s\<lparr>t_dropper := dr, decision_pass := dec, data_egress_to_filter := fi\<rparr>)"
  using assms dropper_owes [OF assms(2)] by (simp add: th_sync_def)

lemma th_key_decide: "th_key (vd_meta (threshold_decide ops tc m v b cs)) = th_key m"
  by (simp add: threshold_decide_def Let_def th_key_def to_ring_def)

lemma threshold_net_ingress_frame:
  assumes "threshold_net_ingress ops tc (p, s) = (p', s')"
  shows "data_input p' = data_input p \<and> data_output p' = data_output p \<and> t_dropper s' = t_dropper s \<and>
    data_dup_to_parser s' = data_dup_to_parser s \<and> data_dup_to_egress s' = data_dup_to_egress s \<and>
    data_egress_to_filter s' = data_egress_to_filter s \<and> egress_last_decision s' = egress_last_decision s \<and>
    t_parser_state s' = t_parser_state s \<and> t_egress_state s' = t_egress_state s"
  using assms by (auto simp: threshold_net_ingress_def Let_def split: prod.splits if_splits)

lemma threshold_net_ingress_cases:
  assumes "threshold_net_ingress ops tc (p, s) = (p', s')"
  obtains (quiet) "metadata_input p' = metadata_input p" "metadata_output p' = metadata_output p" "t_parsed s' = t_parsed s"
      "t_decisions s' = t_decisions s" "decision_pass s' = decision_pass s"
    | (decide) d m m' v r where "que (metadata_input p) = m # que (metadata_input p')" "que (t_parsed s) = v # que (t_parsed s')"
      "que (decision_pass s') = que (decision_pass s) @ [d]"
      "que (t_decisions s') = que (t_decisions s) @ [\<lparr>dt_v = v, dt_ring_id = r\<rparr>]"
      "que (metadata_output p') = que (metadata_output p) @ (if d then [m'] else [])" "th_key m' = th_key m"
proof -
  obtain busy cs where u: "cx_update ops (t_contexts s) = (busy, cs)" by fastforce
  obtain busy2 b where u2: "ikernel_update (t_base s) = (busy2, b)" by fastforce
  show thesis
  proof (cases "busy \<or> busy2 \<or> s_empty (metadata_input p) \<or> s_empty (t_parsed s) \<or> s_full (t_decisions s) \<or> s_full (decision_pass s)")
    case True
    then show thesis using assms u u2 quiet by (auto simp: threshold_net_ingress_def Let_def split: if_splits)
  next
    case False
    then obtain m ms v vs where q: "que (metadata_input p) = m # ms" "que (t_parsed s) = v # vs"
      by (auto simp: s_empty_def neq_Nil_conv)
    show thesis
      using decide [of m v "\<not> vd_drop (threshold_decide ops tc m v b cs)" "vd_ring_id (threshold_decide ops tc m v b cs)"
          "vd_meta (threshold_decide ops tc m v b cs)"] assms u u2 q False
      by (auto simp: threshold_net_ingress_def Let_def s_read_def s_write_def th_key_decide)
  qed
qed

lemma th_sync_net_ingress:
  assumes "th_sync pad ds vrs ms0 ws0 (p, s)" "threshold_net_ingress ops tc (p, s) = (p', s')"
  shows "\<exists>ds' vrs'. th_sync pad ds' vrs' ms0 ws0 (p', s')"
proof -
  note frame = threshold_net_ingress_frame [OF assms(2)]
  have old: "length vrs = length ds" "length ds + length (que (metadata_input p)) = length ms0"
    "que (metadata_input p) = drop (length ds) ms0"
    "map th_key (que (metadata_output p)) = map th_key (kept ds (take (length ds) ms0))"
    using assms(1) by (simp_all add: th_sync_def)
  from assms(2) show ?thesis
  proof (cases rule: threshold_net_ingress_cases)
    case quiet
    then have "th_sync pad ds vrs ms0 ws0 (p', s')" using assms(1) frame by (simp add: th_sync_def)
    then show ?thesis by blast
  next
    case (decide b m m' v r)
    have lt: "length ds < length ms0" "ms0 ! length ds = m"
      using old(2,3) decide(1) by (metis length_Cons less_add_Suc1 add_Suc_right, metis nth_via_drop)
    have "que (metadata_input p') = drop (Suc (length ds)) ms0"
      using decide(1) old(3) by (metis drop_Suc list.sel(3) tl_drop)
    moreover have "map th_key (que (metadata_output p')) = map th_key (kept (ds @ [b]) (take (Suc (length ds)) ms0))"
      using decide(5,6) old(4) lt by (simp add: take_Suc_conv_app_nth kept_snoc)
    moreover have "Suc (length ds) + length (que (metadata_input p')) = length ms0" using old(2) decide(1) by simp
    ultimately have "th_sync pad (ds @ [b]) (vrs @ [\<lparr>dt_v = v, dt_ring_id = r\<rparr>]) ms0 ws0 (p', s')"
      using assms(1) decide(2-4) frame old(1) unfolding th_sync_def prod.case Let_def by simp
    then show ?thesis by blast
  qed
qed

lemma th_sync_step:
  assumes "th_sync pad ds vrs ms0 ws0 (po_net (fst ps), snd ps)"
  shows "\<exists>ds' vrs'. case threshold_step pad ops tc ps of (p', s') \<Rightarrow> th_sync pad ds' vrs' ms0 ws0 (po_net p', s')"
proof -
  obtain p s where ps: "ps = (p, s)" by (cases ps)
  obtain di dp de where d: "dup (data_input (po_net p)) (data_dup_to_parser s) (data_dup_to_egress s) = (di, dp, de)"
    by (metis prod_cases3)
  define s1 where "s1 = threshold_parser (s\<lparr>data_dup_to_parser := dp, data_dup_to_egress := de\<rparr>)"
  obtain net s2 where n: "threshold_net_ingress ops (tc_net tc) ((po_net p)\<lparr>data_input := di\<rparr>, s1) = (net, s2)" by fastforce
  define s3 where "s3 = threshold_egress pad s2"
  obtain dr dec fi dout where
    f: "drop_or_pass_filter (t_dropper s3) (decision_pass s3) (data_egress_to_filter s3) (data_output net) = (dr, dec, fi, dout)"
    by (metis prod_cases4)
  have "th_sync pad ds vrs ms0 ws0 ((po_net p)\<lparr>data_input := di\<rparr>, s1)"
    using assms th_sync_dup [OF _ d] unfolding s1_def ps by (intro th_sync_parser) simp
  then obtain ds' vrs' where "th_sync pad ds' vrs' ms0 ws0 (net, s2)" using th_sync_net_ingress [OF _ n] by blast
  then have "th_sync pad ds' vrs' ms0 ws0 (net, s3)" unfolding s3_def by (rule th_sync_egress)
  from th_sync_dropper [OF this f] show ?thesis
    using d n f by (intro exI [of _ ds'] exI [of _ vrs']) (simp add: ps threshold_step_def s1_def s3_def)
qed

definition threshold_run ::
  "224 word \<Rightarrow> 'c th_ops \<Rightarrow> tc_ikernel_data_counts list \<Rightarrow> ports \<times> 'c threshold \<Rightarrow> ports \<times> 'c threshold" where
  "threshold_run pad ops tcs ps = fold (threshold_step pad ops) tcs ps"

lemma th_sync_run:
  "th_sync pad ds vrs ms0 ws0 (po_net (fst ps), snd ps) \<Longrightarrow>
   \<exists>ds' vrs'. case threshold_run pad ops tcs ps of (p', s') \<Rightarrow> th_sync pad ds' vrs' ms0 ws0 (po_net p', s')"
proof (induction tcs arbitrary: ds vrs ps)
  case Nil
  then show ?case by (cases ps) (auto simp: threshold_run_def)
next
  case (Cons tc tcs)
  then obtain ds' vrs' where
    "th_sync pad ds' vrs' ms0 ws0 (po_net (fst (threshold_step pad ops tc ps)), snd (threshold_step pad ops tc ps))"
    using th_sync_step [OF Cons.prems, of ops tc] by (auto simp: case_prod_beta)
  from Cons.IH [OF this] show ?case by (simp add: threshold_run_def)
qed

definition threshold_init :: "ikernel \<Rightarrow> 'c \<Rightarrow> 'c threshold" where
  "threshold_init b c = \<lparr>t_base = b, t_contexts = c, t_parsed = s_new (Some 2), data_dup_to_parser = s_new (Some 2),
     data_dup_to_egress = s_new (Some 15), data_egress_to_filter = s_new (Some 2), t_decisions = s_new (Some 2),
     decision_pass = s_new (Some 2), egress_last_decision = \<lparr>dt_v = 0, dt_ring_id = 0\<rparr>, t_parser_state = FIRST,
     t_egress_state = IDLE, t_dropper = drop_or_pass_init False\<rparr>"



section \<open>Statistics\<close>

record sample =
  sm_id :: ikernel_id_t
  sm_v :: "32 word"
  sm_drop :: bool
  sm_backpressure :: bool

definition count_sample :: "'c th_ops \<Rightarrow> sample \<Rightarrow> 'c \<Rightarrow> 'c" where
  "count_sample ops x c = update_stats ops (sm_id x) (sm_v x) (sm_drop x) (sm_backpressure x) c"

definition stats_of :: "threshold_context \<Rightarrow> sample list \<Rightarrow> threshold_context" where
  "stats_of c xs =
     c\<lparr>th_min := Min (insert (th_min c) (sm_v ` set xs)), th_max := Max (insert (th_max c) (sm_v ` set xs)),
       th_sum := th_sum c + (\<Sum>x \<leftarrow> xs. ucast (sm_v x)), th_count := th_count c + of_nat (length xs),
       th_dropped := th_dropped c + of_nat (length (filter (\<lambda>x. sm_drop x \<and> \<not> sm_backpressure x) xs)),
       th_dropped_backpressure := th_dropped_backpressure c + of_nat (length (filter sm_backpressure xs))\<rparr>"

lemma stats_of_Cons:
  "stats_of c (x # xs) = stats_of (add_sample (sm_v x) (sm_drop x) (sm_backpressure x) c) xs"
  by (cases "sm_v ` set xs = {}") (auto simp: stats_of_def add_sample_def algebra_simps Min_insert Max_insert min.assoc max.assoc)

text \<open>
  The statistics registers of a virtual ikernel are exact: after any sequence of decided packets of any virtual
  ikernels, the context of one of them has the minimum, maximum, 64-bit sum and count of its own values, and
  the numbers of its packets dropped below the threshold and for back pressure, in the width of the registers.
\<close>
lemma threshold_statistics:
  assumes "context_array ops"
  shows "cx_get ops (fold (count_sample ops) xs c) (unat i) =
    stats_of (cx_get ops c (unat i)) (filter (\<lambda>x. sm_id x = i) xs)"
proof (induction xs arbitrary: c)
  case Nil
  then show ?case by (simp add: stats_of_def)
next
  case (Cons x xs)
  have "cx_get ops (count_sample ops x c) (unat i) =
      (if sm_id x = i then add_sample (sm_v x) (sm_drop x) (sm_backpressure x) (cx_get ops c (unat i))
       else cx_get ops c (unat i))"
    using assms by (auto simp: count_sample_def update_stats_def context_array_def dest: word_unat_eq_iff [THEN iffD2])
  then show ?case using Cons by (simp add: stats_of_Cons)
qed

text \<open>
  A packet passes exactly when its value reaches the threshold of its virtual ikernel and flow control lets a
  four-byte packet through; a packet that passes to a custom ring uses one credit of that ring and no other, and
  its metadata satisfies the assertions of \<open>metadata::verify\<close>; a dropped packet uses no credit.
\<close>
lemma threshold_passes_iff:
  assumes "r = find_ring ops cs (ikernel_id m)" "credit_inv b" "r = 0 \<or> in_table r"
  shows "(let d = threshold_decide ops tc m v b cs in
    (\<not> vd_drop d \<longleftrightarrow> th_value (cx_get ops cs (unat (ikernel_id m))) \<le> v \<and> can_transmit b tc (ikernel_id m) r 4 HOST) \<and>
    (\<not> vd_drop d \<and> r \<noteq> 0 \<longrightarrow> ring_can_transmit (host_credits b ! ring_index r) \<and> metadata_verify (vd_meta d) \<and>
       ring_id (vd_meta d) = r \<and> len (vd_meta d) = 4 \<and>
       host_credits (vd_base d) = (host_credits b)[ring_index r := inc_msn (host_credits b ! ring_index r)]) \<and>
    (vd_drop d \<or> r = 0 \<longrightarrow> vd_base d = b \<and> vd_meta d = m))"
  using assms can_transmit_credit [of b tc "ikernel_id m" r 4]
  by (auto simp: threshold_decide_def Let_def not_less metadata_verify_iff to_ring_def new_message_def)

section \<open>Registers\<close>

definition threshold_registers :: "32 word set" where
  "threshold_registers = {THRESHOLD_MIN, THRESHOLD_MAX, THRESHOLD_COUNT, THRESHOLD_SUM_LO, THRESHOLD_SUM_HI, THRESHOLD_VALUE,
     THRESHOLD_DROPPED, THRESHOLD_DROPPED_BACKPRESSURE, THRESHOLD_RING_ID}"

interpretation threshold_regs: register_file t_base_update "threshold_step pad ops"
  "threshold_reg_write ops" "threshold_reg_read ops" "\<lambda>a. a \<in> threshold_registers"
  for pad ops
  by unfold_locales (auto simp: threshold_registers_def threshold_reg_write_def threshold_reg_read_def threshold_rpc_def)

end
