(* ===== verification/Memcached_Cache.thy ===== *)
theory Memcached_Cache
  imports Ikernel_Top
begin

text \<open>
  The direct-mapped cache of the memcached ikernel, from \<open>src/ikernels/hls/memcached_cache.hpp\<close>. Keys and values are
  byte lists of the sizes \<open>ks\<close> and \<open>vs\<close>, the template parameters. The memory behind the cache is
  \<open>ntl::memory\<close>, which is not part of the repository: \<open>memory_ops\<close> holds the operations that the cache calls.
  \<open>u\<close> is the content of the uninitialised 128-bit words that \<open>byte_array\<close> fills byte by byte.
\<close>

section \<open>Entries\<close>

definition byte_array_of :: "nat \<Rightarrow> 128 word \<Rightarrow> 8 word list" where
  "byte_array_of sz d = map (\<lambda>i. ap_range (8 * i + 7) (8 * i) d) [0..<sz]"

definition byte_array_to :: "nat \<Rightarrow> 128 word \<Rightarrow> 8 word list \<Rightarrow> 128 word" where
  "byte_array_to sz u bs = fold (\<lambda>i r. ap_set_range (8 * i + 7) (8 * i) (bs ! i) r) [0..<sz] u"

record entry =
  en_valid :: bool
  en_key :: "8 word list"
  en_value :: "8 word list"

definition entry_of :: "nat \<Rightarrow> nat \<Rightarrow> 512 word \<Rightarrow> entry" where
  "entry_of ks vs d =
     \<lparr>en_valid = bit d 511, en_key = byte_array_of ks (ap_range 255 128 d), en_value = byte_array_of vs (ap_range 127 0 d)\<rparr>"

definition entry_to :: "nat \<Rightarrow> nat \<Rightarrow> 128 word \<Rightarrow> entry \<Rightarrow> 512 word" where
  "entry_to ks vs u e =
     word_cat (of_bool (en_valid e) :: 1 word) (word_cat (0 :: 255 word)
       (word_cat (byte_array_to ks u (en_key e)) (byte_array_to vs u (en_value e)) :: 256 word) :: 511 word)"

section \<open>The index\<close>

definition h_a :: "nat \<Rightarrow> 8 word list \<Rightarrow> 64 word" where
  "h_a ks tag = fold (\<lambda>i seed. push_bit 5 seed + seed + scast (tag ! i)) [0..<ks div 2] 5381"

definition h_b :: "nat \<Rightarrow> 64 word \<Rightarrow> 8 word list \<Rightarrow> 64 word" where
  "h_b ks seed tag = fold (\<lambda>i seed. push_bit 5 seed + seed + scast (tag ! i)) [ks div 2..<ks] seed"

definition cache_h :: "nat \<Rightarrow> 8 word list \<Rightarrow> nat \<Rightarrow> ikernel_id_t \<Rightarrow> 64 word" where
  "cache_h ks tag log_size i =
     (let hash = ucast (h_b ks (h_a ks tag) tag AND scast (push_bit log_size (1 :: 32 word) - 1)) :: 25 word;
          ik = ucast i :: 10 word
      in word_cat ik hash)"

section \<open>Operations\<close>

record 'm memory_ops =
  mem_write :: "64 word \<Rightarrow> 512 word \<Rightarrow> 'm \<Rightarrow> 'm"
  mem_post_read :: "64 word \<Rightarrow> 'm \<Rightarrow> 'm"
  mem_has_read_response :: "'m \<Rightarrow> bool"
  mem_get_read_response :: "'m \<Rightarrow> 512 word \<times> 'm"
  mem_has_write_response :: "'m \<Rightarrow> bool"
  mem_get_write_response :: "'m \<Rightarrow> 'm"

record memcached_cache =
  outstanding_reads :: "8 word list hls_stream"

definition cache_insert ::
  "'m memory_ops \<Rightarrow> nat \<Rightarrow> nat \<Rightarrow> 128 word \<Rightarrow> 8 word list \<Rightarrow> 8 word list \<Rightarrow> nat \<Rightarrow> ikernel_id_t \<Rightarrow> 'm \<Rightarrow> 'm" where
  "cache_insert ops ks vs u key val log_size i m =
     mem_write ops (cache_h ks key log_size i) (entry_to ks vs u \<lparr>en_valid = True, en_key = key, en_value = val\<rparr>) m"

definition cache_erase ::
  "'m memory_ops \<Rightarrow> nat \<Rightarrow> nat \<Rightarrow> 128 word \<Rightarrow> 8 word list \<Rightarrow> nat \<Rightarrow> ikernel_id_t \<Rightarrow> 'm \<Rightarrow> 'm" where
  "cache_erase ops ks vs u k log_size i m =
     mem_write ops (cache_h ks k log_size i)
       (entry_to ks vs u \<lparr>en_valid = False, en_key = byte_array_of ks 0, en_value = byte_array_of vs 0\<rparr>) m"

definition can_post_find :: "memcached_cache \<Rightarrow> bool" where
  "can_post_find c \<longleftrightarrow> \<not> s_full (outstanding_reads c)"

definition cache_find ::
  "'m memory_ops \<Rightarrow> nat \<Rightarrow> 8 word list \<Rightarrow> nat \<Rightarrow> ikernel_id_t \<Rightarrow> memcached_cache \<times> 'm \<Rightarrow> memcached_cache \<times> 'm" where
  "cache_find ops ks k log_size i cm =
     (let (c, m) = cm
      in if \<not> can_post_find c then (c, m)
         else (c\<lparr>outstanding_reads := s_write k (outstanding_reads c)\<rparr>, mem_post_read ops (cache_h ks k log_size i) m))"

definition has_find_result :: "'m memory_ops \<Rightarrow> memcached_cache \<times> 'm \<Rightarrow> bool" where
  "has_find_result ops cm \<longleftrightarrow> \<not> s_empty (outstanding_reads (fst cm)) \<and> mem_has_read_response ops (snd cm)"

text \<open>
  \<open>read_nb\<close> of an empty stream leaves the default key; the callers test \<open>has_find_result\<close> first. The result is
  \<open>ntl::maybe\<close>.
\<close>

definition get_find_result ::
  "'m memory_ops \<Rightarrow> nat \<Rightarrow> nat \<Rightarrow> memcached_cache \<times> 'm \<Rightarrow> 8 word list option \<times> memcached_cache \<times> 'm" where
  "get_find_result ops ks vs cm =
     (let (c, m) = cm;
          (d, m') = mem_get_read_response ops m;
          ent = entry_of ks vs d;
          (k, c') = (case s_read_nb (outstanding_reads c) of
             None \<Rightarrow> (byte_array_of ks 0, c)
           | Some (k, q) \<Rightarrow> (k, c\<lparr>outstanding_reads := q\<rparr>))
      in (if en_valid ent \<and> en_key ent = k then Some (en_value ent) else None, c', m'))"

section \<open>The packing of entries\<close>

lemma bit_byte_array_to:
  assumes "length bs = sz" "sz \<le> 16"
  shows "bit (byte_array_to sz u bs) n \<longleftrightarrow> (if n < 8 * sz then bit (bs ! (n div 8)) (n mod 8) else bit u n)"
proof -
  have "bit (fold (\<lambda>i r. ap_set_range (8 * i + 7) (8 * i) (bs ! i) r) [0..<j] u) n \<longleftrightarrow>
      (if n < 8 * j then bit (bs ! (n div 8)) (n mod 8) else bit u n)" if "j \<le> sz" for j
    using that
  proof (induction j)
    case (Suc j)
    have "8 * j \<le> n \<and> n \<le> 8 * j + 7 \<longleftrightarrow> n div 8 = j" by auto
    moreover have "n div 8 = j \<Longrightarrow> n - 8 * j = n mod 8" by (metis minus_mult_div_eq_mod)
    ultimately show ?case using Suc assms by (auto simp: bit_ap_set_range)
  qed simp
  from this [of sz] show ?thesis using assms by (simp add: byte_array_to_def)
qed

lemma byte_array_of_to:
  assumes "length bs = sz" "sz \<le> 16"
  shows "byte_array_of sz (byte_array_to sz u bs) = bs"
proof (rule nth_equalityI)
  show "length (byte_array_of sz (byte_array_to sz u bs)) = length bs" using assms by (simp add: byte_array_of_def)
next
  fix i assume "i < length (byte_array_of sz (byte_array_to sz u bs))"
  then have i: "i < sz" by (simp add: byte_array_of_def)
  show "byte_array_of sz (byte_array_to sz u bs) ! i = bs ! i"
    using i assms
    by (intro bit_word_eqI) (auto simp: byte_array_of_def bit_ap_range bit_byte_array_to)
qed

lemma entry_of_to:
  assumes "length (en_key e) = ks" "length (en_value e) = vs" "ks \<le> 16" "vs \<le> 16"
  shows "entry_of ks vs (entry_to ks vs u e) = e"
proof -
  have "bit (entry_to ks vs u e) 511 \<longleftrightarrow> en_valid e"
    by (cases "en_valid e") (simp_all add: entry_to_def bit_simps)
  moreover have "(ap_range 255 128 (entry_to ks vs u e) :: 128 word) = byte_array_to ks u (en_key e)"
    "(ap_range 127 0 (entry_to ks vs u e) :: 128 word) = byte_array_to vs u (en_value e)"
    by (simp_all add: entry_to_def range_simps)
  ultimately show ?thesis using assms by (simp add: entry_of_def byte_array_of_to)
qed

lemma cache_h_ikernel:
  assumes "cache_h ks k l i = cache_h ks k' l' i'"
  shows "i = i'"
proof -
  have "ap_range 34 25 (cache_h ks k l i) = (ucast i :: 10 word)" for k l i
    by (simp add: cache_h_def range_simps)
  then have "(ucast i :: 10 word) = ucast i'" using assms by metis
  then have "bit (ucast i :: 10 word) n = bit (ucast i' :: 10 word) n" for n by simp
  moreover have "bit (ucast x :: 10 word) n = bit x n" if "n < 6" for n and x :: "6 word"
    using that by (simp add: bit_ucast_iff)
  ultimately have "n < 6 \<Longrightarrow> bit i n = bit i' n" for n by metis
  then show ?thesis by (intro bit_word_eqI) simp
qed

section \<open>The cache against a map\<close>

text \<open>
  What the cache relies on of the memory: \<open>cells\<close> is its content and \<open>resp\<close> the responses to the reads posted so
  far that have not been taken; a read returns the content at the time it was posted, in order.
\<close>

definition ram :: "'m memory_ops \<Rightarrow> ('m \<Rightarrow> 64 word \<Rightarrow> 512 word) \<Rightarrow> ('m \<Rightarrow> 512 word list) \<Rightarrow> bool" where
  "ram ops cells resp \<longleftrightarrow>
     (\<forall>a d m. cells (mem_write ops a d m) = (cells m)(a := d) \<and> resp (mem_write ops a d m) = resp m) \<and>
     (\<forall>a m. cells (mem_post_read ops a m) = cells m \<and> resp (mem_post_read ops a m) = resp m @ [cells m a]) \<and>
     (\<forall>m. mem_has_read_response ops m \<longrightarrow> resp m \<noteq> [] \<and> fst (mem_get_read_response ops m) = hd (resp m) \<and>
        cells (snd (mem_get_read_response ops m)) = cells m \<and> resp (snd (mem_get_read_response ops m)) = tl (resp m))"

datatype cache_op =
  Insert ikernel_id_t "8 word list" "8 word list"
| Erase ikernel_id_t "8 word list"
| Find ikernel_id_t "8 word list"
| Take

text \<open>
  The abstract cache is a map from virtual ikernel and key to value. \<open>sys_asked\<close> are its answers at the times of
  the outstanding finds, \<open>sys_log\<close> pairs each result taken with the answer of the map.
\<close>

record 'm cache_sys =
  sys_cache :: memcached_cache
  sys_mem :: 'm
  sys_map :: "ikernel_id_t \<times> 8 word list \<Rightarrow> 8 word list option"
  sys_asked :: "8 word list option list"
  sys_log :: "(8 word list option \<times> 8 word list option) list"

record 'm cache_env =
  ev_ops :: "'m memory_ops"
  ev_ks :: nat
  ev_vs :: nat
  ev_u :: "128 word"
  ev_log_size :: "ikernel_id_t \<Rightarrow> nat"

fun cache_do :: "'m cache_env \<Rightarrow> cache_op \<Rightarrow> 'm cache_sys \<Rightarrow> 'm cache_sys" where
  "cache_do e (Insert i k v) s =
     s\<lparr>sys_mem := cache_insert (ev_ops e) (ev_ks e) (ev_vs e) (ev_u e) k v (ev_log_size e i) i (sys_mem s),
       sys_map := (sys_map s)((i, k) \<mapsto> v)\<rparr>"
| "cache_do e (Erase i k) s =
     s\<lparr>sys_mem := cache_erase (ev_ops e) (ev_ks e) (ev_vs e) (ev_u e) k (ev_log_size e i) i (sys_mem s),
       sys_map := (sys_map s)((i, k) := None)\<rparr>"
| "cache_do e (Find i k) s =
     (let (c, m) = cache_find (ev_ops e) (ev_ks e) k (ev_log_size e i) i (sys_cache s, sys_mem s)
      in s\<lparr>sys_cache := c, sys_mem := m,
           sys_asked := (if can_post_find (sys_cache s) then sys_asked s @ [sys_map s (i, k)] else sys_asked s)\<rparr>)"
| "cache_do e Take s =
     (if has_find_result (ev_ops e) (sys_cache s, sys_mem s)
      then (let (r, c, m) = get_find_result (ev_ops e) (ev_ks e) (ev_vs e) (sys_cache s, sys_mem s)
            in s\<lparr>sys_cache := c, sys_mem := m, sys_asked := tl (sys_asked s),
                 sys_log := sys_log s @ [(hd (sys_asked s), r)]\<rparr>)
      else s)"

definition op_sized :: "'m cache_env \<Rightarrow> cache_op \<Rightarrow> bool" where
  "op_sized e x = (case x of
     Insert i k v \<Rightarrow> length k = ev_ks e \<and> length v = ev_vs e
   | Erase i k \<Rightarrow> length k = ev_ks e
   | Find i k \<Rightarrow> length k = ev_ks e
   | Take \<Rightarrow> True)"

text \<open>A result is sound when a hit is the answer of the map; a miss is always allowed.\<close>

definition sound :: "8 word list option \<Rightarrow> 8 word list option \<Rightarrow> bool" where
  "sound answer result \<longleftrightarrow> result = None \<or> result = answer"

definition entry_hit :: "'m cache_env \<Rightarrow> 8 word list \<Rightarrow> 512 word \<Rightarrow> 8 word list option" where
  "entry_hit e k d = (let x = entry_of (ev_ks e) (ev_vs e) d in if en_valid x \<and> en_key x = k then Some (en_value x) else None)"

definition cache_inv ::
  "'m cache_env \<Rightarrow> ('m \<Rightarrow> 64 word \<Rightarrow> 512 word) \<Rightarrow> ('m \<Rightarrow> 512 word list) \<Rightarrow> 'm cache_sys \<Rightarrow> bool" where
  "cache_inv e cells resp s \<longleftrightarrow>
     (\<forall>i k. sound (sys_map s (i, k)) (entry_hit e k (cells (sys_mem s) (cache_h (ev_ks e) k (ev_log_size e i) i)))) \<and>
     length (sys_asked s) = length (resp (sys_mem s)) \<and>
     list_all2 (\<lambda>k (a, d). sound a (entry_hit e k d)) (que (outstanding_reads (sys_cache s))) (zip (sys_asked s) (resp (sys_mem s))) \<and>
     (\<forall>(a, r) \<in> set (sys_log s). sound a r)"

lemma entry_hit_insert:
  assumes "length k = ev_ks e" "length v = ev_vs e" "ev_ks e \<le> 16" "ev_vs e \<le> 16"
  shows "entry_hit e k' (entry_to (ev_ks e) (ev_vs e) u \<lparr>en_valid = True, en_key = k, en_value = v\<rparr>) =
    (if k' = k then Some v else None)"
  using assms by (simp add: entry_hit_def entry_of_to Let_def)

lemma entry_hit_erase:
  assumes "ev_ks e \<le> 16" "ev_vs e \<le> 16"
  shows "entry_hit e k' (entry_to (ev_ks e) (ev_vs e) u
    \<lparr>en_valid = False, en_key = byte_array_of (ev_ks e) 0, en_value = byte_array_of (ev_vs e) 0\<rparr>) = None"
  using assms by (simp add: entry_hit_def entry_of_to byte_array_of_def Let_def)

lemma cache_inv_do:
  assumes inv: "cache_inv e cells resp s" and ram: "ram (ev_ops e) cells resp"
    and szs: "op_sized e x" "ev_ks e \<le> 16" "ev_vs e \<le> 16"
  shows "cache_inv e cells resp (cache_do e x s)"
proof (cases x)
  case (Insert i k v)
  have "sound (((sys_map s)((i, k) \<mapsto> v)) (i', k')) (entry_hit e k'
      (((cells (sys_mem s))(cache_h (ev_ks e) k (ev_log_size e i) i :=
          entry_to (ev_ks e) (ev_vs e) (ev_u e) \<lparr>en_valid = True, en_key = k, en_value = v\<rparr>))
        (cache_h (ev_ks e) k' (ev_log_size e i') i')))" for i' k'
  proof (cases "cache_h (ev_ks e) k' (ev_log_size e i') i' = cache_h (ev_ks e) k (ev_log_size e i) i")
    case True
    then show ?thesis
      using cache_h_ikernel [OF True] szs Insert by (simp add: entry_hit_insert op_sized_def sound_def)
  next
    case False
    then show ?thesis using inv by (auto simp: cache_inv_def)
  qed
  then show ?thesis
    using inv ram Insert by (simp add: cache_inv_def cache_insert_def ram_def)
next
  case (Erase i k)
  have "sound (((sys_map s)((i, k) := None)) (i', k')) (entry_hit e k'
      (((cells (sys_mem s))(cache_h (ev_ks e) k (ev_log_size e i) i :=
          entry_to (ev_ks e) (ev_vs e) (ev_u e)
            \<lparr>en_valid = False, en_key = byte_array_of (ev_ks e) 0, en_value = byte_array_of (ev_vs e) 0\<rparr>))
        (cache_h (ev_ks e) k' (ev_log_size e i') i')))" for i' k'
    using inv szs by (auto simp: entry_hit_erase sound_def cache_inv_def)
  then show ?thesis
    using inv ram Erase by (simp add: cache_inv_def cache_erase_def ram_def)
next
  case (Find i k)
  show ?thesis
  proof (cases "can_post_find (sys_cache s)")
    case True
    then show ?thesis
      using inv ram Find by (simp add: cache_inv_def cache_find_def ram_def list_all2_appendI)
  next
    case False
    then show ?thesis using inv Find by (simp add: cache_find_def)
  qed
next
  case Take
  show ?thesis
  proof (cases "has_find_result (ev_ops e) (sys_cache s, sys_mem s)")
    case True
    then have has: "mem_has_read_response (ev_ops e) (sys_mem s)" by (simp add: has_find_result_def)
    obtain k q where q: "que (outstanding_reads (sys_cache s)) = k # q"
      using True by (cases "que (outstanding_reads (sys_cache s))") (auto simp: has_find_result_def s_empty_def)
    obtain d m' where g: "mem_get_read_response (ev_ops e) (sys_mem s) = (d, m')" by fastforce
    have r: "resp (sys_mem s) = d # resp m'" "cells m' = cells (sys_mem s)"
      using ram has g unfolding ram_def by (metis fst_conv snd_conv list.collapse, metis snd_conv)
    obtain a as where a: "sys_asked s = a # as" using inv r(1) by (cases "sys_asked s") (auto simp: cache_inv_def)
    define c' where "c' = (sys_cache s)\<lparr>outstanding_reads := (outstanding_reads (sys_cache s))\<lparr>que := q\<rparr>\<rparr>"
    have res: "get_find_result (ev_ops e) (ev_ks e) (ev_vs e) (sys_cache s, sys_mem s) = (entry_hit e k d, c', m')"
      using q g by (simp add: get_find_result_def stream_defs entry_hit_def Let_def c'_def)
    have "que (outstanding_reads c') = q" by (simp add: c'_def)
    then show ?thesis using inv True res q r a by (simp add: Take cache_inv_def)
  next
    case False
    then show ?thesis using inv Take by simp
  qed
qed

definition cache_run :: "'m cache_env \<Rightarrow> cache_op list \<Rightarrow> 'm cache_sys \<Rightarrow> 'm cache_sys" where
  "cache_run e xs s = fold (cache_do e) xs s"

lemma cache_inv_run:
  "cache_inv e cells resp s \<Longrightarrow> ram (ev_ops e) cells resp \<Longrightarrow> \<forall>x \<in> set xs. op_sized e x \<Longrightarrow>
   ev_ks e \<le> 16 \<Longrightarrow> ev_vs e \<le> 16 \<Longrightarrow> cache_inv e cells resp (cache_run e xs s)"
  by (induction xs arbitrary: s) (simp_all add: cache_run_def cache_inv_do)

definition cache_start :: "nat option \<Rightarrow> 'm \<Rightarrow> 'm cache_sys" where
  "cache_start d m = \<lparr>sys_cache = \<lparr>outstanding_reads = s_new d\<rparr>, sys_mem = m, sys_map = (\<lambda>_. None), sys_asked = [], sys_log = []\<rparr>"


text \<open>A memory that answers at once.\<close>

definition demo_memory :: "((64 word \<Rightarrow> 512 word) \<times> 512 word list) memory_ops" where
  "demo_memory = \<lparr>mem_write = (\<lambda>a d m. ((fst m)(a := d), snd m)), mem_post_read = (\<lambda>a m. (fst m, snd m @ [fst m a])),
     mem_has_read_response = (\<lambda>m. snd m \<noteq> []), mem_get_read_response = (\<lambda>m. (hd (snd m), (fst m, tl (snd m)))),
     mem_has_write_response = (\<lambda>m. False), mem_get_write_response = (\<lambda>m. m)\<rparr>"

definition demo_env :: "((64 word \<Rightarrow> 512 word) \<times> 512 word list) cache_env" where
  "demo_env = \<lparr>ev_ops = demo_memory, ev_ks = 2, ev_vs = 1, ev_u = 0, ev_log_size = (\<lambda>_. 3)\<rparr>"


end
