(* ===== verification/Memcached.thy ===== *)
theory Memcached
  imports Memcached_Cache
begin

text \<open>
  The memcached ikernel of \<open>src/ikernels/hls/memcached.cpp\<close> and \<open>memcached-ik.hpp\<close>. Requests from the network are
  parsed and looked up in the cache; hits are answered by the ikernel, everything else passes to the host. GET
  responses of the host are parsed on their way out and inserted into the cache; a SET request erases its key.

  Not part of the repository, and therefore parameters collected in \<open>mc_ops\<close>: the memory and the contexts, the
  programmable FIFOs of \<open>ntl\<close>, and \<open>axi_data::set_data\<close>. \<open>mo_pa\<close> and \<open>mo_junk\<close> are the contents of uninitialised
  structs. The key and value sizes are compile-time constants, \<open>mo_ks\<close> and \<open>mo_vs\<close>.
\<close>

section \<open>Data\<close>

definition VALUE_BYTES_SIZE :: nat where "VALUE_BYTES_SIZE = 2"

definition REPLY_SIZE :: "nat \<Rightarrow> nat \<Rightarrow> nat" where
  "REPLY_SIZE ks vs = 8 + 6 + ks + 3 + VALUE_BYTES_SIZE + 2 + vs + 7"

definition VALUE_POS :: "nat \<Rightarrow> nat" where
  "VALUE_POS ks = 19 + ks + VALUE_BYTES_SIZE"

definition MEMCACHED_RING_COUNT :: nat where "MEMCACHED_RING_COUNT = 2 ^ 10"

text \<open>The digits of the value size as the preprocessor prints them, with the terminating zero of a C string.\<close>

definition ASCII_MEMCACHED_VALUE_SIZE :: "nat \<Rightarrow> 8 word list" where
  "ASCII_MEMCACHED_VALUE_SIZE vs =
     (if vs < 10 then [of_nat (48 + vs), 0] else [of_nat (48 + vs div 10), of_nat (48 + vs mod 10), 0])"

datatype request_type = GET | SET | OTHER

record memcached_parsed_request =
  pr_udp_header :: "8 word list"
  pr_key :: "8 word list"
  pr_type :: request_type
  pr_metadata :: metadata

record memcached_key_value_pair =
  kv_key :: "8 word list"
  kv_value :: "8 word list"
  kv_ikernel_id :: ikernel_id_t

record packet_action =
  pa_action :: bool
  pa_metadata :: metadata
  pa_src_port :: "16 word"
  pa_src_ip :: "32 word"

record memcached_context =
  mc_ring_id :: ring_id_t

record memcached_stats_context =
  st_get_requests :: "32 word"
  st_get_req_hit :: "32 word"
  st_get_req_dropped_hits :: "32 word"
  st_get_req_miss :: "32 word"
  st_set_requests :: "32 word"
  st_n2h_unknown :: "32 word"
  st_get_response :: "32 word"
  st_h2n_unknown :: "32 word"
  st_backpressure_drop_count :: "32 word"
  st_tc_backpressure_drop_count :: "32 word"

record memcached_cache_context =
  cc_log_size :: nat

datatype arb_state = ARB_IDLE | ARB_STREAM

record ikernel_arbiter =
  arb_m1 :: "metadata hls_stream"
  arb_m2 :: "metadata hls_stream"
  arb_d1 :: data_stream
  arb_d2 :: data_stream
  arb_state :: arb_state
  arb_cur :: bool

datatype h2n_packet_type = H2N_GET_RESPONSE | H2N_UNKNOWN

datatype cache_stats_type = STAT_HIT_GEN | STAT_HIT_DROP | STAT_HIT_TC_BACKPRESSURE | STAT_MISS

datatype mc_state = MC_METADATA | MC_DATA

datatype reply_state = REQUEST_METADATA | READ_REQUEST | GENERATE_RESPONSE

datatype mem_resp_state = MEM_RESP_IDLE | MEM_RESP_WAIT

text \<open>\<open>ntl::programmable_fifo\<close>: \<open>full\<close> and \<open>empty\<close> reflect the progress calls, which is all \<open>ntl\<close>'s.\<close>

record ('f, 'a) pfifo_ops =
  pf_empty :: "'f \<Rightarrow> bool"
  pf_full :: "'f \<Rightarrow> bool"
  pf_read :: "'f \<Rightarrow> 'a \<times> 'f"
  pf_read_nb :: "'a \<Rightarrow> 'f \<Rightarrow> 'a \<times> 'f"
  pf_write :: "'a \<Rightarrow> 'f \<Rightarrow> 'f"
  pf_write_nb :: "'a \<Rightarrow> 'f \<Rightarrow> 'f"
  pf_empty_progress :: "'f \<Rightarrow> 'f"
  pf_full_progress :: "'f \<Rightarrow> 'f"

record ('c, 'cc, 'cs, 'm, 'fa, 'fk, 'fr) mc_ops =
  mo_ks :: nat
  mo_vs :: nat
  mo_u :: "128 word"
  mo_pa :: packet_action
  mo_junk :: "8 word list"
  mo_set_data :: "8 word list \<Rightarrow> nat \<Rightarrow> 256 word \<times> 32 word"
  mo_mem :: "'m memory_ops"
  mo_ctx :: "('c, memcached_context) context_ops"
  mo_cache_ctx :: "('cc, memcached_cache_context) context_ops"
  mo_stats_ctx :: "('cs, memcached_stats_context) context_ops"
  mo_actions :: "('fa, bool) pfifo_ops"
  mo_kvs :: "('fk, memcached_key_value_pair) pfifo_ops"
  mo_reqs :: "('fr, memcached_parsed_request) pfifo_ops"

record ('c, 'cc, 'cs, 'm, 'fa, 'fk, 'fr) memcached =
  mc_base :: ikernel
  mc_in_state :: mc_state
  mc_dropper_state :: mc_state
  mc_out_state :: mc_state
  mc_reply_state :: reply_state
  mc_dropper_action :: bool
  mc_request_type_char :: "8 word"
  mc_response_type_char :: "8 word"
  mc_in_offset :: nat
  mc_current_response :: "8 word list"
  mc_index :: memcached_cache
  mc_parsed_request :: memcached_parsed_request
  mc_parsed_response :: memcached_key_value_pair
  mc_in_metadata :: metadata
  mc_out_metadata :: metadata
  mc_action_stream :: 'fa
  mc_kv_pairs_stream :: 'fk
  mc_req_prs2mem :: 'fr
  mc_req_mem2mem :: 'fr
  mc_reply_metadata_stream :: "metadata hls_stream"
  mc_parser_metadata :: "metadata hls_stream"
  mc_buffer_metadata :: "metadata hls_stream"
  mc_parser_data :: data_stream
  mc_buffer_data :: data_stream
  mc_reply_data_stream :: "8 word list hls_stream"
  mc_reply_word :: bool
  mc_out_word :: bool
  mc_intercept_tc_backpressure :: bool
  mc_h2n_arb :: ikernel_arbiter
  mc_h2n_stats :: "(ikernel_id_t \<times> h2n_packet_type) hls_stream"
  mc_n2h_stats :: "(ikernel_id_t \<times> request_type) hls_stream"
  mc_stats_cache :: "(ikernel_id_t \<times> cache_stats_type) hls_stream"
  mc_backpressure_drop :: "(ikernel_id_t \<times> bool) hls_stream"
  mc_packet_action :: "packet_action hls_stream"
  mc_ctx :: 'c
  mc_cache_ctx :: 'cc
  mc_stats_ctx :: 'cs
  mc_mem_resp_state :: mem_resp_state
  mc_mem_resp_req :: memcached_parsed_request
  mc_mem :: 'm
  mc_events :: "bool list"

section \<open>Payloads\<close>

text \<open>Byte \<open>i\<close> of a word in the order of the wire: \<open>d.data.range(255 - i * 8, 255 - ((i + 1) * 8 - 1))\<close>.\<close>

definition data_byte :: "256 word \<Rightarrow> nat \<Rightarrow> 8 word" where
  "data_byte d i = ap_range (255 - i * 8) (255 - ((i + 1) * 8 - 1)) d"

text \<open>
  The index \<open>idx\<close> of the second word is computed as in the source; it is right for a value position of 31 and
  above 32 only. An index outside of the array writes nothing here.
\<close>

definition out_value_idx :: "nat \<Rightarrow> nat \<Rightarrow> int" where
  "out_value_idx ks i =
     (if VALUE_POS ks > 32 then 32 + int i - int (VALUE_POS ks)
      else (32 + int i - int (VALUE_POS ks)) + (31 - int (VALUE_POS ks)))"

definition set_at :: "int \<Rightarrow> 'a \<Rightarrow> 'a list \<Rightarrow> 'a list" where
  "set_at idx x xs = (if idx < 0 then xs else xs[nat idx := x])"

definition parse_out_payload ::
  "nat \<Rightarrow> nat \<Rightarrow> axi_data \<Rightarrow> bool \<Rightarrow> 8 word list \<times> 8 word list \<Rightarrow> 8 word list \<times> 8 word list" where
  "parse_out_payload ks vs d second kv =
     fold (\<lambda>i (key, val).
       let b = data_byte (ad_data d) i;
           key1 = (if \<not> second \<and> 14 \<le> i \<and> i \<le> 14 + ks - 1 then key[i - 14 := b] else key);
           val1 = (if \<not> second \<and> VALUE_POS ks \<le> i then val[i - VALUE_POS ks := b] else val);
           val2 = (if second \<and> int (VALUE_POS ks) - 32 \<le> int i \<and> int i \<le> int (VALUE_POS ks) + int vs - 1 - 32
                   then set_at (out_value_idx ks i) b val1 else val1)
       in (key1, val2)) [0..<32] kv"

definition parse_in_payload ::
  "nat \<Rightarrow> axi_data \<Rightarrow> 8 word list \<times> 8 word list \<Rightarrow> 8 word list \<times> 8 word list" where
  "parse_in_payload ks d hk =
     fold (\<lambda>i (hdr, key).
       let b = data_byte (ad_data d) i
       in (if i < 8 then hdr[i := b] else hdr,
           if 12 \<le> i \<and> i \<le> 12 + ks - 1 then key[i - 12 := b] else key)) [0..<32] hk"

definition memcpy_at :: "nat \<Rightarrow> nat \<Rightarrow> 'a list \<Rightarrow> 'a list \<Rightarrow> 'a list" where
  "memcpy_at n off src dst = take off dst @ memcpy_array n (drop off dst) src"

definition memcached_response_init :: "nat \<Rightarrow> nat \<Rightarrow> 8 word list \<Rightarrow> 8 word list" where
  "memcached_response_init ks vs junk =
     (let d1 = fold (\<lambda>(i, c) d. d[i := c])
            [(8, 0x56), (9, 0x41), (10, 0x4c), (11, 0x55), (12, 0x45), (13, 0x20),
             (14 + ks, 0x20), (15 + ks, 0x30), (16 + ks, 0x20)] junk;
          d2 = memcpy_at VALUE_BYTES_SIZE (17 + ks) (ASCII_MEMCACHED_VALUE_SIZE vs) d1
      in fold (\<lambda>(i, c) d. d[i := c])
            [(17 + ks + VALUE_BYTES_SIZE, 0x0d), (18 + ks + VALUE_BYTES_SIZE, 0x0a),
             (19 + ks + VALUE_BYTES_SIZE + vs, 0x0d), (20 + ks + VALUE_BYTES_SIZE + vs, 0x0a),
             (21 + ks + VALUE_BYTES_SIZE + vs, 0x45), (22 + ks + VALUE_BYTES_SIZE + vs, 0x4e),
             (23 + ks + VALUE_BYTES_SIZE + vs, 0x44), (24 + ks + VALUE_BYTES_SIZE + vs, 0x0d),
             (25 + ks + VALUE_BYTES_SIZE + vs, 0x0a)] d2)"

definition generate_response ::
  "nat \<Rightarrow> nat \<Rightarrow> 8 word list \<Rightarrow> memcached_parsed_request \<Rightarrow> 8 word list \<Rightarrow> 8 word list" where
  "generate_response ks vs junk req val =
     (let r0 = memcached_response_init ks vs junk;
          r1 = memcpy_at 8 0 (pr_udp_header req) r0;
          r2 = memcpy_at ks 14 (pr_key req) r1
      in memcpy_at vs (19 + ks + VALUE_BYTES_SIZE) val r2)"

section \<open>Units\<close>

type_synonym ('c, 'cc, 'cs, 'm, 'fa, 'fk, 'fr) mc_sys = "pipeline_ports \<times> ('c, 'cc, 'cs, 'm, 'fa, 'fk, 'fr) memcached"

definition arbitrate_stream ::
  "ikernel_arbiter \<Rightarrow> data_stream \<Rightarrow> ikernel_arbiter \<times> data_stream" where
  "arbitrate_stream a dout =
     (let q = (if arb_cur a then arb_d2 a else arb_d1 a)
      in if s_empty q then (a, dout)
         else (let (d, q') = s_read q;
                   a1 = (if arb_cur a then a\<lparr>arb_d2 := q'\<rparr> else a\<lparr>arb_d1 := q'\<rparr>)
               in (a1\<lparr>arb_state := (if ad_last d then ARB_IDLE else ARB_STREAM)\<rparr>, s_write d dout)))"

definition arbitrate ::
  "ikernel_arbiter \<times> metadata hls_stream \<times> data_stream \<Rightarrow> ikernel_arbiter \<times> metadata hls_stream \<times> data_stream" where
  "arbitrate s =
     (let (a, mout, dout) = s
      in case arb_state a of
           ARB_IDLE \<Rightarrow>
             if \<not> s_empty (arb_m1 a)
             then (let (m, q) = s_read (arb_m1 a);
                       (a', dout') = arbitrate_stream (a\<lparr>arb_m1 := q, arb_cur := False, arb_state := ARB_STREAM\<rparr>) dout
                   in (a', s_write m mout, dout'))
             else if \<not> s_empty (arb_m2 a)
             then (let (m, q) = s_read (arb_m2 a);
                       (a', dout') = arbitrate_stream (a\<lparr>arb_m2 := q, arb_cur := True, arb_state := ARB_STREAM\<rparr>) dout
                   in (a', s_write m mout, dout'))
             else (a, mout, dout)
         | ARB_STREAM \<Rightarrow> (let (a', dout') = arbitrate_stream a dout in (a', mout, dout')))"

definition read_request ::
  "('c, 'cc, 'cs, 'm, 'fa, 'fk, 'fr) memcached \<Rightarrow> ('c, 'cc, 'cs, 'm, 'fa, 'fk, 'fr) memcached" where
  "read_request s =
     (if \<not> s_empty (mc_reply_data_stream s)
      then (let (r, q) = s_read (mc_reply_data_stream s)
            in s\<lparr>mc_reply_data_stream := q, mc_current_response := r, mc_reply_state := GENERATE_RESPONSE\<rparr>)
      else s)"

definition response_word ::
  "('c, 'cc, 'cs, 'm, 'fa, 'fk, 'fr) mc_ops \<Rightarrow> 8 word list \<Rightarrow> bool \<Rightarrow> axi_data" where
  "response_word ops r second =
     (let (dat, kp) = (if \<not> second then mo_set_data ops r 32
                       else mo_set_data ops (drop 32 r) (REPLY_SIZE (mo_ks ops) (mo_vs ops) - 32))
      in \<lparr>ad_data = dat, ad_keep = kp, ad_last = second\<rparr>)"

definition reply_cached_value ::
  "('c, 'cc, 'cs, 'm, 'fa, 'fk, 'fr) mc_ops \<Rightarrow> ('c, 'cc, 'cs, 'm, 'fa, 'fk, 'fr) memcached \<Rightarrow>
   ('c, 'cc, 'cs, 'm, 'fa, 'fk, 'fr) memcached" where
  "reply_cached_value ops s =
     (case mc_reply_state s of
        REQUEST_METADATA \<Rightarrow>
          if \<not> s_empty (mc_reply_metadata_stream s) \<and> \<not> s_full (arb_m2 (mc_h2n_arb s))
          then (let (m, q) = s_read (mc_reply_metadata_stream s)
                in read_request (s\<lparr>mc_reply_metadata_stream := q,
                     mc_h2n_arb := (mc_h2n_arb s)\<lparr>arb_m2 := s_write m (arb_m2 (mc_h2n_arb s))\<rparr>,
                     mc_reply_state := READ_REQUEST\<rparr>))
          else s
      | READ_REQUEST \<Rightarrow> read_request s
      | GENERATE_RESPONSE \<Rightarrow>
          if s_full (arb_d2 (mc_h2n_arb s)) then s
          else (let d = response_word ops (mc_current_response s) (mc_reply_word s);
                    s1 = s\<lparr>mc_h2n_arb := (mc_h2n_arb s)\<lparr>arb_d2 := s_write d (arb_d2 (mc_h2n_arb s))\<rparr>, mc_reply_word := True\<rparr>
                in if ad_last d then s1\<lparr>mc_reply_state := REQUEST_METADATA, mc_reply_word := False\<rparr> else s1))"

text \<open>
  The word that precedes a packet to a custom ring: the bytes of \<open>src_port\<close> and \<open>src_ip\<close> as they lie in memory,
  least significant first.
\<close>

definition ring_header_word :: "('c, 'cc, 'cs, 'm, 'fa, 'fk, 'fr) mc_ops \<Rightarrow> packet_action \<Rightarrow> axi_data" where
  "ring_header_word ops pa =
     (let buff = map (\<lambda>i. ap_range (8 * i + 7) (8 * i) (pa_src_port pa)) [0..<2] @
                 map (\<lambda>i. ap_range (8 * i + 7) (8 * i) (pa_src_ip pa)) [0..<4] @ replicate 26 0;
          (dat, kp) = mo_set_data ops buff 32
      in \<lparr>ad_data = dat, ad_keep = kp, ad_last = False\<rparr>)"

definition mc_drop_or_pass ::
  "('c, 'cc, 'cs, 'm, 'fa, 'fk, 'fr) mc_ops \<Rightarrow> ('c, 'cc, 'cs, 'm, 'fa, 'fk, 'fr) mc_sys \<Rightarrow> ('c, 'cc, 'cs, 'm, 'fa, 'fk, 'fr) mc_sys" where
  "mc_drop_or_pass ops ps =
     (let (p, s) = ps
      in case mc_dropper_state s of
           MC_METADATA \<Rightarrow>
             if s_empty (mc_packet_action s) then (p, s)
             else (let (pa, q) = s_read (mc_packet_action s);
                       p1 = (if pa_action pa then p\<lparr>metadata_output := s_write (pa_metadata pa) (metadata_output p)\<rparr> else p);
                       p2 = (if ring_id (pa_metadata pa) \<noteq> 0
                             then p1\<lparr>data_output := s_write (ring_header_word ops pa) (data_output p1)\<rparr> else p1)
                   in (p2, s\<lparr>mc_packet_action := q, mc_dropper_action := pa_action pa, mc_dropper_state := MC_DATA\<rparr>))
         | MC_DATA \<Rightarrow>
             if s_empty (mc_buffer_data s) then (p, s)
             else (let (d, q) = s_read (mc_buffer_data s);
                       p1 = (if mc_dropper_action s then p\<lparr>data_output := s_write d (data_output p)\<rparr> else p)
                   in (p1, s\<lparr>mc_buffer_data := q, mc_dropper_state := (if ad_last d then MC_METADATA else MC_DATA)\<rparr>)))"

definition mc_find_ring :: "('c, memcached_context) context_ops \<Rightarrow> 'c \<Rightarrow> ikernel_id_t \<Rightarrow> ring_id_t" where
  "mc_find_ring ops c i = mc_ring_id (cx_get ops c (unat i))"

definition action_resolution ::
  "('c, 'cc, 'cs, 'm, 'fa, 'fk, 'fr) mc_ops \<Rightarrow> tc_pipeline_data_counts \<Rightarrow> ('c, 'cc, 'cs, 'm, 'fa, 'fk, 'fr) memcached \<Rightarrow>
   ('c, 'cc, 'cs, 'm, 'fa, 'fk, 'fr) memcached" where
  "action_resolution ops tc s =
     (let s1 = s\<lparr>mc_action_stream := pf_empty_progress (mo_actions ops) (mc_action_stream s)\<rparr>;
          (busy, c) = cx_update (mo_ctx ops) (mc_ctx s1);
          s2 = s1\<lparr>mc_ctx := c\<rparr>
      in if busy then s2
         else (let (busy2, b) = ikernel_update (mc_base s2);
                   s3 = s2\<lparr>mc_base := b\<rparr>
               in if busy2 then s3
                  else if \<not> pf_empty (mo_actions ops) (mc_action_stream s3) \<and> \<not> s_empty (mc_buffer_metadata s3) \<and>
                          \<not> s_full (mc_backpressure_drop s3) \<and> \<not> s_full (mc_packet_action s3)
                  then (let (m, mq) = s_read (mc_buffer_metadata s3);
                            (act, aq) = pf_read (mo_actions ops) (mc_action_stream s3);
                            r = mc_find_ring (mo_ctx ops) (mc_ctx s3) (ikernel_id m);
                            backpressure = (act \<and> \<not> can_transmit (mc_base s3) tc (ikernel_id m) r (ucast (len m + 32)) HOST);
                            act' = (act \<and> \<not> backpressure);
                            ring = (act' \<and> r \<noteq> 0);
                            pm = get_packet_metadata m;
                            pa = (if ring
                                  then (mo_pa ops)\<lparr>pa_src_port := udp_src pm, pa_src_ip := ip_src pm,
                                         pa_metadata := (to_ring r m)\<lparr>len := len m + 32\<rparr>, pa_action := True\<rparr>
                                  else (mo_pa ops)\<lparr>pa_metadata := m, pa_action := act'\<rparr>)
                        in s3\<lparr>mc_buffer_metadata := mq, mc_action_stream := aq,
                              mc_base := (if ring then new_message r HOST (mc_base s3) else mc_base s3),
                              mc_backpressure_drop := (if backpressure
                                then s_write_nb (ikernel_id m, True) (mc_backpressure_drop s3) else mc_backpressure_drop s3),
                              mc_packet_action := s_write pa (mc_packet_action s3)\<rparr>)
                  else s3))"

definition intercept_out ::
  "('c, 'cc, 'cs, 'm, 'fa, 'fk, 'fr) mc_ops \<Rightarrow> tc_pipeline_data_counts \<Rightarrow> ('c, 'cc, 'cs, 'm, 'fa, 'fk, 'fr) mc_sys \<Rightarrow>
   ('c, 'cc, 'cs, 'm, 'fa, 'fk, 'fr) mc_sys" where
  "intercept_out ops tc ps =
     (let (p, s0) = ps;
          s = s0\<lparr>mc_kv_pairs_stream := pf_full_progress (mo_kvs ops) (mc_kv_pairs_stream s0)\<rparr>;
          arb = mc_h2n_arb s
      in case mc_out_state s of
           MC_METADATA \<Rightarrow>
             if \<not> s_empty (metadata_input p) \<and> \<not> s_full (arb_m1 arb)
             then (let (m, q) = s_read (metadata_input p);
                       bp = (\<not> can_transmit (mc_base s) tc (ikernel_id m) 0 (ucast (len m)) NET)
                   in (p\<lparr>metadata_input := q\<rparr>,
                       s\<lparr>mc_out_metadata := m, mc_intercept_tc_backpressure := bp,
                         mc_h2n_arb := (if \<not> bp then arb\<lparr>arb_m1 := s_write m (arb_m1 arb)\<rparr> else arb),
                         mc_parsed_response := (mc_parsed_response s)\<lparr>kv_ikernel_id := ikernel_id m\<rparr>,
                         mc_out_state := MC_DATA\<rparr>))
             else (p, s)
         | MC_DATA \<Rightarrow>
             if pf_full (mo_kvs ops) (mc_kv_pairs_stream s) then (p, s)
             else if \<not> s_empty (data_input p) \<and> \<not> s_full (arb_d1 arb)
             then (let (d, q) = s_read (data_input p);
                       ty = (if \<not> mc_out_word s then data_byte (ad_data d) 8 else mc_response_type_char s);
                       (k, v) = parse_out_payload (mo_ks ops) (mo_vs ops) d (mc_out_word s)
                                  (kv_key (mc_parsed_response s), kv_value (mc_parsed_response s));
                       s1 = s\<lparr>mc_response_type_char := ty, mc_out_word := True,
                              mc_parsed_response := (mc_parsed_response s)\<lparr>kv_key := k, kv_value := v\<rparr>\<rparr>;
                       i = ikernel_id (mc_out_metadata s1);
                       s2 = (if ad_last d
                             then (if ty = 0x56
                                   then s1\<lparr>mc_kv_pairs_stream := pf_write (mo_kvs ops) (mc_parsed_response s1) (mc_kv_pairs_stream s1),
                                           mc_h2n_stats := s_write (i, H2N_GET_RESPONSE) (mc_h2n_stats s1)\<rparr>
                                   else s1\<lparr>mc_h2n_stats := s_write (i, H2N_UNKNOWN) (mc_h2n_stats s1)\<rparr>)
                                  \<lparr>mc_out_word := False, mc_out_state := MC_METADATA\<rparr>
                             else s1)
                   in (p\<lparr>data_input := q\<rparr>,
                       if \<not> mc_intercept_tc_backpressure s2
                       then s2\<lparr>mc_h2n_arb := (mc_h2n_arb s2)\<lparr>arb_d1 := s_write d (arb_d1 (mc_h2n_arb s2))\<rparr>\<rparr> else s2))
             else (p, s))"

definition MEMCACHED_EVENT_PARSED_REQUESTS_STREAM_FULL :: nat where "MEMCACHED_EVENT_PARSED_REQUESTS_STREAM_FULL = 0"
definition MEMCACHED_EVENT_PARSED_REQUESTS_STREAM_FULL_INTERNAL :: nat where "MEMCACHED_EVENT_PARSED_REQUESTS_STREAM_FULL_INTERNAL = 1"
definition MEMCACHED_EVENT_PARSED_REQUESTS_STREAM_EMPTY :: nat where "MEMCACHED_EVENT_PARSED_REQUESTS_STREAM_EMPTY = 2"
definition MEMCACHED_EVENT_PARSED_REQUESTS_STREAM_READ :: nat where "MEMCACHED_EVENT_PARSED_REQUESTS_STREAM_READ = 3"
definition MEMCACHED_EVENT_PARSED_REQUESTS_STREAM_WRITE :: nat where "MEMCACHED_EVENT_PARSED_REQUESTS_STREAM_WRITE = 4"

definition request_type_of :: "8 word \<Rightarrow> request_type" where
  "request_type_of c = (if c = 0x67 then GET else if c = 0x73 then SET else OTHER)"

definition parse_packet ::
  "('c, 'cc, 'cs, 'm, 'fa, 'fk, 'fr) mc_ops \<Rightarrow> ('c, 'cc, 'cs, 'm, 'fa, 'fk, 'fr) memcached \<Rightarrow> ('c, 'cc, 'cs, 'm, 'fa, 'fk, 'fr) memcached" where
  "parse_packet ops s0 =
     (let ev = (mc_events s0)[MEMCACHED_EVENT_PARSED_REQUESTS_STREAM_FULL := False,
                  MEMCACHED_EVENT_PARSED_REQUESTS_STREAM_FULL_INTERNAL := False,
                  MEMCACHED_EVENT_PARSED_REQUESTS_STREAM_WRITE := False];
          s = s0\<lparr>mc_events := ev, mc_req_prs2mem := pf_full_progress (mo_reqs ops) (mc_req_prs2mem s0)\<rparr>
      in case mc_in_state s of
           MC_METADATA \<Rightarrow>
             if s_empty (mc_parser_metadata s) then s
             else (let (m, q) = s_read (mc_parser_metadata s)
                   in s\<lparr>mc_parser_metadata := q, mc_in_metadata := m,
                        mc_parsed_request := (mc_parsed_request s)\<lparr>pr_metadata := m\<rparr>, mc_in_state := MC_DATA\<rparr>)
         | MC_DATA \<Rightarrow>
             (let requests_full = pf_full (mo_reqs ops) (mc_req_prs2mem s);
                  s1 = s\<lparr>mc_events := (mc_events s)[MEMCACHED_EVENT_PARSED_REQUESTS_STREAM_FULL := requests_full]\<rparr>
              in if s_empty (mc_parser_data s1) \<or> requests_full then s1
                 else (let (d, q) = s_read (mc_parser_data s1);
                           s2 = s1\<lparr>mc_parser_data := q\<rparr>;
                           s3 = (if mc_in_offset s2 = 0
                                 then (let c = data_byte (ad_data d) 8;
                                           r = (mc_parsed_request s2)\<lparr>pr_type := request_type_of c\<rparr>;
                                           (hdr, k) = parse_in_payload (mo_ks ops) d (pr_udp_header r, pr_key r)
                                       in s2\<lparr>mc_request_type_char := c, mc_parsed_request := r\<lparr>pr_udp_header := hdr, pr_key := k\<rparr>,
                                             mc_in_offset := mc_in_offset s2 + 1\<rparr>)
                                 else s2)
                       in if ad_last d
                          then s3\<lparr>mc_n2h_stats := s_write (ikernel_id (pr_metadata (mc_parsed_request s3)), pr_type (mc_parsed_request s3)) (mc_n2h_stats s3),
                                  mc_req_prs2mem := pf_write (mo_reqs ops) (mc_parsed_request s3) (mc_req_prs2mem s3),
                                  mc_events := (mc_events s3)[MEMCACHED_EVENT_PARSED_REQUESTS_STREAM_WRITE := True],
                                  mc_in_offset := 0, mc_in_state := MC_METADATA\<rparr>
                          else s3)))"

definition handle_parsed_packet ::
  "('c, 'cc, 'cs, 'm, 'fa, 'fk, 'fr) mc_ops \<Rightarrow> ('c, 'cc, 'cs, 'm, 'fa, 'fk, 'fr) memcached \<Rightarrow> ('c, 'cc, 'cs, 'm, 'fa, 'fk, 'fr) memcached" where
  "handle_parsed_packet ops s0 =
     (let s = s0\<lparr>mc_kv_pairs_stream := pf_empty_progress (mo_kvs ops) (mc_kv_pairs_stream s0),
                 mc_req_prs2mem := pf_empty_progress (mo_reqs ops) (mc_req_prs2mem s0),
                 mc_req_mem2mem := pf_full_progress (mo_reqs ops) (mc_req_mem2mem s0)\<rparr>;
          (busy, cc) = cx_update (mo_cache_ctx ops) (mc_cache_ctx s);
          s1 = s\<lparr>mc_cache_ctx := cc\<rparr>
      in if busy then s1
         else (let log_size = (\<lambda>i :: ikernel_id_t. cc_log_size (cx_get (mo_cache_ctx ops) cc (unat i)));
                   stream_empty = pf_empty (mo_reqs ops) (mc_req_prs2mem s1);
                   s2 = s1\<lparr>mc_events := (mc_events s1)[MEMCACHED_EVENT_PARSED_REQUESTS_STREAM_EMPTY := stream_empty,
                            MEMCACHED_EVENT_PARSED_REQUESTS_STREAM_READ := False]\<rparr>
               in if \<not> pf_empty (mo_kvs ops) (mc_kv_pairs_stream s2)
                  then (let (kv, q) = pf_read (mo_kvs ops) (mc_kv_pairs_stream s2)
                        in s2\<lparr>mc_kv_pairs_stream := q,
                              mc_mem := cache_insert (mo_mem ops) (mo_ks ops) (mo_vs ops) (mo_u ops) (kv_key kv) (kv_value kv)
                                          (log_size (kv_ikernel_id kv)) (kv_ikernel_id kv) (mc_mem s2)\<rparr>)
                  else if stream_empty \<or> \<not> can_post_find (mc_index s2) \<or> pf_full (mo_reqs ops) (mc_req_mem2mem s2) then s2
                  else (let (r, q) = pf_read (mo_reqs ops) (mc_req_prs2mem s2);
                            i = ikernel_id (pr_metadata r);
                            s3 = s2\<lparr>mc_events := (mc_events s2)[MEMCACHED_EVENT_PARSED_REQUESTS_STREAM_READ := True],
                                    mc_req_prs2mem := q\<rparr>;
                            s4 = (case pr_type r of
                                    GET \<Rightarrow> (let (c, m) = cache_find (mo_mem ops) (mo_ks ops) (pr_key r) (log_size i) i (mc_index s3, mc_mem s3)
                                            in s3\<lparr>mc_index := c, mc_mem := m\<rparr>)
                                  | SET \<Rightarrow> s3\<lparr>mc_mem := cache_erase (mo_mem ops) (mo_ks ops) (mo_vs ops) (mo_u ops) (pr_key r) (log_size i) i (mc_mem s3)\<rparr>
                                  | OTHER \<Rightarrow> s3)
                        in s4\<lparr>mc_req_mem2mem := pf_write_nb (mo_reqs ops) r (mc_req_mem2mem s4)\<rparr>)))"

text \<open>The state \<open>MEM_RESP_WAIT\<close> of \<open>handle_memory_responses\<close>.\<close>

definition mem_resp_done ::
  "('c, 'cc, 'cs, 'm, 'fa, 'fk, 'fr) mc_ops \<Rightarrow> bool \<Rightarrow> ('c, 'cc, 'cs, 'm, 'fa, 'fk, 'fr) memcached \<Rightarrow> ('c, 'cc, 'cs, 'm, 'fa, 'fk, 'fr) memcached" where
  "mem_resp_done ops pass_to_host s =
     s\<lparr>mc_action_stream := pf_write (mo_actions ops) pass_to_host (mc_action_stream s), mc_mem_resp_state := MEM_RESP_IDLE\<rparr>"

definition mem_resp_wait ::
  "('c, 'cc, 'cs, 'm, 'fa, 'fk, 'fr) mc_ops \<Rightarrow> tc_pipeline_data_counts \<Rightarrow> ('c, 'cc, 'cs, 'm, 'fa, 'fk, 'fr) memcached \<Rightarrow> ('c, 'cc, 'cs, 'm, 'fa, 'fk, 'fr) memcached" where
  "mem_resp_wait ops tc s =
     (let i = ikernel_id (pr_metadata (mc_mem_resp_req s)); rs = REPLY_SIZE (mo_ks ops) (mo_vs ops)
      in case pr_type (mc_mem_resp_req s) of
           GET \<Rightarrow>
             if \<not> has_find_result (mo_mem ops) (mc_index s, mc_mem s) then s
             else (let (found, c, m) = get_find_result (mo_mem ops) (mo_ks ops) (mo_vs ops) (mc_index s, mc_mem s);
                       s1 = s\<lparr>mc_index := c, mc_mem := m\<rparr>
                   in case found of
                        Some val \<Rightarrow>
                          mem_resp_done ops False
                            (if \<not> can_transmit (mc_base s1) tc i 0 (of_nat rs) NET
                             then s1\<lparr>mc_stats_cache := s_write (i, STAT_HIT_TC_BACKPRESSURE) (mc_stats_cache s1)\<rparr>
                             else if \<not> s_full (mc_reply_metadata_stream s1) \<and> \<not> s_full (mc_reply_data_stream s1)
                             then s1\<lparr>mc_reply_metadata_stream :=
                                      s_write (metadata_reply (of_nat rs) (pr_metadata (mc_mem_resp_req s1))) (mc_reply_metadata_stream s1),
                                    mc_reply_data_stream :=
                                      s_write (generate_response (mo_ks ops) (mo_vs ops) (mo_junk ops) (mc_mem_resp_req s1) val) (mc_reply_data_stream s1),
                                    mc_stats_cache := s_write (i, STAT_HIT_GEN) (mc_stats_cache s1)\<rparr>
                             else s1\<lparr>mc_stats_cache := s_write (i, STAT_HIT_DROP) (mc_stats_cache s1)\<rparr>)
                      | None \<Rightarrow> mem_resp_done ops True (s1\<lparr>mc_stats_cache := s_write (i, STAT_MISS) (mc_stats_cache s1)\<rparr>))
         | SET \<Rightarrow> mem_resp_done ops True s
         | OTHER \<Rightarrow> mem_resp_done ops True s)"

definition handle_memory_responses ::
  "('c, 'cc, 'cs, 'm, 'fa, 'fk, 'fr) mc_ops \<Rightarrow> tc_pipeline_data_counts \<Rightarrow> ('c, 'cc, 'cs, 'm, 'fa, 'fk, 'fr) memcached \<Rightarrow> ('c, 'cc, 'cs, 'm, 'fa, 'fk, 'fr) memcached" where
  "handle_memory_responses ops tc s0 =
     (let s1 = s0\<lparr>mc_action_stream := pf_full_progress (mo_actions ops) (mc_action_stream s0),
                  mc_req_mem2mem := pf_empty_progress (mo_reqs ops) (mc_req_mem2mem s0)\<rparr>;
          s = (if mem_has_write_response (mo_mem ops) (mc_mem s1)
               then s1\<lparr>mc_mem := mem_get_write_response (mo_mem ops) (mc_mem s1)\<rparr> else s1)
      in case mc_mem_resp_state s of
           MEM_RESP_IDLE \<Rightarrow>
             if pf_empty (mo_reqs ops) (mc_req_mem2mem s) \<or> pf_full (mo_actions ops) (mc_action_stream s) then s
             else (let (r, q) = pf_read_nb (mo_reqs ops) (mc_mem_resp_req s) (mc_req_mem2mem s)
                   in mem_resp_wait ops tc (s\<lparr>mc_req_mem2mem := q, mc_mem_resp_req := r, mc_mem_resp_state := MEM_RESP_WAIT\<rparr>))
         | MEM_RESP_WAIT \<Rightarrow> mem_resp_wait ops tc s)"

definition count_n2h :: "request_type \<Rightarrow> memcached_stats_context \<Rightarrow> memcached_stats_context" where
  "count_n2h r c = (case r of GET \<Rightarrow> c\<lparr>st_get_requests := st_get_requests c + 1\<rparr>
     | SET \<Rightarrow> c\<lparr>st_set_requests := st_set_requests c + 1\<rparr> | OTHER \<Rightarrow> c\<lparr>st_n2h_unknown := st_n2h_unknown c + 1\<rparr>)"

definition count_h2n :: "h2n_packet_type \<Rightarrow> memcached_stats_context \<Rightarrow> memcached_stats_context" where
  "count_h2n r c = (case r of H2N_GET_RESPONSE \<Rightarrow> c\<lparr>st_get_response := st_get_response c + 1\<rparr>
     | H2N_UNKNOWN \<Rightarrow> c\<lparr>st_h2n_unknown := st_h2n_unknown c + 1\<rparr>)"

definition count_cache :: "cache_stats_type \<Rightarrow> memcached_stats_context \<Rightarrow> memcached_stats_context" where
  "count_cache r c = (case r of STAT_HIT_GEN \<Rightarrow> c\<lparr>st_get_req_hit := st_get_req_hit c + 1\<rparr>
     | STAT_HIT_DROP \<Rightarrow> c\<lparr>st_get_req_dropped_hits := st_get_req_dropped_hits c + 1\<rparr>
     | STAT_HIT_TC_BACKPRESSURE \<Rightarrow> c\<lparr>st_tc_backpressure_drop_count := st_tc_backpressure_drop_count c + 1\<rparr>
     | STAT_MISS \<Rightarrow> c\<lparr>st_get_req_miss := st_get_req_miss c + 1\<rparr>)"

definition count_drop :: "bool \<Rightarrow> memcached_stats_context \<Rightarrow> memcached_stats_context" where
  "count_drop r c = c\<lparr>st_backpressure_drop_count := st_backpressure_drop_count c + 1\<rparr>"

text \<open>One event queue: its oldest event is counted in the context of its virtual ikernel.\<close>

definition count_event ::
  "('cs, memcached_stats_context) context_ops \<Rightarrow> ('e \<Rightarrow> memcached_stats_context \<Rightarrow> memcached_stats_context) \<Rightarrow>
   (ikernel_id_t \<times> 'e) hls_stream \<Rightarrow> 'cs \<Rightarrow> (ikernel_id_t \<times> 'e) hls_stream \<times> 'cs" where
  "count_event ops cnt evs c =
     (if s_empty evs then (evs, c)
      else (let ((i, e), q) = s_read evs in (q, cx_put ops c (unat i) (cnt e (cx_get ops c (unat i))))))"

definition mc_update_stats ::
  "('c, 'cc, 'cs, 'm, 'fa, 'fk, 'fr) mc_ops \<Rightarrow> ('c, 'cc, 'cs, 'm, 'fa, 'fk, 'fr) memcached \<Rightarrow> ('c, 'cc, 'cs, 'm, 'fa, 'fk, 'fr) memcached" where
  "mc_update_stats ops s =
     (let (busy, c0) = cx_update (mo_stats_ctx ops) (mc_stats_ctx s)
      in if busy then s\<lparr>mc_stats_ctx := c0\<rparr>
         else (let (q1, c1) = count_event (mo_stats_ctx ops) count_n2h (mc_n2h_stats s) c0;
                   (q2, c2) = count_event (mo_stats_ctx ops) count_h2n (mc_h2n_stats s) c1;
                   (q3, c3) = count_event (mo_stats_ctx ops) count_cache (mc_stats_cache s) c2;
                   (q4, c4) = count_event (mo_stats_ctx ops) count_drop (mc_backpressure_drop s) c3
               in s\<lparr>mc_n2h_stats := q1, mc_h2n_stats := q2, mc_stats_cache := q3, mc_backpressure_drop := q4, mc_stats_ctx := c4\<rparr>))"

definition memcached_step ::
  "('c, 'cc, 'cs, 'm, 'fa, 'fk, 'fr) mc_ops \<Rightarrow> tc_ikernel_data_counts \<Rightarrow> ports \<times> ('c, 'cc, 'cs, 'm, 'fa, 'fk, 'fr) memcached \<Rightarrow> ports \<times> ('c, 'cc, 'cs, 'm, 'fa, 'fk, 'fr) memcached" where
  "memcached_step ops tc ps =
     (let (p, s) = ps;
          (di, pd, bd) = dup2 (data_input (po_net p)) (mc_parser_data s) (mc_buffer_data s);
          (mi, pm, bm) = dup2 (metadata_input (po_net p)) (mc_parser_metadata s) (mc_buffer_metadata s);
          s1 = s\<lparr>mc_parser_data := pd, mc_buffer_data := bd, mc_parser_metadata := pm, mc_buffer_metadata := bm\<rparr>;
          (net, s2) = mc_drop_or_pass ops ((po_net p)\<lparr>data_input := di, metadata_input := mi\<rparr>, s1);
          s3 = action_resolution ops (tc_net tc) s2;
          s4 = handle_parsed_packet ops s3;
          s5 = handle_memory_responses ops (tc_host tc) s4;
          s6 = parse_packet ops s5;
          s7 = reply_cached_value ops s6;
          (host, s8) = intercept_out ops (tc_host tc) (po_host p, s7);
          (arb, mo, dout) = arbitrate (mc_h2n_arb s8, metadata_output host, data_output host);
          s9 = mc_update_stats ops (s8\<lparr>mc_h2n_arb := arb\<rparr>)
      in (p\<lparr>po_net := net, po_host := host\<lparr>metadata_output := mo, data_output := dout\<rparr>\<rparr>, s9))"

section \<open>Registers\<close>

definition MEMCACHED_REG_CACHE_SIZE :: "32 word" where "MEMCACHED_REG_CACHE_SIZE = 0"
definition MEMCACHED_STATS_GET_REQUESTS :: "32 word" where "MEMCACHED_STATS_GET_REQUESTS = 0x10"
definition MEMCACHED_STATS_GET_REQUESTS_HITS :: "32 word" where "MEMCACHED_STATS_GET_REQUESTS_HITS = 0x11"
definition MEMCACHED_STATS_GET_REQUESTS_MISSES :: "32 word" where "MEMCACHED_STATS_GET_REQUESTS_MISSES = 0x12"
definition MEMCACHED_STATS_SET_REQUESTS :: "32 word" where "MEMCACHED_STATS_SET_REQUESTS = 0x13"
definition MEMCACHED_STATS_N2H_UNKNOWN :: "32 word" where "MEMCACHED_STATS_N2H_UNKNOWN = 0x14"
definition MEMCACHED_STATS_GET_RESPONSE :: "32 word" where "MEMCACHED_STATS_GET_RESPONSE = 0x15"
definition MEMCACHED_STATS_H2N_UNKNOWN :: "32 word" where "MEMCACHED_STATS_H2N_UNKNOWN = 0x16"
definition MEMCACHED_DROPPED_BACKPRESSURE :: "32 word" where "MEMCACHED_DROPPED_BACKPRESSURE = 0x17"
definition MEMCACHED_RING_ID :: "32 word" where "MEMCACHED_RING_ID = 0x18"
definition MEMCACHED_STATS_GET_REQUESTS_DROPPED_HITS :: "32 word" where "MEMCACHED_STATS_GET_REQUESTS_DROPPED_HITS = 0x19"
definition MEMCACHED_STATS_DROPPED_TC_BACKPRESSURE :: "32 word" where "MEMCACHED_STATS_DROPPED_TC_BACKPRESSURE = 0x20"

definition memcached_cache_rpc ::
  "('cc, memcached_cache_context) context_ops \<Rightarrow> 32 word \<Rightarrow> 32 word \<Rightarrow> ikernel_id_t \<Rightarrow> bool \<Rightarrow> 'cc \<Rightarrow> gw_status \<times> 32 word \<times> 'cc" where
  "memcached_cache_rpc ops address v i read c =
     (if address = MEMCACHED_REG_CACHE_SIZE
      then cx_access ops (unat i) (\<lambda>x. of_nat (cc_log_size x)) (\<lambda>w x. x\<lparr>cc_log_size := unat (scast w :: 64 word)\<rparr>) v read c
      else (GW_DONE, v, c))"

definition memcached_ctx_rpc ::
  "('c, memcached_context) context_ops \<Rightarrow> 32 word \<Rightarrow> 32 word \<Rightarrow> ikernel_id_t \<Rightarrow> bool \<Rightarrow> 'c \<Rightarrow> gw_status \<times> 32 word \<times> 'c" where
  "memcached_ctx_rpc ops address v i read c =
     (if address = MEMCACHED_RING_ID
      then cx_access ops (unat i) (\<lambda>x. ucast (mc_ring_id x)) (\<lambda>w x. x\<lparr>mc_ring_id := ucast w\<rparr>) v read c
      else (GW_FAIL, if read then - 1 else v, c))"

definition memcached_stats_rpc ::
  "('cs, memcached_stats_context) context_ops \<Rightarrow> 32 word \<Rightarrow> 32 word \<Rightarrow> ikernel_id_t \<Rightarrow> bool \<Rightarrow> 'cs \<Rightarrow> gw_status \<times> 32 word \<times> 'cs" where
  "memcached_stats_rpc ops address v i read c =
     (if address = MEMCACHED_STATS_GET_REQUESTS then cx_access ops (unat i) st_get_requests (\<lambda>w x. x\<lparr>st_get_requests := w\<rparr>) v read c
      else if address = MEMCACHED_STATS_GET_REQUESTS_HITS then cx_access ops (unat i) st_get_req_hit (\<lambda>w x. x\<lparr>st_get_req_hit := w\<rparr>) v read c
      else if address = MEMCACHED_STATS_GET_REQUESTS_MISSES then cx_access ops (unat i) st_get_req_miss (\<lambda>w x. x\<lparr>st_get_req_miss := w\<rparr>) v read c
      else if address = MEMCACHED_STATS_SET_REQUESTS then cx_access ops (unat i) st_set_requests (\<lambda>w x. x\<lparr>st_set_requests := w\<rparr>) v read c
      else if address = MEMCACHED_STATS_N2H_UNKNOWN then cx_access ops (unat i) st_n2h_unknown (\<lambda>w x. x\<lparr>st_n2h_unknown := w\<rparr>) v read c
      else if address = MEMCACHED_STATS_GET_RESPONSE then cx_access ops (unat i) st_get_response (\<lambda>w x. x\<lparr>st_get_response := w\<rparr>) v read c
      else if address = MEMCACHED_STATS_H2N_UNKNOWN then cx_access ops (unat i) st_h2n_unknown (\<lambda>w x. x\<lparr>st_h2n_unknown := w\<rparr>) v read c
      else if address = MEMCACHED_DROPPED_BACKPRESSURE then cx_access ops (unat i) st_backpressure_drop_count (\<lambda>w x. x\<lparr>st_backpressure_drop_count := w\<rparr>) v read c
      else if address = MEMCACHED_STATS_DROPPED_TC_BACKPRESSURE then cx_access ops (unat i) st_tc_backpressure_drop_count (\<lambda>w x. x\<lparr>st_tc_backpressure_drop_count := w\<rparr>) v read c
      else if address = MEMCACHED_STATS_GET_REQUESTS_DROPPED_HITS then cx_access ops (unat i) st_get_req_dropped_hits (\<lambda>w x. x\<lparr>st_get_req_dropped_hits := w\<rparr>) v read c
      else (GW_FAIL, if read then - 1 else v, c))"

definition memcached_rpc ::
  "('c, 'cc, 'cs, 'm, 'fa, 'fk, 'fr) mc_ops \<Rightarrow> 32 word \<Rightarrow> 32 word \<Rightarrow> ikernel_id_t \<Rightarrow> bool \<Rightarrow> ('c, 'cc, 'cs, 'm, 'fa, 'fk, 'fr) memcached \<Rightarrow> gw_status \<times> 32 word \<times> ('c, 'cc, 'cs, 'm, 'fa, 'fk, 'fr) memcached" where
  "memcached_rpc ops address v i read s =
     (if address = MEMCACHED_REG_CACHE_SIZE
      then (let (st, w, c) = memcached_cache_rpc (mo_cache_ctx ops) address v i read (mc_cache_ctx s) in (st, w, s\<lparr>mc_cache_ctx := c\<rparr>))
      else if address = MEMCACHED_RING_ID
      then (let (st, w, c) = memcached_ctx_rpc (mo_ctx ops) address v i read (mc_ctx s) in (st, w, s\<lparr>mc_ctx := c\<rparr>))
      else (let (st, w, c) = memcached_stats_rpc (mo_stats_ctx ops) address v i read (mc_stats_ctx s) in (st, w, s\<lparr>mc_stats_ctx := c\<rparr>)))"

definition memcached_reg_write ::
  "('c, 'cc, 'cs, 'm, 'fa, 'fk, 'fr) mc_ops \<Rightarrow> 32 word \<Rightarrow> 32 word \<Rightarrow> ikernel_id_t \<Rightarrow> ('c, 'cc, 'cs, 'm, 'fa, 'fk, 'fr) memcached \<Rightarrow> gw_status \<times> ('c, 'cc, 'cs, 'm, 'fa, 'fk, 'fr) memcached" where
  "memcached_reg_write ops address v i s =
     (if unat i \<ge> MEMCACHED_RING_COUNT then (GW_FAIL, s)
      else (let (st, _, s') = memcached_rpc ops address v i False s in (st, s')))"

definition memcached_reg_read ::
  "('c, 'cc, 'cs, 'm, 'fa, 'fk, 'fr) mc_ops \<Rightarrow> 32 word \<Rightarrow> 32 word \<Rightarrow> ikernel_id_t \<Rightarrow> ('c, 'cc, 'cs, 'm, 'fa, 'fk, 'fr) memcached \<Rightarrow> gw_status \<times> 32 word \<times> ('c, 'cc, 'cs, 'm, 'fa, 'fk, 'fr) memcached" where
  "memcached_reg_read ops address v i s =
     (if unat i \<ge> MEMCACHED_RING_COUNT then (GW_FAIL, - 1, s)
      else memcached_rpc ops address v i True s)"

definition memcached_top ::
  "('c, 'cc, 'cs, 'm, 'fa, 'fk, 'fr) mc_ops \<Rightarrow> credit_update_registers \<Rightarrow> (31 word \<times> 32 word \<times> ikernel_id_t) option \<Rightarrow> tc_ikernel_data_counts \<Rightarrow>
   ports \<times> ('c, 'cc, 'cs, 'm, 'fa, 'fk, 'fr) memcached \<Rightarrow> (gw_status \<times> 32 word) option \<times> ports \<times> ('c, 'cc, 'cs, 'm, 'fa, 'fk, 'fr) memcached" where
  "memcached_top ops = ikernel_top mc_base_update (memcached_step ops) (memcached_reg_write ops) (memcached_reg_read ops)"

section \<open>The response\<close>

lemma length_memcpy_array [simp]: "length (memcpy_array n dst src) = length dst"
  by (simp add: memcpy_array_def)

lemma memcpy_at_eq:
  assumes "off + n \<le> length dst" "n \<le> length src"
  shows "memcpy_at n off src dst = take off dst @ take n src @ drop (off + n) dst"
  using assms by (simp add: memcpy_at_def memcpy_array_eq add.commute)

lemma nth_memcpy_at:
  assumes "off + n \<le> length dst" "n \<le> length src" "i < length dst"
  shows "memcpy_at n off src dst ! i = (if off \<le> i \<and> i < off + n then src ! (i - off) else dst ! i)"
  using assms by (auto simp: memcpy_at_eq nth_append min_def)

lemma length_memcpy_at [simp]: "off \<le> length dst \<Longrightarrow> length (memcpy_at n off src dst) = length dst"
  by (simp add: memcpy_at_def)

definition response_text :: "nat \<Rightarrow> 8 word list \<Rightarrow> 8 word list \<Rightarrow> 8 word list \<Rightarrow> 8 word list" where
  "response_text vs hdr key val =
     hdr @ [0x56, 0x41, 0x4c, 0x55, 0x45, 0x20] @ key @ [0x20, 0x30, 0x20] @ take 2 (ASCII_MEMCACHED_VALUE_SIZE vs) @
     [0x0d, 0x0a] @ val @ [0x0d, 0x0a, 0x45, 0x4e, 0x44, 0x0d, 0x0a]"

text \<open>A list that agrees with each of a row of segments is their concatenation.\<close>

fun segs_at :: "nat \<Rightarrow> 'a list list \<Rightarrow> 'a list \<Rightarrow> bool" where
  "segs_at off [] d \<longleftrightarrow> off = length d"
| "segs_at off (xs # xss) d \<longleftrightarrow> (\<forall>j < length xs. d ! (off + j) = xs ! j) \<and> segs_at (off + length xs) xss d"

lemma segs_at_le: "segs_at off xss d \<Longrightarrow> off \<le> length d"
proof (induction xss arbitrary: off)
  case (Cons xs xss)
  then have "off + length xs \<le> length d" by simp
  then show ?case by simp
qed simp

lemma segs_at_concat: "segs_at off xss d \<Longrightarrow> drop off d = concat xss"
proof (induction xss arbitrary: off)
  case (Cons xs xss)
  then have le: "off + length xs \<le> length d" using segs_at_le [of "off + length xs" xss d] by simp
  have "take (length xs) (drop off d) = xs"
    using Cons.prems le by (intro nth_equalityI) auto
  moreover have "drop (length xs) (drop off d) = concat xss" using Cons by (simp add: add.commute)
  ultimately show ?case by (metis append_take_drop_id concat.simps(2))
qed simp

lemma length_fold_upd [simp]: "length (fold (\<lambda>(i, c) d. d[i := c]) ps d) = length d"
  by (induction ps arbitrary: d) auto

lemma nth_fold_upd:
  "i < length d \<Longrightarrow> fold (\<lambda>(i, c) d. d[i := c]) ps d ! i = (case map_of (rev ps) i of Some c \<Rightarrow> c | None \<Rightarrow> d ! i)"
  by (induction ps arbitrary: d) (auto simp: map_add_def nth_list_update split: option.splits)

lemma nth_generate_response:
  assumes "length junk = REPLY_SIZE ks vs" "length (pr_udp_header req) = 8" "length (pr_key req) = ks" "length val = vs"
    "i < REPLY_SIZE ks vs"
  shows "generate_response ks vs junk req val ! i =
    (if 21 + ks \<le> i \<and> i < 21 + ks + vs then val ! (i - (21 + ks))
     else if 14 \<le> i \<and> i < 14 + ks then pr_key req ! (i - 14)
     else if i < 8 then pr_udp_header req ! i
     else memcached_response_init ks vs junk ! i)"
proof -
  have l: "length (memcached_response_init ks vs junk) = REPLY_SIZE ks vs"
    using assms(1) by (simp add: memcached_response_init_def Let_def REPLY_SIZE_def)
  then show ?thesis
    using assms by (simp add: generate_response_def Let_def nth_memcpy_at VALUE_BYTES_SIZE_def REPLY_SIZE_def)
qed

lemma nth_response_init:
  assumes "length junk = REPLY_SIZE ks vs" "i < REPLY_SIZE ks vs"
  shows "memcached_response_init ks vs junk ! i =
    (case map_of (rev [(19 + ks, 0x0d), (20 + ks, 0x0a), (21 + ks + vs, 0x0d), (22 + ks + vs, 0x0a),
        (23 + ks + vs, 0x45), (24 + ks + vs, 0x4e), (25 + ks + vs, 0x44), (26 + ks + vs, 0x0d), (27 + ks + vs, 0x0a)]) i of
       Some c \<Rightarrow> c
     | None \<Rightarrow>
         if 17 + ks \<le> i \<and> i < 17 + ks + 2 then ASCII_MEMCACHED_VALUE_SIZE vs ! (i - (17 + ks))
         else (case map_of (rev [(8, 0x56), (9, 0x41), (10, 0x4c), (11, 0x55), (12, 0x45), (13, 0x20),
            (14 + ks, 0x20), (15 + ks, 0x30), (16 + ks, 0x20)]) i of Some c \<Rightarrow> c | None \<Rightarrow> junk ! i))"
proof -
  let ?a = "[(8, 0x56), (9, 0x41), (10, 0x4c), (11, 0x55), (12, 0x45), (13, 0x20),
            (14 + ks, 0x20), (15 + ks, 0x30), (16 + ks, 0x20)] :: (nat \<times> 8 word) list"
  let ?b = "[(19 + ks, 0x0d), (20 + ks, 0x0a), (21 + ks + vs, 0x0d), (22 + ks + vs, 0x0a),
        (23 + ks + vs, 0x45), (24 + ks + vs, 0x4e), (25 + ks + vs, 0x44), (26 + ks + vs, 0x0d), (27 + ks + vs, 0x0a)] :: (nat \<times> 8 word) list"
  let ?u = "fold (\<lambda>(i, c) d. d[i := c])"
  have "memcached_response_init ks vs junk = ?u ?b (memcpy_at 2 (17 + ks) (ASCII_MEMCACHED_VALUE_SIZE vs) (?u ?a junk))"
    by (simp add: memcached_response_init_def VALUE_BYTES_SIZE_def add.commute add.left_commute)
  moreover have "length (ASCII_MEMCACHED_VALUE_SIZE vs) \<ge> 2" by (simp add: ASCII_MEMCACHED_VALUE_SIZE_def)
  moreover have "17 + ks + 2 \<le> length junk" "i < length junk" using assms by (simp_all add: REPLY_SIZE_def)
  ultimately show ?thesis
    by (simp only: nth_fold_upd length_memcpy_at length_fold_upd nth_memcpy_at)
qed

lemma generate_response_eq:
  assumes "length junk = REPLY_SIZE ks vs" "length (pr_udp_header req) = 8" "length (pr_key req) = ks" "length val = vs"
  shows "generate_response ks vs junk req val = response_text vs (pr_udp_header req) (pr_key req) val"
proof -
  let ?r = "generate_response ks vs junk req val"
  note nth = nth_generate_response [OF assms] nth_response_init [OF assms(1)]
  have len: "length ?r = REPLY_SIZE ks vs"
    using assms by (simp add: generate_response_def memcached_response_init_def Let_def REPLY_SIZE_def VALUE_BYTES_SIZE_def)
  have "segs_at 0 [pr_udp_header req, [0x56, 0x41, 0x4c, 0x55, 0x45, 0x20], pr_key req, [0x20, 0x30, 0x20],
      take 2 (ASCII_MEMCACHED_VALUE_SIZE vs), [0x0d, 0x0a], val, [0x0d, 0x0a, 0x45, 0x4e, 0x44, 0x0d, 0x0a]] ?r"
    using assms(2-4) len
    by (simp add: nth REPLY_SIZE_def VALUE_BYTES_SIZE_def All_less_Suc ASCII_MEMCACHED_VALUE_SIZE_def)
  from segs_at_concat [OF this] show ?thesis by (simp add: response_text_def)
qed

section \<open>Learning from a response\<close>

lemma fold_pair: "fold (\<lambda>i (a, b). (f i a, g i b)) ns (a, b) = (fold f ns a, fold g ns b)"
  by (induction ns arbitrary: a b) simp_all

lemma fold_keep: "fold (\<lambda>i a. a) ns a = a"
  by (induction ns arbitrary: a) simp_all

lemma length_fold_upd_if [simp]: "length (fold (\<lambda>i d. if P i then d[t i := B (t i)] else d) ns xs) = length xs"
  by (induction ns arbitrary: xs) simp_all

lemma nth_fold_upd_if:
  "j < length xs \<Longrightarrow> fold (\<lambda>i d. if P i then d[t i := B (t i)] else d) ns xs ! j =
     (if \<exists>i \<in> set ns. P i \<and> t i = j then B j else xs ! j)"
  by (induction ns arbitrary: xs) (auto simp: nth_list_update)

lemma fold_cong_upd:
  "(\<And>i d. i \<in> set ns \<Longrightarrow> f i d = (if P i then d[t i := B (t i)] else d)) \<Longrightarrow>
   fold f ns xs = fold (\<lambda>i d. if P i then d[t i := B (t i)] else d) ns xs"
  by (induction ns arbitrary: xs) auto

definition key_sizes :: "nat \<Rightarrow> bool" where
  "key_sizes ks \<longleftrightarrow> ks = 10 \<or> 12 \<le> ks \<and> ks \<le> 16"

lemma parse_out_first:
  assumes "ks \<le> 16" "length k = ks"
  shows "parse_out_payload ks vs d False (k, v) =
    (map (\<lambda>j. data_byte (ad_data d) (14 + j)) [0..<ks],
     fold (\<lambda>i x. if VALUE_POS ks \<le> i then x[i - VALUE_POS ks := data_byte (ad_data d) (VALUE_POS ks + (i - VALUE_POS ks))] else x) [0..<32] v)"
proof -
  let ?b = "data_byte (ad_data d)"
  let ?k = "fold (\<lambda>i x. if 14 \<le> i \<and> i \<le> 14 + ks - 1 then x[i - 14 := ?b (14 + (i - 14))] else x) [0..<32] k"
  have "parse_out_payload ks vs d False (k, v) =
      fold (\<lambda>i (a, b). (if 14 \<le> i \<and> i \<le> 14 + ks - 1 then a[i - 14 := ?b i] else a,
        if VALUE_POS ks \<le> i then b[i - VALUE_POS ks := ?b i] else b)) [0..<32] (k, v)"
    by (simp add: parse_out_payload_def Let_def)
  also have "\<dots> = (fold (\<lambda>i a. if 14 \<le> i \<and> i \<le> 14 + ks - 1 then a[i - 14 := ?b i] else a) [0..<32] k,
      fold (\<lambda>i b. if VALUE_POS ks \<le> i then b[i - VALUE_POS ks := ?b i] else b) [0..<32] v)"
    by (rule fold_pair)
  finally have e: "parse_out_payload ks vs d False (k, v) = \<dots>" .
  have "fold (\<lambda>i a. if 14 \<le> i \<and> i \<le> 14 + ks - 1 then a[i - 14 := ?b i] else a) [0..<32] k = ?k"
    by (rule fold_cong_upd) auto
  moreover have lk: "length ?k = ks"
    using length_fold_upd_if [where P = "\<lambda>i. 14 \<le> i \<and> i \<le> 14 + ks - 1" and t = "\<lambda>i. i - 14" and B = "\<lambda>j. ?b (14 + j)" and ns = "[0..<32]" and xs = k]
      assms(2) by simp
  moreover have "?k = map (\<lambda>j. ?b (14 + j)) [0..<ks]"
  proof (rule nth_equalityI)
    fix j assume "j < length ?k"
    then have j: "j < ks" using lk by simp
    then have "\<exists>i \<in> set [0..<32]. (14 \<le> i \<and> i \<le> 14 + ks - 1) \<and> i - 14 = j"
      using assms(1) by (intro bexI [of _ "14 + j"]) auto
    then show "?k ! j = map (\<lambda>j. ?b (14 + j)) [0..<ks] ! j"
      using j assms(2) nth_fold_upd_if [of j k "\<lambda>i. 14 \<le> i \<and> i \<le> 14 + ks - 1" "\<lambda>i. i - 14" "\<lambda>j. ?b (14 + j)" "[0..<32]"] by simp
  qed (use lk in simp)
  moreover have "fold (\<lambda>i b. if VALUE_POS ks \<le> i then b[i - VALUE_POS ks := ?b i] else b) [0..<32] v =
      fold (\<lambda>i x. if VALUE_POS ks \<le> i then x[i - VALUE_POS ks := ?b (VALUE_POS ks + (i - VALUE_POS ks))] else x) [0..<32] v"
    by (rule fold_cong_upd) auto
  ultimately show ?thesis using e by simp
qed

lemma parse_out_second:
  assumes "key_sizes ks"
  shows "parse_out_payload ks vs d True (k, v) =
    (k, fold (\<lambda>i x. if VALUE_POS ks \<le> 32 + i \<and> 32 + i < VALUE_POS ks + vs
           then x[32 + i - VALUE_POS ks := data_byte (ad_data d) (VALUE_POS ks + (32 + i - VALUE_POS ks) - 32)] else x) [0..<32] v)"
proof -
  let ?b = "data_byte (ad_data d)"
  have idx: "out_value_idx ks i = int (32 + i) - int (VALUE_POS ks)" for i
    using assms by (auto simp: out_value_idx_def VALUE_POS_def VALUE_BYTES_SIZE_def key_sizes_def)
  have "parse_out_payload ks vs d True (k, v) =
      fold (\<lambda>i (a, b). (a, if int (VALUE_POS ks) - 32 \<le> int i \<and> int i \<le> int (VALUE_POS ks) + int vs - 1 - 32
        then set_at (out_value_idx ks i) (?b i) b else b)) [0..<32] (k, v)"
    by (simp add: parse_out_payload_def Let_def)
  also have "\<dots> = (fold (\<lambda>i a. a) [0..<32] k, fold (\<lambda>i b. if int (VALUE_POS ks) - 32 \<le> int i \<and> int i \<le> int (VALUE_POS ks) + int vs - 1 - 32
        then set_at (out_value_idx ks i) (?b i) b else b) [0..<32] v)"
    by (rule fold_pair)
  also have "fold (\<lambda>i a. a) [0..<32] k = k" by (rule fold_keep)
  also have "fold (\<lambda>i b. if int (VALUE_POS ks) - 32 \<le> int i \<and> int i \<le> int (VALUE_POS ks) + int vs - 1 - 32
        then set_at (out_value_idx ks i) (?b i) b else b) [0..<32] v =
      fold (\<lambda>i x. if VALUE_POS ks \<le> 32 + i \<and> 32 + i < VALUE_POS ks + vs
           then x[32 + i - VALUE_POS ks := ?b (VALUE_POS ks + (32 + i - VALUE_POS ks) - 32)] else x) [0..<32] v"
  proof (rule fold_cong_upd)
    fix i :: nat and x :: "8 word list"
    have "int (VALUE_POS ks) - 32 \<le> int i \<and> int i \<le> int (VALUE_POS ks) + int vs - 1 - 32 \<longleftrightarrow>
        VALUE_POS ks \<le> 32 + i \<and> 32 + i < VALUE_POS ks + vs" by linarith
    moreover have "VALUE_POS ks \<le> 32 + i \<Longrightarrow>
        set_at (out_value_idx ks i) (?b i) x = x[32 + i - VALUE_POS ks := ?b (VALUE_POS ks + (32 + i - VALUE_POS ks) - 32)]"
      by (simp add: set_at_def idx nat_diff_distrib nat_add_distrib)
    ultimately show "(if int (VALUE_POS ks) - 32 \<le> int i \<and> int i \<le> int (VALUE_POS ks) + int vs - 1 - 32
        then set_at (out_value_idx ks i) (?b i) x else x) =
      (if VALUE_POS ks \<le> 32 + i \<and> 32 + i < VALUE_POS ks + vs
       then x[32 + i - VALUE_POS ks := ?b (VALUE_POS ks + (32 + i - VALUE_POS ks) - 32)] else x)" by simp
  qed
  finally show ?thesis .
qed

text \<open>
  \<open>set_data\<close> puts the bytes into the word in the order of the wire.
\<close>

definition set_data_msb :: "(8 word list \<Rightarrow> nat \<Rightarrow> 256 word \<times> 32 word) \<Rightarrow> bool" where
  "set_data_msb sd \<longleftrightarrow> (\<forall>bs n i. i < n \<and> n \<le> 32 \<and> n \<le> length bs \<longrightarrow> data_byte (fst (sd bs n)) i = bs ! i)"

lemma response_word_byte:
  assumes "set_data_msb (mo_set_data ops)" "length r = REPLY_SIZE (mo_ks ops) (mo_vs ops)"
    "32 \<le> length r" "length r \<le> 64"
  shows "i < 32 \<Longrightarrow> data_byte (ad_data (response_word ops r False)) i = r ! i"
    "32 + i < length r \<Longrightarrow> data_byte (ad_data (response_word ops r True)) i = r ! (32 + i)"
proof -
  let ?n = "REPLY_SIZE (mo_ks ops) (mo_vs ops)"
  have w: "ad_data (response_word ops r False) = fst (mo_set_data ops r 32)"
    "ad_data (response_word ops r True) = fst (mo_set_data ops (drop 32 r) (?n - 32))"
    by (simp_all add: response_word_def split: prod.split)
  have sd: "j < n \<Longrightarrow> n \<le> 32 \<Longrightarrow> n \<le> length bs \<Longrightarrow> data_byte (fst (mo_set_data ops bs n)) j = bs ! j" for j n bs
    using assms(1) by (simp add: set_data_msb_def)
  show "i < 32 \<Longrightarrow> data_byte (ad_data (response_word ops r False)) i = r ! i"
    using sd [of i 32 r] assms(3) w by simp
  show "32 + i < length r \<Longrightarrow> data_byte (ad_data (response_word ops r True)) i = r ! (32 + i)"
    using sd [of i "?n - 32" "drop 32 r"] assms(2-4) w by simp
qed

lemma nth_response_text:
  assumes "length hdr = 8" "length key = ks" "length val = vs"
  shows "j < ks \<Longrightarrow> response_text vs hdr key val ! (14 + j) = key ! j"
    "j < vs \<Longrightarrow> response_text vs hdr key val ! (21 + ks + j) = val ! j"
    "response_text vs hdr key val ! 8 = 0x56"
    "length (response_text vs hdr key val) = REPLY_SIZE ks vs"
  using assms
  by (simp_all add: response_text_def nth_append ASCII_MEMCACHED_VALUE_SIZE_def REPLY_SIZE_def VALUE_BYTES_SIZE_def)

text \<open>The value of the response, gathered from the bytes \<open>b1\<close>, \<open>b2\<close> of its two words.\<close>

definition first_value :: "nat \<Rightarrow> (nat \<Rightarrow> 'b) \<Rightarrow> 'b list \<Rightarrow> 'b list" where
  "first_value pos b1 v = fold (\<lambda>i x. if pos \<le> i then x[i - pos := b1 (pos + (i - pos))] else x) [0..<32] v"

definition second_value :: "nat \<Rightarrow> nat \<Rightarrow> (nat \<Rightarrow> 'b) \<Rightarrow> 'b list \<Rightarrow> 'b list" where
  "second_value pos n b2 v = fold (\<lambda>i x. if pos \<le> 32 + i \<and> 32 + i < pos + n
     then x[32 + i - pos := b2 (pos + (32 + i - pos) - 32)] else x) [0..<32] v"

lemma length_first_value [simp]: "length (first_value pos b1 v) = length v"
  unfolding first_value_def
  by (rule length_fold_upd_if [where P = "\<lambda>i. pos \<le> i" and t = "\<lambda>i. i - pos" and B = "\<lambda>j. b1 (pos + j)"])

lemma length_second_value [simp]: "length (second_value pos n b2 v) = length v"
  unfolding second_value_def
  by (rule length_fold_upd_if [where P = "\<lambda>i. pos \<le> 32 + i \<and> 32 + i < pos + n" and t = "\<lambda>i. 32 + i - pos"
        and B = "\<lambda>j. b2 (pos + j - 32)"])

lemma nth_first_value:
  assumes "j < length v" "pos + j < 32"
  shows "first_value pos b1 v ! j = b1 (pos + j)"
proof -
  have "first_value pos b1 v ! j = (if \<exists>i \<in> set [0..<32]. pos \<le> i \<and> i - pos = j then b1 (pos + j) else v ! j)"
    unfolding first_value_def by (rule nth_fold_upd_if) (rule assms(1))
  moreover have "\<exists>i \<in> set [0..<32]. pos \<le> i \<and> i - pos = j"
    using assms(2) by (intro bexI [of _ "pos + j"]) auto
  ultimately show ?thesis by (simp only: if_True)
qed

lemma nth_second_value:
  assumes "j < length v" "j < n" "pos + j < 64"
  shows "second_value pos n b2 v ! j = (if pos + j < 32 then v ! j else b2 (pos + j - 32))"
proof -
  have "second_value pos n b2 v ! j = (if \<exists>i \<in> set [0..<32]. (pos \<le> 32 + i \<and> 32 + i < pos + n) \<and> 32 + i - pos = j
      then b2 (pos + j - 32) else v ! j)"
    unfolding second_value_def by (rule nth_fold_upd_if) (rule assms(1))
  moreover have "(\<exists>i \<in> set [0..<32]. (pos \<le> 32 + i \<and> 32 + i < pos + n) \<and> 32 + i - pos = j) \<longleftrightarrow> \<not> pos + j < 32"
  proof
    assume "\<not> pos + j < 32"
    then show "\<exists>i \<in> set [0..<32]. (pos \<le> 32 + i \<and> 32 + i < pos + n) \<and> 32 + i - pos = j"
      using assms by (intro bexI [of _ "pos + j - 32"]) auto
  qed auto
  ultimately show ?thesis by simp
qed

lemma two_word_value:
  assumes "\<And>i. i < 32 \<Longrightarrow> b1 i = r ! i" "\<And>i. 32 + i < length r \<Longrightarrow> b2 i = r ! (32 + i)"
    and "pos + length v \<le> length r" "length r \<le> 64"
  shows "second_value pos (length v) b2 (first_value pos b1 v) = map (\<lambda>j. r ! (pos + j)) [0..<length v]"
proof (rule nth_equalityI)
  fix j assume "j < length (second_value pos (length v) b2 (first_value pos b1 v))"
  then have j: "j < length v" by simp
  show "second_value pos (length v) b2 (first_value pos b1 v) ! j = map (\<lambda>j. r ! (pos + j)) [0..<length v] ! j"
    using j assms assms(1) [of "pos + j"] assms(2) [of "pos + j - 32"]
    by (simp add: nth_second_value nth_first_value)
qed simp

text \<open>
  C26: A response that the memcached ikernel generates for a hit is the memcached text response with the UDP header and
  key of the request and the cached value, and it is what the ikernel itself learns a pair from: sent as two words
  through its own response parser, it is recognised as a GET response and yields exactly the key and the
  value. This holds for the key sizes 10 and 12 to 16.
\<close>
theorem response_roundtrip:
  assumes sd: "set_data_msb (mo_set_data ops)" and szs: "key_sizes (mo_ks ops)" "mo_vs ops \<le> 16"
    and req: "length (mo_junk ops) = REPLY_SIZE (mo_ks ops) (mo_vs ops)" "length (pr_udp_header req) = 8"
      "length (pr_key req) = mo_ks ops" "length val = mo_vs ops"
    and old: "length k0 = mo_ks ops" "length v0 = mo_vs ops"
  shows "let r = generate_response (mo_ks ops) (mo_vs ops) (mo_junk ops) req val;
             w1 = response_word ops r False; w2 = response_word ops r True in
    r = response_text (mo_vs ops) (pr_udp_header req) (pr_key req) val \<and>
    data_byte (ad_data w1) 8 = 0x56 \<and> \<not> ad_last w1 \<and> ad_last w2 \<and>
    parse_out_payload (mo_ks ops) (mo_vs ops) w2 True
      (parse_out_payload (mo_ks ops) (mo_vs ops) w1 False (k0, v0)) = (pr_key req, val)"
proof -
  define ks vs where "ks = mo_ks ops" and "vs = mo_vs ops"
  define r where "r = generate_response ks vs (mo_junk ops) req val"
  define w1 w2 where "w1 = response_word ops r False" and "w2 = response_word ops r True"
  have r: "r = response_text vs (pr_udp_header req) (pr_key req) val"
    using generate_response_eq req by (simp add: r_def ks_def vs_def)
  have l: "length (pr_key req) = ks" "length val = vs" "length k0 = ks" "length v0 = vs"
    using req old by (simp_all add: ks_def vs_def)
  note nth = nth_response_text [OF req(2) l(1,2), folded r]
  have ks: "ks \<le> 16" "VALUE_POS ks = 21 + ks" "key_sizes ks"
    using szs(1) by (auto simp: ks_def key_sizes_def VALUE_POS_def VALUE_BYTES_SIZE_def)
  have len: "length r = REPLY_SIZE ks vs" "32 \<le> length r" "length r \<le> 64"
    using nth(4) ks szs(2) by (auto simp: vs_def REPLY_SIZE_def VALUE_BYTES_SIZE_def key_sizes_def)
  note bytes = response_word_byte [OF sd, of r, folded ks_def vs_def w1_def w2_def, OF len]
  have k: "map (\<lambda>j. data_byte (ad_data w1) (14 + j)) [0..<ks] = pr_key req"
    using bytes(1) nth(1) l ks(1) by (intro nth_equalityI) auto
  have "second_value (VALUE_POS ks) (length v0) (data_byte (ad_data w2)) (first_value (VALUE_POS ks) (data_byte (ad_data w1)) v0) =
      map (\<lambda>j. r ! (VALUE_POS ks + j)) [0..<length v0]"
    using bytes len ks(2) l by (intro two_word_value) (auto simp: REPLY_SIZE_def VALUE_BYTES_SIZE_def)
  moreover have "map (\<lambda>j. r ! (VALUE_POS ks + j)) [0..<length v0] = val"
    using nth(2) ks(2) l by (intro nth_equalityI) auto
  ultimately have "parse_out_payload ks vs w2 True (parse_out_payload ks vs w1 False (k0, v0)) = (pr_key req, val)"
    using parse_out_first [OF ks(1) l(3), of vs w1 v0] parse_out_second [OF ks(3), of vs w2] k l(4)
    by (simp add: first_value_def second_value_def)
  moreover have "data_byte (ad_data w1) 8 = 0x56" using bytes(1) [of 8] nth(3) by simp
  moreover have "\<not> ad_last w1" "ad_last w2" by (simp_all add: w1_def w2_def response_word_def split: prod.split)
  ultimately show ?thesis
    using r by (simp add: Let_def r_def w1_def w2_def ks_def vs_def)
qed

text \<open>Concrete parameters: list queues, an array memory, and bytes put into a word one by one.\<close>

definition list_fifo :: "('a list, 'a) pfifo_ops" where
  "list_fifo = \<lparr>pf_empty = (\<lambda>f. f = []), pf_full = (\<lambda>f. 150 \<le> length f), pf_read = (\<lambda>f. (hd f, tl f)),
     pf_read_nb = (\<lambda>x f. if f = [] then (x, f) else (hd f, tl f)), pf_write = (\<lambda>x f. f @ [x]),
     pf_write_nb = (\<lambda>x f. f @ [x]), pf_empty_progress = id, pf_full_progress = id\<rparr>"

definition demo_set_data :: "8 word list \<Rightarrow> nat \<Rightarrow> 256 word \<times> 32 word" where
  "demo_set_data bs n = (fold (\<lambda>i d. ap_set_range (255 - i * 8) (255 - ((i + 1) * 8 - 1)) (bs ! i) d) [0..<n] 0, mask n)"

lemma data_byte_set: "i < 32 \<Longrightarrow> data_byte (ap_set_range (255 - i * 8) (255 - ((i + 1) * 8 - 1)) b d) i = b"
  unfolding data_byte_def by (rule ap_set_range_ap_range) auto

lemma data_byte_set_other:
  assumes "i < 32" "j < 32" "i \<noteq> j"
  shows "data_byte (ap_set_range (255 - i * 8) (255 - ((i + 1) * 8 - 1)) (b :: 8 word) d) j = data_byte d j"
  unfolding data_byte_def
proof (rule ap_set_range_other)
  have "i < j \<or> j < i" using assms by auto
  then show "255 - j * 8 < 255 - ((i + 1) * 8 - 1) \<or> 255 - i * 8 < 255 - ((j + 1) * 8 - 1)" using assms by auto
qed

lemma set_data_msb_demo: "set_data_msb demo_set_data"
proof -
  have "data_byte (fold (\<lambda>i d. ap_set_range (255 - i * 8) (255 - ((i + 1) * 8 - 1)) (bs ! i) d) [0..<n] 0) j = bs ! j"
    if "j < n" "n \<le> 32" for bs :: "8 word list" and n j
    using that
  proof (induction n)
    case (Suc n)
    then show ?case using data_byte_set [of n] data_byte_set_other [of n j] by (cases "j = n") simp_all
  qed simp
  then show ?thesis by (simp add: set_data_msb_def demo_set_data_def)
qed

definition demo_mc_ops where
  "demo_mc_ops = \<lparr>mo_ks = 10, mo_vs = 10, mo_u = 0, mo_pa = \<lparr>pa_action = False, pa_metadata = metadata_from_int 0, pa_src_port = 0, pa_src_ip = 0\<rparr>,
     mo_junk = replicate 48 0, mo_set_data = demo_set_data, mo_mem = demo_memory, mo_ctx = array_context,
     mo_cache_ctx = array_context, mo_stats_ctx = array_context, mo_actions = list_fifo, mo_kvs = list_fifo, mo_reqs = list_fifo\<rparr>"

definition demo_request :: memcached_parsed_request where
  "demo_request = \<lparr>pr_udp_header = replicate 8 0, pr_key = replicate 10 0x61, pr_type = GET, pr_metadata = metadata_from_int 0\<rparr>"

lemma demo_mc_ops_simps:
  "mo_ks demo_mc_ops = 10" "mo_vs demo_mc_ops = 10" "mo_junk demo_mc_ops = replicate 48 0" "mo_set_data demo_mc_ops = demo_set_data"
  by (simp_all add: demo_mc_ops_def)

theorem response_roundtrip_witness:
  "let r = generate_response 10 10 (replicate 48 0) demo_request (replicate 10 0x62);
       w1 = response_word demo_mc_ops r False; w2 = response_word demo_mc_ops r True in
   parse_out_payload 10 10 w2 True (parse_out_payload 10 10 w1 False (replicate 10 0, replicate 10 0)) =
     (replicate 10 0x61, replicate 10 0x62)"
  using response_roundtrip [of demo_mc_ops demo_request "replicate 10 0x62" "replicate 10 0" "replicate 10 0"]
  by (auto simp: demo_mc_ops_simps set_data_msb_demo key_sizes_def demo_request_def REPLY_SIZE_def VALUE_BYTES_SIZE_def Let_def)

section \<open>Registers\<close>

definition memcached_registers :: "32 word set" where
  "memcached_registers = {MEMCACHED_REG_CACHE_SIZE, MEMCACHED_STATS_GET_REQUESTS, MEMCACHED_STATS_GET_REQUESTS_HITS,
     MEMCACHED_STATS_GET_REQUESTS_MISSES, MEMCACHED_STATS_SET_REQUESTS, MEMCACHED_STATS_N2H_UNKNOWN, MEMCACHED_STATS_GET_RESPONSE,
     MEMCACHED_STATS_H2N_UNKNOWN, MEMCACHED_DROPPED_BACKPRESSURE, MEMCACHED_RING_ID, MEMCACHED_STATS_GET_REQUESTS_DROPPED_HITS,
     MEMCACHED_STATS_DROPPED_TC_BACKPRESSURE}"

lemma memcached_rpc_unknown:
  "a \<notin> memcached_registers \<Longrightarrow> memcached_rpc ops a v i read s = (GW_FAIL, if read then - 1 else v, s)"
  by (simp add: memcached_registers_def memcached_rpc_def memcached_stats_rpc_def)

interpretation memcached_regs: register_file mc_base_update "memcached_step ops"
  "memcached_reg_write ops" "memcached_reg_read ops" "\<lambda>a. a \<in> memcached_registers"
  by unfold_locales (auto simp: memcached_reg_write_def memcached_reg_read_def memcached_rpc_unknown)

end
