(* ===== verification/Echo.thy ===== *)
theory Echo
  imports Ikernel_Top
begin

text \<open>
  The echo ikernel of \<open>src/ikernels/hls/echo.cpp\<close>: it answers every packet from the network, or only the sockperf packets
  that ask for a reply. \<open>ntl::consume\<close> and \<open>ntl::produce\<close>, which it calls on the ports it does not use, are
  parameters.
\<close>

definition ECHO_RESPOND_TO_SOCKPERF :: "32 word" where "ECHO_RESPOND_TO_SOCKPERF = 0"

datatype echo_state = ECHO_METADATA | ECHO_DATA

record echo =
  ec_base :: ikernel
  ec_state :: echo_state
  ec_first :: bool
  ec_respond :: bool
  ec_metadata :: metadata
  ec_port_dummy_update :: "bool hls_stream"
  ec_respond_to_sockperf :: bool
  ec_respond_to_sockperf_cache :: bool
  ec_sockperf_updates :: "bool hls_stream"

definition sockperf_flags :: "axi_data \<Rightarrow> 16 word" where
  "sockperf_flags d = ap_range (255 - 8 * 8) (256 - 10 * 8) (ad_data d)"

definition clear_client_bit :: "axi_data \<Rightarrow> axi_data" where
  "clear_client_bit d = d\<lparr>ad_data := ap_set_range (255 - 8 * 8) (256 - 10 * 8) (sockperf_flags d AND NOT 1) (ad_data d)\<rparr>"

definition echo_pipeline :: "tc_ikernel_data_counts \<Rightarrow> ports \<times> echo \<Rightarrow> ports \<times> echo" where
  "echo_pipeline tc ps =
     (let (p, s0) = ps;
          s = (if s_empty (ec_sockperf_updates s0) then s0
               else (let (v, q) = s_read (ec_sockperf_updates s0)
                     in s0\<lparr>ec_sockperf_updates := q, ec_respond_to_sockperf := v\<rparr>))
      in case ec_state s of
           ECHO_METADATA \<Rightarrow>
             if s_empty (metadata_input (po_net p)) then (p, s)
             else (let (m, q) = s_read (metadata_input (po_net p))
                   in (p\<lparr>po_net := (po_net p)\<lparr>metadata_input := q\<rparr>\<rparr>,
                       s\<lparr>ec_metadata := m, ec_state := ECHO_DATA, ec_first := True\<rparr>))
         | ECHO_DATA \<Rightarrow>
             if s_empty (data_input (po_net p)) then (p, s)
             else (let (d0, q) = s_read (data_input (po_net p));
                       p1 = p\<lparr>po_net := (po_net p)\<lparr>data_input := q\<rparr>\<rparr>;
                       respond = (if ec_first s
                                  then (if ec_respond_to_sockperf s then sockperf_flags d0 AND 2 \<noteq> 0 else True)
                                  else ec_respond s);
                       d = (if ec_first s \<and> ec_respond_to_sockperf s then clear_client_bit d0 else d0);
                       m = ec_metadata s;
                       p2 = (if ec_first s \<and> respond \<and> can_transmit (ec_base s) (tc_host tc) (ikernel_id m) 0 (ucast (len m)) NET
                             then p1\<lparr>po_host := (po_host p1)\<lparr>metadata_output := s_write (metadata_reply (len m) m) (metadata_output (po_host p1))\<rparr>\<rparr>
                             else p1);
                       p3 = (if respond
                             then p2\<lparr>po_host := (po_host p2)\<lparr>data_output := s_write d (data_output (po_host p2))\<rparr>\<rparr>
                             else p2)
                   in (p3, s\<lparr>ec_first := False, ec_respond := respond,
                             ec_state := (if ad_last d then ECHO_METADATA else ECHO_DATA)\<rparr>)))"

record unused_ports =
  up_consume_meta :: "bool \<Rightarrow> metadata hls_stream \<Rightarrow> metadata hls_stream"
  up_consume_data :: "bool \<Rightarrow> data_stream \<Rightarrow> data_stream"
  up_produce_meta :: "bool \<Rightarrow> metadata hls_stream \<Rightarrow> metadata hls_stream"
  up_produce_data :: "bool \<Rightarrow> data_stream \<Rightarrow> data_stream"

text \<open>\<open>u\<close> is the uninitialised local variable that \<open>read_nb\<close> sets.\<close>

definition echo_step :: "unused_ports \<Rightarrow> bool \<Rightarrow> tc_ikernel_data_counts \<Rightarrow> ports \<times> echo \<Rightarrow> ports \<times> echo" where
  "echo_step ops u tc ps =
     (let (p, s) = echo_pipeline tc ps;
          s1 = s\<lparr>ec_base := snd (ikernel_update (ec_base s))\<rparr>;
          w = s_write_nb False (ec_port_dummy_update s1);
          (dummy, q) = (case s_read_nb w of None \<Rightarrow> (u, w) | Some (x, q) \<Rightarrow> (x, q));
          host = po_host p; net = po_net p
      in (p\<lparr>po_host := host\<lparr>metadata_input := up_consume_meta ops dummy (metadata_input host),
                            data_input := up_consume_data ops dummy (data_input host)\<rparr>,
            po_net := net\<lparr>metadata_output := up_produce_meta ops dummy (metadata_output net),
                          data_output := up_produce_data ops dummy (data_output net)\<rparr>\<rparr>,
          s1\<lparr>ec_port_dummy_update := q\<rparr>))"

definition echo_reg_write :: "32 word \<Rightarrow> 32 word \<Rightarrow> ikernel_id_t \<Rightarrow> echo \<Rightarrow> gw_status \<times> echo" where
  "echo_reg_write address v i s =
     (if address = ECHO_RESPOND_TO_SOCKPERF
      then (if s_full (ec_sockperf_updates s) then (GW_BUSY, s)
            else (GW_CODE 0, s\<lparr>ec_respond_to_sockperf_cache := (v \<noteq> 0),
                              ec_sockperf_updates := s_write (v \<noteq> 0) (ec_sockperf_updates s)\<rparr>))
      else (GW_FAIL, s))"

definition echo_reg_read :: "32 word \<Rightarrow> 32 word \<Rightarrow> ikernel_id_t \<Rightarrow> echo \<Rightarrow> gw_status \<times> 32 word \<times> echo" where
  "echo_reg_read address v i s =
     (if address = ECHO_RESPOND_TO_SOCKPERF then (GW_CODE 0, of_bool (ec_respond_to_sockperf_cache s), s)
      else (GW_FAIL, - 1, s))"

definition echo_top ::
  "unused_ports \<Rightarrow> bool \<Rightarrow> credit_update_registers \<Rightarrow> (31 word \<times> 32 word \<times> ikernel_id_t) option \<Rightarrow> tc_ikernel_data_counts \<Rightarrow>
   ports \<times> echo \<Rightarrow> (gw_status \<times> 32 word) option \<times> ports \<times> echo" where
  "echo_top ops u = ikernel_top ec_base_update (echo_step ops u) echo_reg_write echo_reg_read"

section \<open>What the echo ikernel answers\<close>

text \<open>Flow control of the answers: only the counters of the traffic class matter.\<close>

definition echo_ct :: "tc_ikernel_data_counts \<Rightarrow> metadata \<Rightarrow> bool" where
  "echo_ct tc m \<longleftrightarrow> \<not> (uint (tc_meta_counts (tc_host tc) ! traffic_class (ikernel_id m)) > TC_META_THRESHOLD - 1 \<or>
     uint (tc_data_counts (tc_host tc) ! traffic_class (ikernel_id m)) >
       TC_DATA_THRESHOLD - uint (drop_bit 5 (ucast (len m) :: pkt_len_t)))"

lemma can_transmit_net: "can_transmit b (tc_host tc) (ikernel_id m) 0 (ucast (len m)) NET = echo_ct tc m"
  by (simp add: can_transmit_def echo_ct_def)

definition responds :: "bool \<Rightarrow> axi_data \<Rightarrow> bool" where
  "responds sockperf d \<longleftrightarrow> sockperf \<longrightarrow> sockperf_flags d AND 2 \<noteq> 0"

definition answered :: "bool \<Rightarrow> axi_data \<Rightarrow> axi_data" where
  "answered sockperf d = (if sockperf then clear_client_bit d else d)"

text \<open>
  The answers that the registers and the waiting input determine; \<open>Some (m, None)\<close> is a packet of which no word
  has been read, \<open>Some (m, Some r)\<close> one in the middle, with the decision \<open>r\<close>.
\<close>

fun echo_run ::
  "tc_ikernel_data_counts \<Rightarrow> bool \<Rightarrow> (metadata \<times> bool option) option \<Rightarrow> metadata list \<Rightarrow> axi_data list \<Rightarrow>
   metadata list \<times> axi_data list" where
  "echo_run tc sp st ms [] = ([], [])"
| "echo_run tc sp None [] (w # ws) = ([], [])"
| "echo_run tc sp None (m # ms) (w # ws) = echo_run tc sp (Some (m, None)) ms (w # ws)"
| "echo_run tc sp (Some (m, None)) ms (w # ws) =
     (let (a, b) = echo_run tc sp (if ad_last w then None else Some (m, Some (responds sp w))) ms ws
      in ((if responds sp w \<and> echo_ct tc m then [metadata_reply (len m) m] else []) @ a,
          (if responds sp w then [answered sp w] else []) @ b))"
| "echo_run tc sp (Some (m, Some r)) ms (w # ws) =
     (let (a, b) = echo_run tc sp (if ad_last w then None else Some (m, Some r)) ms ws in (a, (if r then [w] else []) @ b))"

definition echo_pos :: "echo \<Rightarrow> (metadata \<times> bool option) option" where
  "echo_pos s = (case ec_state s of ECHO_METADATA \<Rightarrow> None
     | ECHO_DATA \<Rightarrow> Some (ec_metadata s, if ec_first s then None else Some (ec_respond s)))"

type_synonym echo_sys = "ports \<times> echo"

definition echo_owed :: "tc_ikernel_data_counts \<Rightarrow> echo_sys \<Rightarrow> metadata list \<times> axi_data list" where
  "echo_owed tc ps = echo_run tc (ec_respond_to_sockperf (snd ps)) (echo_pos (snd ps))
     (que (metadata_input (po_net (fst ps)))) (que (data_input (po_net (fst ps))))"

definition echo_work :: "echo_sys \<Rightarrow> nat" where
  "echo_work ps = length (que (metadata_input (po_net (fst ps)))) + length (que (data_input (po_net (fst ps))))"

definition echo_ready :: "echo_sys \<Rightarrow> bool" where
  "echo_ready ps \<longleftrightarrow> que (ec_sockperf_updates (snd ps)) = []"

lemmas echo_defs = echo_owed_def echo_work_def echo_pos_def responds_def answered_def

lemma ad_last_clear [simp]: "ad_last (clear_client_bit d) = ad_last d"
  by (simp add: clear_client_bit_def)

lemma echo_step_frame:
  assumes "echo_pipeline tc ps = (p, s)" "echo_step ops u tc ps = (p', s')"
  shows "metadata_input (po_net p') = metadata_input (po_net p)" "data_input (po_net p') = data_input (po_net p)"
    "metadata_output (po_host p') = metadata_output (po_host p)" "data_output (po_host p') = data_output (po_host p)"
    "echo_pos s' = echo_pos s" "ec_respond_to_sockperf s' = ec_respond_to_sockperf s"
    "ec_sockperf_updates s' = ec_sockperf_updates s"
  using assms by (auto simp: echo_step_def Let_def echo_pos_def split: prod.splits echo_state.splits)

lemma echo_pipeline_idle:
  assumes "echo_ready (p, s)" "case ec_state s of ECHO_METADATA \<Rightarrow> que (metadata_input (po_net p)) = []
    | ECHO_DATA \<Rightarrow> que (data_input (po_net p)) = []"
  shows "echo_pipeline tc (p, s) = (p, s)" "echo_owed tc (p, s) = ([], [])"
  using assms
  by (cases "ec_state s"; cases "que (data_input (po_net p))";
      simp add: echo_pipeline_def echo_ready_def echo_owed_def echo_pos_def s_empty_def)+

lemma echo_pipeline_metadata:
  assumes "echo_ready (p, s)" "ec_state s = ECHO_METADATA" "que (metadata_input (po_net p)) = m # ms"
  shows "echo_pipeline tc (p, s) = (p\<lparr>po_net := (po_net p)\<lparr>metadata_input := (metadata_input (po_net p))\<lparr>que := ms\<rparr>\<rparr>\<rparr>,
    s\<lparr>ec_metadata := m, ec_state := ECHO_DATA, ec_first := True\<rparr>)"
  using assms by (simp add: echo_pipeline_def echo_ready_def s_empty_def s_read_def)

lemma echo_pipeline_word:
  fixes p :: ports and s :: echo
  defines "r \<equiv> \<lambda>w. if ec_first s then responds (ec_respond_to_sockperf s) w else ec_respond s"
    and "m \<equiv> ec_metadata s" and "host \<equiv> po_host p"
  assumes "echo_ready (p, s)" "ec_state s = ECHO_DATA" "que (data_input (po_net p)) = w # ws"
  shows "echo_pipeline tc (p, s) =
    (p\<lparr>po_net := (po_net p)\<lparr>data_input := (data_input (po_net p))\<lparr>que := ws\<rparr>\<rparr>,
       po_host := host\<lparr>metadata_output := (if ec_first s \<and> r w \<and> echo_ct tc m
           then s_write (metadata_reply (len m) m) (metadata_output host) else metadata_output host),
         data_output := (if r w then s_write (if ec_first s then answered (ec_respond_to_sockperf s) w else w) (data_output host)
           else data_output host)\<rparr>\<rparr>,
     s\<lparr>ec_first := False, ec_respond := r w, ec_state := (if ad_last w then ECHO_METADATA else ECHO_DATA)\<rparr>)"
  using assms(4-6)
  by (simp add: echo_pipeline_def echo_ready_def s_empty_def s_read_def can_transmit_net Let_def r_def m_def host_def
      responds_def answered_def)

lemma echo_pipeline_conserves:
  assumes "echo_ready (p, s)" "echo_pipeline tc (p, s) = (p', s')"
  shows "que (metadata_output (po_host p')) @ fst (echo_owed tc (p', s')) = que (metadata_output (po_host p)) @ fst (echo_owed tc (p, s)) \<and>
    que (data_output (po_host p')) @ snd (echo_owed tc (p', s')) = que (data_output (po_host p)) @ snd (echo_owed tc (p, s)) \<and>
    echo_ready (p', s') \<and> (echo_owed tc (p, s) \<noteq> ([], []) \<longrightarrow> echo_work (p', s') < echo_work (p, s))"
proof (cases "case ec_state s of ECHO_METADATA \<Rightarrow> que (metadata_input (po_net p)) = [] | ECHO_DATA \<Rightarrow> que (data_input (po_net p)) = []")
  case True
  then show ?thesis using echo_pipeline_idle [OF assms(1) True] assms by simp
next
  case busy: False
  show ?thesis
  proof (cases "ec_state s")
    case ECHO_METADATA
    then obtain m ms where q: "que (metadata_input (po_net p)) = m # ms"
      using busy by (cases "que (metadata_input (po_net p))") auto
    show ?thesis
      using echo_pipeline_metadata [OF assms(1) ECHO_METADATA q, of tc] assms q ECHO_METADATA
      by (cases "que (data_input (po_net p))") (auto simp: echo_owed_def echo_pos_def echo_work_def echo_ready_def)
  next
    case ECHO_DATA
    then obtain w ws where q: "que (data_input (po_net p)) = w # ws"
      using busy by (cases "que (data_input (po_net p))") auto
    show ?thesis
      using echo_pipeline_word [OF assms(1) ECHO_DATA q, of tc] assms q ECHO_DATA
      by (auto simp: echo_owed_def echo_pos_def echo_work_def echo_ready_def split: prod.split)
  qed
qed

definition echo_out_meta :: "echo_sys \<Rightarrow> metadata list" where
  "echo_out_meta ps = que (metadata_output (po_host (fst ps)))"

definition echo_out_data :: "echo_sys \<Rightarrow> axi_data list" where
  "echo_out_data ps = que (data_output (po_host (fst ps)))"

lemma echo_step_conserves:
  assumes "echo_ready ps"
  shows "echo_out_meta (echo_step ops u tc ps) @ fst (echo_owed tc (echo_step ops u tc ps)) = echo_out_meta ps @ fst (echo_owed tc ps) \<and>
    echo_out_data (echo_step ops u tc ps) @ snd (echo_owed tc (echo_step ops u tc ps)) = echo_out_data ps @ snd (echo_owed tc ps) \<and>
    echo_ready (echo_step ops u tc ps) \<and>
    (echo_owed tc ps \<noteq> ([], []) \<longrightarrow> echo_work (echo_step ops u tc ps) < echo_work ps)"
proof -
  obtain p s where ps: "ps = (p, s)" by (cases ps)
  obtain p1 s1 where e: "echo_pipeline tc (p, s) = (p1, s1)" by fastforce
  obtain p2 s2 where t: "echo_step ops u tc (p, s) = (p2, s2)" by fastforce
  show ?thesis
    using echo_pipeline_conserves [OF _ e] echo_step_frame [OF e t] assms ps t
    by (simp add: echo_out_meta_def echo_out_data_def echo_owed_def echo_work_def echo_ready_def)
qed

interpretation ec: stage2_on "echo_step ops u tc" echo_out_meta echo_out_data "echo_owed tc" echo_work echo_ready
  by unfold_locales (use echo_step_conserves in blast)+

lemma echo_run_rest:
  "is_packet ad_last p \<Longrightarrow> echo_run tc sp (Some (m, Some r)) ms (p @ ws) =
     (case echo_run tc sp None ms ws of (a, b) \<Rightarrow> (a, (if r then p else []) @ b))"
  by (induction p) (auto simp: is_packet_Cons split: if_splits prod.split)

definition answer_packet :: "bool \<Rightarrow> axi_data list \<Rightarrow> axi_data list" where
  "answer_packet sp p = (if responds sp (hd p) then answered sp (hd p) # tl p else [])"

definition answer_meta :: "tc_ikernel_data_counts \<Rightarrow> bool \<Rightarrow> metadata \<Rightarrow> axi_data list \<Rightarrow> metadata list" where
  "answer_meta tc sp m p = (if responds sp (hd p) \<and> echo_ct tc m then [metadata_reply (len m) m] else [])"

lemma echo_run_packet:
  "is_packet ad_last p \<Longrightarrow> echo_run tc sp None (m # ms) (p @ ws) =
     (case echo_run tc sp None ms ws of (a, b) \<Rightarrow> (answer_meta tc sp m p @ a, answer_packet sp p @ b))"
  by (cases p) (auto simp: is_packet_Cons echo_run_rest answer_meta_def answer_packet_def split: if_splits prod.split)

lemma echo_run_packets:
  "length ms = length pkts \<Longrightarrow> \<forall>p \<in> set pkts. is_packet ad_last p \<Longrightarrow>
   echo_run tc sp None ms (concat pkts) = (concat (map2 (answer_meta tc sp) ms pkts), concat (map (answer_packet sp) pkts))"
  by (induction ms pkts rule: list_induct2) (simp_all add: echo_run_packet)

text \<open>
  C36: The echo ikernel answers every packet: after enough clocks the host side has the data of every packet that asks for
  an answer, in order and with the sockperf client bit cleared in sockperf mode, and for each of them whose traffic
  class has room the metadata with source and destination exchanged. Under back pressure of the class the data of an
  answer is sent without its metadata.
\<close>
theorem echo_answers:
  fixes p :: ports and s :: echo
  assumes "ec_state s = ECHO_METADATA" "que (ec_sockperf_updates s) = []"
    "que (metadata_input (po_net p)) = ms" "que (data_input (po_net p)) = concat pkts" "\<forall>k \<in> set pkts. is_packet ad_last k"
    "length ms = length pkts" "que (metadata_output (po_host p)) = []" "que (data_output (po_host p)) = []"
  shows "\<exists>n. case (echo_step ops u tc ^^ n) (p, s) of (p', s') \<Rightarrow>
    que (metadata_output (po_host p')) = concat (map2 (answer_meta tc (ec_respond_to_sockperf s)) ms pkts) \<and>
    que (data_output (po_host p')) = concat (map (answer_packet (ec_respond_to_sockperf s)) pkts)"
proof -
  have "echo_ready (p, s)" using assms(2) by (simp add: echo_ready_def)
  from ec.drains2_on [OF this, where ops = ops and u = u and tc = tc] obtain n where
    n: "echo_out_meta ((echo_step ops u tc ^^ n) (p, s)) = echo_out_meta (p, s) @ fst (echo_owed tc (p, s))"
      "echo_out_data ((echo_step ops u tc ^^ n) (p, s)) = echo_out_data (p, s) @ snd (echo_owed tc (p, s))" by blast
  have "echo_owed tc (p, s) = (concat (map2 (answer_meta tc (ec_respond_to_sockperf s)) ms pkts),
      concat (map (answer_packet (ec_respond_to_sockperf s)) pkts))"
    using assms echo_run_packets by (simp add: echo_owed_def echo_pos_def)
  then show ?thesis
    using n assms(7,8) by (intro exI [of _ n]) (auto simp: echo_out_meta_def echo_out_data_def split: prod.split)
qed

definition demo_unused :: unused_ports where
  "demo_unused = \<lparr>up_consume_meta = (\<lambda>_ q. q), up_consume_data = (\<lambda>_ q. q), up_produce_meta = (\<lambda>_ q. q), up_produce_data = (\<lambda>_ q. q)\<rparr>"

definition demo_echo_ports :: ports where
  "demo_echo_ports =
     (let e = \<lparr>metadata_input = s_new None, data_input = s_new None, metadata_output = s_new None, data_output = s_new None\<rparr>
      in \<lparr>po_host = e, po_net = e\<lparr>metadata_input := \<lparr>depth = None, que = [metadata_from_int 0]\<rparr>,
           data_input := \<lparr>depth = None, que = [\<lparr>ad_data = 5, ad_keep = 0, ad_last = True\<rparr>]\<rparr>\<rparr>\<rparr>)"

definition demo_echo :: echo where
  "demo_echo = \<lparr>ec_base = \<lparr>host_credits = [], credit_updates = s_new None,
       last_host_credit_regs = \<lparr>cu_ring_id = 0, cu_max_msn = 0, cu_reset = False\<rparr>\<rparr>, ec_state = ECHO_METADATA,
     ec_first = False, ec_respond = False, ec_metadata = metadata_from_int 0, ec_port_dummy_update = s_new None,
     ec_respond_to_sockperf = False, ec_respond_to_sockperf_cache = False, ec_sockperf_updates = s_new None\<rparr>"

definition demo_echo_tc :: tc_ikernel_data_counts where
  "demo_echo_tc = \<lparr>tc_net = tc_pipeline_data_counts_init, tc_host = tc_pipeline_data_counts_init\<rparr>"

theorem echo_answers_witness:
  "\<exists>n. case (echo_step demo_unused False demo_echo_tc ^^ n) (demo_echo_ports, demo_echo) of (p', s') \<Rightarrow>
    que (metadata_output (po_host p')) = concat (map2 (answer_meta demo_echo_tc (ec_respond_to_sockperf demo_echo))
      [metadata_from_int 0] [[\<lparr>ad_data = 5, ad_keep = 0, ad_last = True\<rparr>]]) \<and>
    que (data_output (po_host p')) = concat (map (answer_packet (ec_respond_to_sockperf demo_echo))
      [[\<lparr>ad_data = 5, ad_keep = 0, ad_last = True\<rparr>]])"
  by (rule echo_answers) (simp_all add: demo_echo_def demo_echo_ports_def s_new_def is_packet_Cons)

section \<open>Registers\<close>

definition echo_registers :: "32 word set" where
  "echo_registers = {ECHO_RESPOND_TO_SOCKPERF}"

interpretation echo_regs: register_file ec_base_update "echo_step ops u" echo_reg_write echo_reg_read "\<lambda>a. a \<in> echo_registers"
  for ops u
  by unfold_locales (auto simp: echo_registers_def echo_reg_write_def echo_reg_read_def)

end
