(* ===== verification/Pktgen.thy ===== *)
theory Pktgen
  imports Ikernel_Top
begin

text \<open>
  The packet generator of \<open>src/ikernels/hls/pktgen.cpp\<close>: it records a packet of the host and sends a burst of copies of it,
  scheduled among the virtual ikernels by \<open>ntl::scheduler\<close>. The scheduler is not part of the repository;
  \<open>flow_sched_ops\<close> holds its operations.
  The source marks packets longer than its array of 64 words as a TODO; a word beyond the array
  is not stored here.
\<close>

definition PKTGEN_BURST_SIZE :: "32 word" where "PKTGEN_BURST_SIZE = 0x10"
definition PKTGEN_CUR_PACKET :: "32 word" where "PKTGEN_CUR_PACKET = 0x11"
definition PKTGEN_SCHEDULER :: "32 word" where "PKTGEN_SCHEDULER = 0x20"

record pktgen_context =
  gc_cur_packet :: "32 word"
  gc_burst_size :: "32 word"
  gc_data_length :: "32 word"
  gc_metadata :: metadata

datatype pktgen_state = PG_IDLE | INPUT_PACKET | DUPLICATE

datatype scheduler_state = FIND_NEXT_IKERNEL | TRANSMIT_COMMAND

record ('c, 's) pktgen =
  pg_base :: ikernel
  pg_sched :: 's
  pg_state :: pktgen_state
  pg_metadata :: metadata
  pg_context :: pktgen_context
  pg_context_updates :: "pktgen_context hls_stream"
  pg_transmit_commands :: "(pktgen_context \<times> 32 word) hls_stream"
  pg_data_offset :: nat
  pg_quota :: "32 word"
  pg_data :: "axi_data list list"
  pg_contexts :: 'c
  pg_scheduler_state :: scheduler_state
  pg_sched_ikernel_id :: ikernel_id_t
  pg_quota_from_sched :: "32 word"

record ('c, 's) pg_ops =
  go_ctx :: "('c, pktgen_context) context_ops"
  go_sched :: "('s, ikernel_id_t) flow_sched_ops"

definition sched_wrapper :: "('c, 's) pg_ops \<Rightarrow> ('c, 's) pktgen \<Rightarrow> ('c, 's) pktgen" where
  "sched_wrapper ops s =
     (let (busy, cs) = cx_update (go_ctx ops) (pg_contexts s);
          s1 = s\<lparr>pg_contexts := cs\<rparr>
      in if busy then s1
         else (let (busy2, sc) = sc_update (go_sched ops) (pg_sched s1);
                   s2 = s1\<lparr>pg_sched := sc\<rparr>
               in if busy2 then s2
                  else if \<not> s_empty (pg_context_updates s2)
                  then (let (c, q) = s_read (pg_context_updates s2);
                            i = ikernel_id (gc_metadata c);
                            old = cx_get (go_ctx ops) (pg_contexts s2) (unat i);
                            new = old\<lparr>gc_data_length := gc_data_length c,
                                      gc_cur_packet := min (gc_cur_packet c) (gc_burst_size old),
                                      gc_metadata := gc_metadata c\<rparr>
                        in s2\<lparr>pg_context_updates := q, pg_contexts := cx_put (go_ctx ops) (pg_contexts s2) (unat i) new,
                              pg_sched := (if gc_cur_packet new \<noteq> 0 then sc_schedule (go_sched ops) i (pg_sched s2) else pg_sched s2)\<rparr>)
                  else (let s3 = (case pg_scheduler_state s2 of
                              FIND_NEXT_IKERNEL \<Rightarrow>
                                (let (ok, i, qu, sc') = sc_next_flow (go_sched ops) (pg_sched_ikernel_id s2) (pg_quota_from_sched s2) (pg_sched s2)
                                 in s2\<lparr>pg_sched := sc', pg_sched_ikernel_id := i, pg_quota_from_sched := qu,
                                       pg_scheduler_state := (if ok then TRANSMIT_COMMAND else FIND_NEXT_IKERNEL)\<rparr>)
                            | TRANSMIT_COMMAND \<Rightarrow> s2)
                        in if pg_scheduler_state s3 = FIND_NEXT_IKERNEL \<or> s_full (pg_transmit_commands s3) then s3
                           else s3\<lparr>pg_transmit_commands :=
                                    s_write (cx_get (go_ctx ops) (pg_contexts s3) (unat (pg_sched_ikernel_id s3)), pg_quota_from_sched s3)
                                      (pg_transmit_commands s3),
                                  pg_scheduler_state := FIND_NEXT_IKERNEL\<rparr>)))"

definition check_quantum_complete ::
  "('c, 's) pg_ops \<Rightarrow> tc_pipeline_data_counts \<Rightarrow> ('c, 's) pktgen \<Rightarrow> ('c, 's) pktgen" where
  "check_quantum_complete ops tc s =
     (let c = pg_context s; i = ikernel_id (gc_metadata c)
      in if gc_data_length c \<le> pg_quota s \<and> gc_cur_packet c \<noteq> 0 \<and>
            can_transmit (pg_base s) tc i 0 (ucast (push_bit 5 (gc_data_length c))) NET
         then s\<lparr>pg_data_offset := 0, pg_state := DUPLICATE\<rparr>
         else s\<lparr>pg_context_updates := s_write c (pg_context_updates s),
                pg_sched := sc_update_flow (go_sched ops) i (gc_cur_packet c) (pg_quota s) (pg_sched s),
                pg_state := PG_IDLE\<rparr>)"

definition input_packet ::
  "('c, 's) pg_ops \<Rightarrow> pipeline_ports \<times> ('c, 's) pktgen \<Rightarrow> pipeline_ports \<times> ('c, 's) pktgen" where
  "input_packet ops ps =
     (let (p, s) = ps
      in if s_empty (data_input p) then (p, s)
         else (let (d, q) = s_read (data_input p);
                   i = unat (ikernel_id (pg_metadata s));
                   s1 = s\<lparr>pg_data := (pg_data s)[i := (pg_data s ! i)[pg_data_offset s := d]],
                          pg_data_offset := pg_data_offset s + 1\<rparr>;
                   p1 = p\<lparr>data_input := q, data_output := s_write d (data_output p)\<rparr>
               in (p1, if ad_last d
                       then s1\<lparr>pg_context_updates := s_write
                              \<lparr>gc_cur_packet = - 1, gc_burst_size = 0, gc_data_length = of_nat (pg_data_offset s1), gc_metadata = pg_metadata s1\<rparr>
                              (pg_context_updates s1),
                            pg_state := PG_IDLE\<rparr>
                       else s1)))"

definition duplicate ::
  "('c, 's) pg_ops \<Rightarrow> tc_pipeline_data_counts \<Rightarrow> pipeline_ports \<times> ('c, 's) pktgen \<Rightarrow> pipeline_ports \<times> ('c, 's) pktgen" where
  "duplicate ops tc ps =
     (let (p, s) = ps;
          c = pg_context s;
          (p1, s1) = (if pg_data_offset s = 0
                      then (p\<lparr>metadata_output := s_write ((gc_metadata c)\<lparr>ip_identification := ucast (gc_cur_packet c)\<rparr>) (metadata_output p)\<rparr>,
                            s\<lparr>pg_context := c\<lparr>gc_cur_packet := gc_cur_packet c - 1\<rparr>\<rparr>)
                      else (p, s));
          p2 = p1\<lparr>data_output := s_write (pg_data s1 ! unat (ikernel_id (gc_metadata c)) ! pg_data_offset s1) (data_output p1)\<rparr>;
          s2 = s1\<lparr>pg_data_offset := pg_data_offset s1 + 1\<rparr>
      in if pg_data_offset s2 \<ge> unat (gc_data_length c)
         then (p2, check_quantum_complete ops tc (s2\<lparr>pg_quota := pg_quota s2 - gc_data_length c\<rparr>))
         else (p2, s2))"

definition data_plane ::
  "('c, 's) pg_ops \<Rightarrow> tc_pipeline_data_counts \<Rightarrow> pipeline_ports \<times> ('c, 's) pktgen \<Rightarrow> pipeline_ports \<times> ('c, 's) pktgen" where
  "data_plane ops tc ps =
     (let (p, s) = ps
      in case pg_state s of
           PG_IDLE \<Rightarrow>
             if \<not> s_empty (metadata_input p)
             then (let (m, q) = s_read (metadata_input p)
                   in input_packet ops (p\<lparr>metadata_input := q, metadata_output := s_write m (metadata_output p)\<rparr>,
                        s\<lparr>pg_metadata := m, pg_state := INPUT_PACKET, pg_data_offset := 0\<rparr>))
             else if \<not> s_empty (pg_transmit_commands s)
             then (let ((c, qu), q) = s_read (pg_transmit_commands s)
                   in (p, check_quantum_complete ops tc (s\<lparr>pg_transmit_commands := q, pg_context := c, pg_quota := qu\<rparr>)))
             else (p, s)
         | INPUT_PACKET \<Rightarrow> input_packet ops (p, s)
         | DUPLICATE \<Rightarrow> duplicate ops tc (p, s))"

definition pktgen_step ::
  "('c, 's) pg_ops \<Rightarrow> tc_ikernel_data_counts \<Rightarrow> ports \<times> ('c, 's) pktgen \<Rightarrow> ports \<times> ('c, 's) pktgen" where
  "pktgen_step ops tc ps =
     (let (p, s) = ps;
          (host, s1) = data_plane ops (tc_host tc) (po_host p, s);
          s2 = sched_wrapper ops s1;
          net = pass_packets (po_net p)
      in (p\<lparr>po_host := host, po_net := net\<rparr>, s2\<lparr>pg_base := snd (ikernel_update (pg_base s2))\<rparr>))"

definition pktgen_rpc ::
  "('c, pktgen_context) context_ops \<Rightarrow> 32 word \<Rightarrow> 32 word \<Rightarrow> ikernel_id_t \<Rightarrow> bool \<Rightarrow> 'c \<Rightarrow> gw_status \<times> 32 word \<times> 'c" where
  "pktgen_rpc ops address v i read c =
     (if address = PKTGEN_BURST_SIZE then cx_access ops (unat i) gc_burst_size (\<lambda>w x. x\<lparr>gc_burst_size := w\<rparr>) v read c
      else if address = PKTGEN_CUR_PACKET then cx_access ops (unat i) gc_cur_packet (\<lambda>w x. x\<lparr>gc_cur_packet := w\<rparr>) v read c
      else (GW_FAIL, - 1, c))"

text \<open>Both handlers pass \<open>read = false\<close> to the scheduler, also the one for reading.\<close>

definition pktgen_reg_write ::
  "('c, 's) pg_ops \<Rightarrow> 32 word \<Rightarrow> 32 word \<Rightarrow> ikernel_id_t \<Rightarrow> ('c, 's) pktgen \<Rightarrow> gw_status \<times> ('c, 's) pktgen" where
  "pktgen_reg_write ops address v i s =
     (if sint address > sint PKTGEN_SCHEDULER
      then (let (st, _, sc) = sc_rpc (go_sched ops) (address - PKTGEN_SCHEDULER) v i False (pg_sched s) in (st, s\<lparr>pg_sched := sc\<rparr>))
      else if address = PKTGEN_BURST_SIZE \<or> address = PKTGEN_CUR_PACKET
      then (let (st, _, c) = pktgen_rpc (go_ctx ops) address v i False (pg_contexts s) in (st, s\<lparr>pg_contexts := c\<rparr>))
      else (GW_FAIL, s))"

definition pktgen_reg_read ::
  "('c, 's) pg_ops \<Rightarrow> 32 word \<Rightarrow> 32 word \<Rightarrow> ikernel_id_t \<Rightarrow> ('c, 's) pktgen \<Rightarrow> gw_status \<times> 32 word \<times> ('c, 's) pktgen" where
  "pktgen_reg_read ops address v i s =
     (if sint address > sint PKTGEN_SCHEDULER
      then (let (st, w, sc) = sc_rpc (go_sched ops) (address - PKTGEN_SCHEDULER) v i False (pg_sched s) in (st, w, s\<lparr>pg_sched := sc\<rparr>))
      else if address = PKTGEN_BURST_SIZE \<or> address = PKTGEN_CUR_PACKET
      then (let (st, w, c) = pktgen_rpc (go_ctx ops) address v i True (pg_contexts s) in (st, w, s\<lparr>pg_contexts := c\<rparr>))
      else (GW_FAIL, v, s))"

definition pktgen_top ::
  "('c, 's) pg_ops \<Rightarrow> credit_update_registers \<Rightarrow> (31 word \<times> 32 word \<times> ikernel_id_t) option \<Rightarrow> tc_ikernel_data_counts \<Rightarrow>
   ports \<times> ('c, 's) pktgen \<Rightarrow> (gw_status \<times> 32 word) option \<times> ports \<times> ('c, 's) pktgen" where
  "pktgen_top ops = ikernel_top pg_base_update (pktgen_step ops) (pktgen_reg_write ops) (pktgen_reg_read ops)"

section \<open>A burst\<close>

definition stored :: "('c, 's) pktgen \<Rightarrow> axi_data list" where
  "stored s = take (unat (gc_data_length (pg_context s))) (pg_data s ! unat (ikernel_id (gc_metadata (pg_context s))))"

definition copy_meta :: "pktgen_context \<Rightarrow> metadata" where
  "copy_meta c = (gc_metadata c)\<lparr>ip_identification := ucast (gc_cur_packet c)\<rparr>"

definition one_sent :: "('c, 's) pktgen \<Rightarrow> ('c, 's) pktgen" where
  "one_sent s = s\<lparr>pg_context := (pg_context s)\<lparr>gc_cur_packet := gc_cur_packet (pg_context s) - 1\<rparr>\<rparr>"

definition can_copy :: "('c, 's) pktgen \<Rightarrow> bool" where
  "can_copy s \<longleftrightarrow> pg_state s = DUPLICATE \<and> pg_data_offset s = 0 \<and> gc_data_length (pg_context s) \<noteq> 0 \<and>
     unat (gc_data_length (pg_context s)) \<le> length (pg_data s ! unat (ikernel_id (gc_metadata (pg_context s))))"

lemma copy_words:
  assumes "can_copy s" "0 < j" "j < unat (gc_data_length (pg_context s))"
  shows "(data_plane ops tc ^^ j) (p, s) =
    (p\<lparr>metadata_output := s_write (copy_meta (pg_context s)) (metadata_output p),
       data_output := (data_output p)\<lparr>que := que (data_output p) @ take j (stored s)\<rparr>\<rparr>,
     (one_sent s)\<lparr>pg_data_offset := j\<rparr>)"
  using assms(2,3)
proof (induction j rule: nat_induct_non_zero)
  case 1
  then show ?case
    using assms(1)
    by (cases "pg_data s ! unat (ikernel_id (gc_metadata (pg_context s)))")
      (auto simp: can_copy_def data_plane_def duplicate_def Let_def copy_meta_def one_sent_def stored_def s_write_def take_Suc)
next
  case (Suc j)
  let ?ws = "pg_data s ! unat (ikernel_id (gc_metadata (pg_context s)))"
  have "j < length ?ws" using Suc.prems assms(1) by (simp add: can_copy_def)
  then have "take (Suc j) (stored s) = take j (stored s) @ [?ws ! j]"
    using Suc.prems by (simp add: stored_def take_Suc_conv_app_nth)
  then show ?case
    using Suc assms(1)
    by (simp add: can_copy_def data_plane_def duplicate_def Let_def one_sent_def s_write_def)
qed

lemma copy_packet:
  assumes "can_copy s"
  shows "(data_plane ops tc ^^ unat (gc_data_length (pg_context s))) (p, s) =
    (p\<lparr>metadata_output := s_write (copy_meta (pg_context s)) (metadata_output p),
       data_output := (data_output p)\<lparr>que := que (data_output p) @ stored s\<rparr>\<rparr>,
     check_quantum_complete ops tc ((one_sent s)\<lparr>pg_data_offset := unat (gc_data_length (pg_context s)),
       pg_quota := pg_quota s - gc_data_length (pg_context s)\<rparr>))"
proof -
  let ?ws = "pg_data s ! unat (ikernel_id (gc_metadata (pg_context s)))"
  obtain n where n: "unat (gc_data_length (pg_context s)) = Suc n"
    using assms by (cases "unat (gc_data_length (pg_context s))") (auto simp: can_copy_def unat_eq_zero)
  then have "n < length ?ws" using assms by (simp add: can_copy_def)
  then have st: "stored s = take n (stored s) @ [?ws ! n]" by (simp add: stored_def n take_Suc_conv_app_nth)
  show ?thesis
  proof (cases "n = 0")
    case True
    then show ?thesis
      using assms n st
      by (simp add: can_copy_def data_plane_def duplicate_def Let_def copy_meta_def one_sent_def s_write_def)
  next
    case False
    then have "(data_plane ops tc ^^ Suc n) (p, s) = data_plane ops tc
        (p\<lparr>metadata_output := s_write (copy_meta (pg_context s)) (metadata_output p),
           data_output := (data_output p)\<lparr>que := que (data_output p) @ take n (stored s)\<rparr>\<rparr>,
         (one_sent s)\<lparr>pg_data_offset := n\<rparr>)"
      using copy_words [OF assms, of n ops tc p] n by simp
    also have "\<dots> = (p\<lparr>metadata_output := s_write (copy_meta (pg_context s)) (metadata_output p),
           data_output := (data_output p)\<lparr>que := que (data_output p) @ (take n (stored s) @ [?ws ! n])\<rparr>\<rparr>,
         check_quantum_complete ops tc ((one_sent s)\<lparr>pg_data_offset := Suc n,
           pg_quota := pg_quota s - gc_data_length (pg_context s)\<rparr>))"
      using assms False n by (simp add: can_copy_def data_plane_def duplicate_def Let_def one_sent_def s_write_def)
    finally show ?thesis using n st by simp
  qed
qed

definition burst_ok :: "tc_pipeline_data_counts \<Rightarrow> ('c, 's) pktgen \<Rightarrow> bool" where
  "burst_ok tc s \<longleftrightarrow> can_copy s \<and> gc_cur_packet (pg_context s) \<noteq> 0 \<and>
     unat (gc_cur_packet (pg_context s)) * unat (gc_data_length (pg_context s)) \<le> unat (pg_quota s) \<and>
     can_transmit (pg_base s) tc (ikernel_id (gc_metadata (pg_context s))) 0
       (ucast (push_bit 5 (gc_data_length (pg_context s)))) NET"

definition after_packet :: "('c, 's) pg_ops \<Rightarrow> tc_pipeline_data_counts \<Rightarrow> ('c, 's) pktgen \<Rightarrow> ('c, 's) pktgen" where
  "after_packet ops tc s = check_quantum_complete ops tc ((one_sent s)\<lparr>pg_data_offset := unat (gc_data_length (pg_context s)),
     pg_quota := pg_quota s - gc_data_length (pg_context s)\<rparr>)"

lemma after_packet_more:
  assumes "burst_ok tc s" "gc_cur_packet (pg_context s) \<noteq> 1"
  shows "burst_ok tc (after_packet ops tc s)" "stored (after_packet ops tc s) = stored s"
    "pg_context (after_packet ops tc s) = pg_context (one_sent s)"
    "pg_context_updates (after_packet ops tc s) = pg_context_updates s"
proof -
  let ?k = "gc_cur_packet (pg_context s)" and ?n = "gc_data_length (pg_context s)"
  have k: "unat (?k - 1) = unat ?k - 1" "?k - 1 \<noteq> 0"
    using assms by (auto simp: burst_ok_def unat_minus_one)
  have "unat ?k \<noteq> unat (1 :: 32 word)" using assms(2) by (metis word_unat_eq_iff)
  moreover have "0 < unat ?k" using assms(1) by (simp add: burst_ok_def unat_gt_0)
  ultimately have "2 * unat ?n \<le> unat ?k * unat ?n" by (intro mult_right_mono) auto
  also have "\<dots> \<le> unat (pg_quota s)" using assms(1) by (simp add: burst_ok_def)
  finally have q: "2 * unat ?n \<le> unat (pg_quota s)" .
  then have le: "?n \<le> pg_quota s" by (simp add: word_le_nat_alt)
  then have sub: "unat (pg_quota s - ?n) = unat (pg_quota s) - unat ?n" by (rule unat_sub)
  then have more: "?n \<le> pg_quota s - ?n" using q by (simp add: word_le_nat_alt)
  have a: "after_packet ops tc s = (one_sent s)\<lparr>pg_quota := pg_quota s - ?n, pg_data_offset := 0, pg_state := DUPLICATE\<rparr>"
    using assms(1) k(2) more by (simp add: after_packet_def check_quantum_complete_def one_sent_def burst_ok_def Let_def)
  have "(unat ?k - 1) * unat ?n \<le> unat (pg_quota s) - unat ?n"
    using assms(1) unfolding burst_ok_def diff_mult_distrib mult_1 by (intro diff_le_mono) blast
  then show "burst_ok tc (after_packet ops tc s)"
    using assms(1) k sub by (simp add: a burst_ok_def can_copy_def one_sent_def)
  show "stored (after_packet ops tc s) = stored s" "pg_context (after_packet ops tc s) = pg_context (one_sent s)"
    "pg_context_updates (after_packet ops tc s) = pg_context_updates s"
    by (simp_all add: a stored_def one_sent_def)
qed

lemma after_packet_last:
  assumes "gc_cur_packet (pg_context s) = 1"
  shows "pg_state (after_packet ops tc s) = PG_IDLE"
    "que (pg_context_updates (after_packet ops tc s)) = que (pg_context_updates s) @ [(pg_context s)\<lparr>gc_cur_packet := 0\<rparr>]"
  using assms by (simp_all add: after_packet_def check_quantum_complete_def one_sent_def Let_def s_write_def)

text \<open>
  C37: A scheduled burst is exact: when the quota and the traffic class allow it, a burst of \<open>k\<close> packets of \<open>n\<close> words takes
  \<open>k * n\<close> clocks and sends exactly \<open>k\<close> copies of the recorded packet, with the IP identification counting down
  from \<open>k\<close> to 1; then the generator is idle and has reported that no packet is left.
\<close>
theorem pktgen_burst:
  fixes s :: "('c, 's) pktgen"
  assumes "burst_ok tc s" "k = unat (gc_cur_packet (pg_context s))"
  shows "case (data_plane ops tc ^^ (k * unat (gc_data_length (pg_context s)))) (p, s) of (p', s') \<Rightarrow>
    que (metadata_output p') = que (metadata_output p) @
      map (\<lambda>j. (gc_metadata (pg_context s))\<lparr>ip_identification := of_nat (k - j)\<rparr>) [0..<k] \<and>
    que (data_output p') = que (data_output p) @ concat (replicate k (stored s)) \<and>
    pg_state s' = PG_IDLE \<and>
    que (pg_context_updates s') = que (pg_context_updates s) @ [(pg_context s)\<lparr>gc_cur_packet := 0\<rparr>]"
  using assms
proof (induction k arbitrary: p s)
  case 0
  then show ?case by (simp add: burst_ok_def unat_eq_zero)
next
  case (Suc k)
  let ?c = "pg_context s" and ?n = "unat (gc_data_length (pg_context s))"
  let ?p = "p\<lparr>metadata_output := s_write (copy_meta ?c) (metadata_output p),
       data_output := (data_output p)\<lparr>que := que (data_output p) @ stored s\<rparr>\<rparr>"
  have one: "(data_plane ops tc ^^ ?n) (p, s) = (?p, after_packet ops tc s)"
    using copy_packet [of s ops tc p] Suc.prems(1) by (simp add: after_packet_def burst_ok_def)
  then have run: "(data_plane ops tc ^^ (Suc k * ?n)) (p, s) = (data_plane ops tc ^^ (k * ?n)) (?p, after_packet ops tc s)"
    by (simp add: funpow_add add.commute [of ?n])
  have meta: "copy_meta ?c = (gc_metadata ?c)\<lparr>ip_identification := of_nat (Suc k)\<rparr>"
    using Suc.prems(2) by (simp add: copy_meta_def del: of_nat_Suc)
  have upt: "[0..<Suc k] = 0 # map Suc [0..<k]" by (simp add: map_Suc_upt upt_conv_Cons del: upt_Suc)
  show ?case
  proof (cases "gc_cur_packet ?c = 1")
    case True
    then have "k = 0" using Suc.prems(2) by simp
    then show ?thesis using run meta after_packet_last [OF True] by (simp add: s_write_def)
  next
    case False
    note more = after_packet_more [OF Suc.prems(1) False]
    have k: "k = unat (gc_cur_packet (pg_context (after_packet ops tc s)))"
      using more(3) [of ops] Suc.prems unat_minus_one [of "gc_cur_packet ?c"]
      by (simp add: one_sent_def burst_ok_def)
    show ?thesis
      using Suc.IH [OF more(1) k, of ?p] run meta more(2-4)
      by (simp add: one_sent_def s_write_def upt comp_def del: upt_Suc split: prod.split)
  qed
qed

definition demo_flow_sched :: "(unit, ikernel_id_t) flow_sched_ops" where
  "demo_flow_sched = \<lparr>sc_update = (\<lambda>s. (False, s)), sc_schedule = (\<lambda>i s. s), sc_next_flow = (\<lambda>i q s. (False, i, q, s)),
     sc_update_flow = (\<lambda>i c q s. s), sc_rpc = (\<lambda>a v i r s. (GW_DONE, v, s))\<rparr>"

definition demo_pktgen :: "(nat \<Rightarrow> pktgen_context, unit) pktgen" where
  "demo_pktgen =
     (let c = \<lparr>gc_cur_packet = 2, gc_burst_size = 2, gc_data_length = 1, gc_metadata = metadata_from_int 0\<rparr>
      in \<lparr>pg_base = \<lparr>host_credits = [], credit_updates = s_new None,
            last_host_credit_regs = \<lparr>cu_ring_id = 0, cu_max_msn = 0, cu_reset = False\<rparr>\<rparr>,
          pg_sched = (), pg_state = DUPLICATE, pg_metadata = metadata_from_int 0, pg_context = c,
          pg_context_updates = s_new None, pg_transmit_commands = s_new None, pg_data_offset = 0, pg_quota = 10,
          pg_data = replicate 64 [\<lparr>ad_data = 7, ad_keep = - 1, ad_last = True\<rparr>], pg_contexts = (\<lambda>_. c),
          pg_scheduler_state = FIND_NEXT_IKERNEL, pg_sched_ikernel_id = 0, pg_quota_from_sched = 0\<rparr>)"

definition demo_pktgen_ops :: "(nat \<Rightarrow> pktgen_context, unit) pg_ops" where
  "demo_pktgen_ops = \<lparr>go_ctx = array_context, go_sched = demo_flow_sched\<rparr>"

definition demo_pktgen_port :: pipeline_ports where
  "demo_pktgen_port = \<lparr>metadata_input = s_new None, data_input = s_new None, metadata_output = s_new None, data_output = s_new None\<rparr>"

lemma demo_burst_ok: "burst_ok tc_pipeline_data_counts_init demo_pktgen"
proof -
  let ?i = "ikernel_id (metadata_from_int 0)"
  have "traffic_class ?i < 8" using traffic_class_less [of ?i] by (simp add: NUM_TC_def)
  then have "can_transmit b tc_pipeline_data_counts_init ?i 0 32 NET" for b
    by (simp add: can_transmit_def tc_pipeline_data_counts_init_def NUM_TC_def TC_META_THRESHOLD_def TC_DATA_THRESHOLD_def)
  moreover have "unat ?i < 64" using unsigned_less [of ?i] by simp
  ultimately show ?thesis by (simp add: burst_ok_def can_copy_def demo_pktgen_def Let_def)
qed

theorem pktgen_burst_witness:
  "case (data_plane demo_pktgen_ops tc_pipeline_data_counts_init ^^ (2 * 1)) (demo_pktgen_port, demo_pktgen) of (p', s') \<Rightarrow>
    length (que (metadata_output p')) = 2 \<and> pg_state s' = PG_IDLE"
  using pktgen_burst [OF demo_burst_ok, of 2, where ops = demo_pktgen_ops and p = demo_pktgen_port]
  by (auto simp: demo_pktgen_def demo_pktgen_port_def s_new_def Let_def split: prod.splits)

section \<open>Registers\<close>

definition pktgen_registers :: "32 word set" where
  "pktgen_registers = {PKTGEN_BURST_SIZE, PKTGEN_CUR_PACKET} \<union> {a. sint a > sint PKTGEN_SCHEDULER}"

interpretation pktgen_regs: register_file pg_base_update "pktgen_step ops"
  "pktgen_reg_write ops" "pktgen_reg_read ops" "\<lambda>a. a \<in> pktgen_registers"
  by unfold_locales (auto simp: pktgen_registers_def pktgen_reg_write_def pktgen_reg_read_def)

end
