(* ===== verification/Coap_Base64.thy ===== *)
theory Coap_Base64
  imports Hls_Helper
begin

text \<open>
  The encoder of \<open>src/ikernels/hls/coap.cpp\<close> that writes a SHA-256 digest as the 43 characters of its
  base64url form without padding, the form of a JSON web token's signature. It is compared with
  the alphabet and the bit order of RFC 4648, and it is inverted by the decoder of that standard, so two digests with
  the same text are equal.
\<close>

definition SHA256_HASH_BYTES :: nat where "SHA256_HASH_BYTES = 32"
definition SIGNATURE_BASE64_LENGTH :: nat where "SIGNATURE_BASE64_LENGTH = 43"

text \<open>The arguments fit in six bits, so eight bits lose nothing; the last branch is the source's \<open>assert (0)\<close>.\<close>

definition basis_64 :: "8 word \<Rightarrow> 8 word" where
  "basis_64 val =
     (if val \<le> 25 then of_char CHR ''A'' + val
      else if val \<ge> 26 \<and> val \<le> 51 then of_char CHR ''a'' + (val - 26)
      else if val \<ge> 52 \<and> val \<le> 61 then of_char CHR ''0'' + (val - 52)
      else if val = 62 then of_char CHR ''-''
      else if val = 63 then of_char CHR ''_''
      else 0)"

definition base64_first :: "256 word \<Rightarrow> nat \<Rightarrow> 8 word" where
  "base64_first string i = drop_bit 2 (get_byte string i) AND 0x3F"

definition base64_second :: "256 word \<Rightarrow> nat \<Rightarrow> 8 word" where
  "base64_second string i = push_bit 4 (get_byte string i AND 0x3) OR drop_bit 4 (get_byte string (i + 1) AND 0xF0)"

definition base64_third :: "256 word \<Rightarrow> nat \<Rightarrow> 8 word" where
  "base64_third string i = push_bit 2 (get_byte string (i + 1) AND 0xF) OR drop_bit 6 (get_byte string (i + 2) AND 0xC0)"

definition base64_encode :: "344 word \<Rightarrow> 256 word \<Rightarrow> 344 word" where
  "base64_encode encoded string =
     (let e = fold (\<lambda>k e.
            (let i = 3 * k; offset = 4 * k
             in write_byte (write_byte (write_byte (write_byte e
                  offset (basis_64 (base64_first string i)))
                  (offset + 1) (basis_64 (base64_second string i)))
                  (offset + 2) (basis_64 (base64_third string i)))
                  (offset + 3) (basis_64 (get_byte string (i + 2) AND 0x3F)))) [0..<(SHA256_HASH_BYTES - 2) div 3] encoded
      in write_byte (write_byte (write_byte e
           40 (basis_64 (base64_first string (SHA256_HASH_BYTES - 2))))
           41 (basis_64 (base64_second string (SHA256_HASH_BYTES - 2))))
           42 (basis_64 (push_bit 2 (get_byte string (SHA256_HASH_BYTES - 1) AND 0xF))))"

section \<open>RFC 4648\<close>

text \<open>The digest, followed by two zero bits, in groups of six bits; the alphabet of section 5.\<close>

definition extended :: "256 word \<Rightarrow> 258 word" where
  "extended d = push_bit 2 (ucast d)"

definition sextet :: "256 word \<Rightarrow> nat \<Rightarrow> 6 word" where
  "sextet d k = ucast (drop_bit (252 - 6 * k) (extended d))"

definition alphabet :: string where
  "alphabet = ''ABCDEFGHIJKLMNOPQRSTUVWXYZabcdefghijklmnopqrstuvwxyz0123456789-_''"

definition b64_char :: "6 word \<Rightarrow> 8 word" where
  "b64_char v = of_char (alphabet ! unat v)"

definition b64_value :: "8 word \<Rightarrow> 6 word" where
  "b64_value c = of_nat (length (takeWhile (\<lambda>a. of_char a \<noteq> c) alphabet))"

definition base64_decode :: "344 word \<Rightarrow> 256 word" where
  "base64_decode text =
     ucast (drop_bit 2 (fold (\<lambda>k acc. push_bit 6 acc OR ucast (b64_value (get_byte text k))) [0..<43] (0 :: 258 word)))"

lemma six_bits: "(v :: 6 word) \<in> of_nat ` {0..<64}"
proof
  show "v = of_nat (unat v)" by simp
  show "unat v \<in> {0..<64}" using unsigned_less [of v] by simp
qed

lemma basis_64_table: "list_all (\<lambda>n. basis_64 (ucast (of_nat n :: 6 word)) = b64_char (of_nat n)) [0..<64]"
  by code_simp

lemma b64_value_table: "list_all (\<lambda>n. b64_value (b64_char (of_nat n)) = of_nat n) [0..<64]"
  by code_simp

lemma basis_64_char: "basis_64 (ucast v) = b64_char v"
  using basis_64_table six_bits [of v] by (auto simp: list_all_iff)

lemma b64_value_char: "b64_value (b64_char v) = v"
  using b64_value_table six_bits [of v] by (auto simp: list_all_iff)


section \<open>The encoder follows the standard\<close>

lemma byte_masks:
  "(0x3F :: 8 word) = mask 6" "(0x3 :: 8 word) = mask 2" "(0xF :: 8 word) = mask 4"
  "(0xF0 :: 8 word) = push_bit 4 (mask 4)" "(0xC0 :: 8 word) = push_bit 6 (mask 2)"
  by (simp_all add: mask_eq_exp_minus_1 push_bit_eq_mult)

lemma bit_sextet: "k \<le> 42 \<Longrightarrow> bit (sextet d k) n \<longleftrightarrow> n < 6 \<and> 2 + 6 * k \<le> 252 + n \<and> bit d (250 + n - 6 * k)"
  by (auto simp: sextet_def extended_def bit_simps)

lemmas sextet_bits = bit_get_byte bit_sextet byte_masks bit_simps

lemma first_sextet: "k \<le> 10 \<Longrightarrow> base64_first d (3 * k) = ucast (sextet d (4 * k))"
proof -
  assume "k \<le> 10"
  then have "Suc (Suc (n + 248 - k * 24)) = n + 250 - k * 24" for n by arith
  with \<open>k \<le> 10\<close> show ?thesis by (intro bit_word_eqI) (auto simp: base64_first_def sextet_bits algebra_simps)
qed

lemma second_sextet: "k \<le> 10 \<Longrightarrow> base64_second d (3 * k) = ucast (sextet d (4 * k + 1))"
  by (rule bit_word_eqI) (auto simp: base64_second_def sextet_bits algebra_simps)

lemma third_sextet: "k < 10 \<Longrightarrow> base64_third d (3 * k) = ucast (sextet d (4 * k + 2))"
  by (rule bit_word_eqI) (auto simp: base64_third_def sextet_bits algebra_simps)

lemma fourth_sextet: "k < 10 \<Longrightarrow> get_byte d (3 * k + 2) AND 0x3F = ucast (sextet d (4 * k + 3))"
  by (rule bit_word_eqI) (auto simp: sextet_bits algebra_simps)

lemma last_sextet: "push_bit 2 (get_byte d 31 AND 0xF) = ucast (sextet d 42)"
  by (rule bit_word_eqI) (auto simp: sextet_bits numeral_2_eq_2 [symmetric])

definition base64_group :: "256 word \<Rightarrow> nat \<Rightarrow> 344 word \<Rightarrow> 344 word" where
  "base64_group string k e =
     write_byte (write_byte (write_byte (write_byte e
       (4 * k) (basis_64 (base64_first string (3 * k))))
       (4 * k + 1) (basis_64 (base64_second string (3 * k))))
       (4 * k + 2) (basis_64 (base64_third string (3 * k))))
       (4 * k + 3) (basis_64 (get_byte string (3 * k + 2) AND 0x3F))"

lemma get_byte_group:
  assumes "k < 10" "j < 43"
  shows "get_byte (base64_group d k e) j = (if 4 * k \<le> j \<and> j < 4 * k + 4 then b64_char (sextet d j) else get_byte e j)"
proof -
  have "j = 4 * k \<or> j = 4 * k + 1 \<or> j = 4 * k + 2 \<or> j = 4 * k + 3" if "4 * k \<le> j" "j < 4 * k + 4"
    using that by arith
  with assms show ?thesis
    by (auto simp: base64_group_def get_write_byte first_sextet second_sextet third_sextet fourth_sextet [simplified] basis_64_char)
qed

lemma get_byte_groups:
  "\<lbrakk>m \<le> 10; j < 43\<rbrakk> \<Longrightarrow>
   get_byte (fold (base64_group d) [0..<m] e) j = (if j < 4 * m then b64_char (sextet d j) else get_byte e j)"
  by (induction m) (auto simp: get_byte_group)

lemma base64_encode_groups:
  "base64_encode e d =
     write_byte (write_byte (write_byte (fold (base64_group d) [0..<10] e)
       40 (b64_char (sextet d 40))) 41 (b64_char (sextet d 41))) 42 (b64_char (sextet d 42))"
  using first_sextet [of 10 d] second_sextet [of 10 d] last_sextet [of d]
  by (simp add: base64_encode_def SHA256_HASH_BYTES_def base64_group_def [abs_def] Let_def basis_64_char del: upt_Suc)

lemma get_byte_base64_encode:
  assumes "j < 43"
  shows "get_byte (base64_encode e d) j = b64_char (sextet d j)"
proof -
  have "j < 40 \<or> j = 40 \<or> j = 41 \<or> j = 42" using assms by arith
  then show ?thesis
    using assms by (auto simp: base64_encode_groups get_write_byte get_byte_groups del: upt_Suc)
qed

lemma decode_prefix:
  "k \<le> 43 \<Longrightarrow>
   fold (\<lambda>k acc. push_bit 6 acc OR ucast (b64_value (get_byte (base64_encode e d) k))) [0..<k] (0 :: 258 word) =
   drop_bit (258 - 6 * k) (extended d)"
proof (induction k)
  case 0
  show ?case by (rule bit_word_eqI) (auto simp: bit_simps dest: bit_imp_le_length)
next
  case (Suc k)
  have "push_bit 6 (drop_bit (258 - 6 * k) (extended d)) OR ucast (sextet d k) = drop_bit (252 - 6 * k) (extended d)"
    using Suc.prems by (intro bit_word_eqI) (auto simp: bit_simps sextet_def algebra_simps)
  then show ?case using Suc by (simp add: get_byte_base64_encode b64_value_char)
qed

lemma base64_decode_encode: "base64_decode (base64_encode e d) = d"
proof -
  have "base64_decode (base64_encode e d) = ucast (drop_bit 2 (extended d))"
    by (simp only: base64_decode_def decode_prefix) simp
  also have "\<dots> = d"
    by (rule bit_word_eqI) (auto simp: extended_def bit_simps)
  finally show ?thesis .
qed

lemma base64_encode_inject: "base64_encode e d = base64_encode e d' \<longleftrightarrow> d = d'"
  by (metis base64_decode_encode)

text \<open>
  C25: The 43 bytes that \<open>coap::base64_encode\<close> writes for a digest are the characters of the base64url alphabet of RFC 4648 for the
  successive groups of six bits of the digest (followed by two zero bits), whatever the output register held, and the
  decoder of the standard gives the digest back.
\<close>

theorem base64_url_encoding:
  "map (get_byte (base64_encode encoded digest)) [0..<43] = map (\<lambda>k. b64_char (sextet digest k)) [0..<43] \<and>
   base64_decode (base64_encode encoded digest) = digest"
  by (simp add: get_byte_base64_encode base64_decode_encode del: upt_Suc)

end
