(* ===== verification/Coap.thy ===== *)
theory Coap
  imports Ikernel_Top Coap_Base64
begin

text \<open>
  The CoAP ikernel of \<open>src/ikernels/hls/coap.cpp\<close> and \<open>coap.hpp\<close>: it checks the signature of the JSON web token in a CoAP request
  and drops the request when the signature is wrong. The token is signed with HMAC-SHA256 under the key of the
  virtual ikernel.

  Parameters: \<open>ntl\<close>'s tables of contexts and its scheduler, the layout of \<open>ntl::axi_data::set_data\<close>,
  and the contents of the registers the source leaves uninitialised (\<open>co_u\<close>, \<open>co_e\<close>, \<open>co_pa\<close>). The two SHA units
  are outside the C++ sources; their four streams are fields of the state.
\<close>

definition IPAD :: "8 word" where "IPAD = 0x36"
definition OPAD :: "8 word" where "OPAD = 0x5C"
definition SHA256_HASH_BITS :: nat where "SHA256_HASH_BITS = 256"
definition SHA256_BLOCK_BITS :: nat where "SHA256_BLOCK_BITS = 512"
definition SHA256_BLOCK_BYTES :: nat where "SHA256_BLOCK_BYTES = SHA256_BLOCK_BITS div 8"
definition NUM_COAP_CONTEXTS :: nat where "NUM_COAP_CONTEXTS = 2 ^ 6"
definition MESSAGE_LENGTH_IN_BITS :: nat where "MESSAGE_LENGTH_IN_BITS = 81 * 8"
definition FIRST_PASS_BLOCKS :: nat where "FIRST_PASS_BLOCKS = MESSAGE_LENGTH_IN_BITS div SHA256_BLOCK_BITS"
definition FIRST_PASS_LAST_BLOCK_SIZE :: nat where
  "FIRST_PASS_LAST_BLOCK_SIZE = MESSAGE_LENGTH_IN_BITS - FIRST_PASS_BLOCKS * SHA256_BLOCK_BITS"

definition COAP_KEY :: "32 word" where "COAP_KEY = 0x10"
definition COAP_RING_ID :: "32 word" where "COAP_RING_ID = 0x20"
definition COAP_DROPPED_COUNT :: "32 word" where "COAP_DROPPED_COUNT = 0x21"
definition COAP_PASSED_COUNT :: "32 word" where "COAP_PASSED_COUNT = 0x22"
definition COAP_FIRST_PASS_SHA_UNIT_REQ_COUNT :: "32 word" where "COAP_FIRST_PASS_SHA_UNIT_REQ_COUNT = 0x23"
definition COAP_FIRST_PASS_SHA_UNIT_RES_COUNT :: "32 word" where "COAP_FIRST_PASS_SHA_UNIT_RES_COUNT = 0x24"
definition COAP_SECOND_PASS_SHA_UNIT_REQ_COUNT :: "32 word" where "COAP_SECOND_PASS_SHA_UNIT_REQ_COUNT = 0x25"
definition COAP_SECOND_PASS_SHA_UNIT_RES_COUNT :: "32 word" where "COAP_SECOND_PASS_SHA_UNIT_RES_COUNT = 0x26"
definition COAP_PARSED_PACKETS_COUNT :: "32 word" where "COAP_PARSED_PACKETS_COUNT = 0x27"
definition COAP_DROPPER_UNIT_STATE :: "32 word" where "COAP_DROPPER_UNIT_STATE = 0x28"
definition COAP_PARSER_UNIT_STATE :: "32 word" where "COAP_PARSER_UNIT_STATE = 0x29"
definition COAP_FIRST_PASS_UNIT_STATE :: "32 word" where "COAP_FIRST_PASS_UNIT_STATE = 0x30"
definition COAP_SECOND_PASS_UNIT_STATE :: "32 word" where "COAP_SECOND_PASS_UNIT_STATE = 0x31"
definition COAP_BACKPRESSURE_DROP_COUNT :: "32 word" where "COAP_BACKPRESSURE_DROP_COUNT = 0x32"
definition COAP_SCHEDULER :: "32 word" where "COAP_SCHEDULER = 0x33"

definition JWT_BASE64_HEADER :: string where
  "JWT_BASE64_HEADER = ''eyJhbGciOiJIUzI1NiIsInR5cCI6IkpXVCJ9.''"

section \<open>Data\<close>

type_synonym coap_tc = "3 word"

record coap_hmac_key =
  hk_buff :: "512 word"
  hk_tc :: ikernel_id_t

record coap_parsed_data =
  pd_first_word :: "512 word"
  pd_second_word :: "512 word"

definition coap_parsed_data_init :: "coap_parsed_data \<Rightarrow> coap_parsed_data" where
  "coap_parsed_data_init d =
     d\<lparr>pd_first_word := fold (\<lambda>i w. write_byte w i (of_char (JWT_BASE64_HEADER ! i))) [0..<37] (pd_first_word d)\<rparr>"

record coap_decision =
  cd_pass :: bool
  cd_ring_id :: ring_id_t

record coap_context =
  cc_ring_id :: ring_id_t

record coap_stats_context =
  cs_dropped_count :: "32 word"
  cs_passed_count :: "32 word"
  cs_first_pass_sha_unit_req_count :: "32 word"
  cs_first_pass_sha_unit_res_count :: "32 word"
  cs_second_pass_sha_unit_req_count :: "32 word"
  cs_second_pass_sha_unit_res_count :: "32 word"
  cs_parsed_packets_count :: "32 word"
  cs_dropper_unit_state :: "32 word"
  cs_parser_unit_state :: "32 word"
  cs_first_pass_unit_state :: "32 word"
  cs_second_pass_unit_state :: "32 word"
  cs_backpressure_drop_count :: "32 word"

record coap_sha_request =
  sr_data :: "512 word"
  sr_last :: bool

record coap_verify_sig_request =
  vr_ring_id :: ring_id_t
  vr_tc :: ikernel_id_t

record coap_packet_action =
  pa_pass :: bool
  pa_ring_id :: ring_id_t
  pa_port :: "16 word"
  pa_ip :: "32 word"

datatype coap_in_state = IN_METADATA | FIRST_WORD | SECOND_WORD | THIRD_WORD | FOURTH_WORD | FIFTH_WORD | OTHER_WORDS

datatype coap_dropper_state = COAP_DECISION | COAP_DATA

datatype coap_first_pass_state = COAP_READ_REQUEST | FIRST_BLOCK | SECOND_BLOCK

datatype coap_second_pass_state = HASH_KEY | HASH_FIRST_PASS

datatype coap_sched_state = COAP_FIND_NEXT_IKERNEL | PASS_REQUESTS | UPDATE_QUOTA

text \<open>
  \<open>ntl::base_context_manager\<close>, without the read path of \<open>context_ops\<close>: \<open>bx_set index x\<close> stands for storing \<open>x\<close> in
  \<open>gateway_context\<close> and calling \<open>gateway_set (index)\<close>.
\<close>

record ('c, 'x) base_context_ops =
  bx_get :: "'c \<Rightarrow> nat \<Rightarrow> 'x"
  bx_update :: "'c \<Rightarrow> bool \<times> 'c"
  bx_set :: "nat \<Rightarrow> 'x \<Rightarrow> 'c \<Rightarrow> gw_status \<times> 'c"

record ('c, 'k, 't, 's) coap_ops =
  co_ctx :: "('c, coap_context) base_context_ops"
  co_keys :: "('k, 32 word) base_context_ops"
  co_stats :: "('t, coap_stats_context) context_ops"
  co_sched :: "('s, coap_tc) flow_sched_ops"
  co_set_data :: "8 word list \<Rightarrow> nat \<Rightarrow> 256 word \<times> 32 word"
  co_u :: "512 word"
  co_e :: "344 word"
  co_pa :: coap_packet_action

record ('c, 'k, 't, 's) coap =
  ck_base :: ikernel
  ck_in_state :: coap_in_state
  ck_dropper_state :: coap_dropper_state
  ck_first_pass_state :: coap_first_pass_state
  ck_second_pass_state :: coap_second_pass_state
  ck_parser_data :: data_stream
  ck_buffer_data :: data_stream
  ck_parser_metadata :: "metadata hls_stream"
  ck_buffer_metadata :: "metadata hls_stream"
  ck_decision_stream :: "coap_decision hls_stream"
  ck_action_stream :: "coap_packet_action hls_stream"
  ck_dropper_packet_action :: coap_packet_action
  ck_parsed_data :: coap_parsed_data
  ck_first_pass_data :: coap_parsed_data
  ck_sig :: "344 word"
  ck_meta :: metadata
  ck_request :: coap_sha_request
  ck_key_to_first_pass :: "coap_hmac_key hls_stream"
  ck_key_to_second_pass :: "coap_hmac_key hls_stream"
  ck_verify_sig_request_stream :: "coap_verify_sig_request hls_stream"
  ck_contexts :: 'c
  ck_keys :: "'k list"
  ck_stats_contexts :: 't
  ck_backpressure_drop :: "(ikernel_id_t \<times> bool) hls_stream"
  ck_action_count :: "(ikernel_id_t \<times> bool) hls_stream"
  ck_first_pass_req_count :: "bool hls_stream"
  ck_first_pass_res_count :: "bool hls_stream"
  ck_second_pass_req_count :: "bool hls_stream"
  ck_second_pass_res_count :: "bool hls_stream"
  ck_parsed_packets :: "ikernel_id_t hls_stream"
  ck_dropper_unit_state :: "32 word hls_stream"
  ck_parser_unit_state :: "32 word hls_stream"
  ck_first_pass_unit_state :: "32 word hls_stream"
  ck_second_pass_unit_state :: "32 word hls_stream"
  ck_sched :: 's
  ck_parser_curr_tc :: coap_tc
  ck_sched_curr_tc :: coap_tc
  ck_first_pass_curr_tc :: coap_tc
  ck_parsed_packet_tc :: "coap_tc hls_stream"
  ck_parsed_data_stream :: "coap_parsed_data hls_stream list"
  ck_sig_stream :: "344 word hls_stream list"
  ck_ikernel_id_per_tc :: "ikernel_id_t hls_stream list"
  ck_sched_state :: coap_sched_state
  ck_sched_quota :: "32 word"
  ck_tc_empty :: bool
  ck_sha1_in :: "coap_sha_request hls_stream"
  ck_sha1_out :: "256 word hls_stream"
  ck_sha2_in :: "coap_sha_request hls_stream"
  ck_sha2_out :: "256 word hls_stream"

section \<open>Units\<close>

text \<open>Writing to and reading from one stream of an array of streams.\<close>

definition arr_write :: "'a \<Rightarrow> coap_tc \<Rightarrow> 'a hls_stream list \<Rightarrow> 'a hls_stream list" where
  "arr_write x tc qs = qs[unat tc := s_write x (qs ! unat tc)]"

definition arr_read :: "coap_tc \<Rightarrow> 'a hls_stream list \<Rightarrow> 'a \<times> 'a hls_stream list" where
  "arr_read tc qs = (let (x, q) = s_read (qs ! unat tc) in (x, qs[unat tc := q]))"

definition coap_ring_header_word :: "('c, 'k, 't, 's) coap_ops \<Rightarrow> coap_packet_action \<Rightarrow> axi_data" where
  "coap_ring_header_word ops pa =
     (let buff = replicate 32 0;
          buff1 = ap_uint_to_char 2 buff (pa_port pa);
          buff2 = take 2 buff1 @ ap_uint_to_char 4 (drop 2 buff1) (pa_ip pa);
          (dat, kp) = co_set_data ops buff2 32
      in \<lparr>ad_data = dat, ad_keep = kp, ad_last = False\<rparr>)"

definition coap_drop_or_pass ::
  "('c, 'k, 't, 's) coap_ops \<Rightarrow> pipeline_ports \<times> ('c, 'k, 't, 's) coap \<Rightarrow> pipeline_ports \<times> ('c, 'k, 't, 's) coap" where
  "coap_drop_or_pass ops ps =
     (let (p, s) = ps
      in case ck_dropper_state s of
           COAP_DECISION \<Rightarrow>
             if \<not> s_empty (ck_action_stream s) \<and> \<not> s_full (ck_dropper_unit_state s)
             then (let (pa, q) = s_read (ck_action_stream s);
                       p1 = (if pa_pass pa \<and> pa_ring_id pa \<noteq> 0
                             then p\<lparr>data_output := s_write (coap_ring_header_word ops pa) (data_output p)\<rparr> else p)
                   in (p1, s\<lparr>ck_action_stream := q, ck_dropper_packet_action := pa,
                             ck_dropper_unit_state := s_write_nb 0 (ck_dropper_unit_state s),
                             ck_dropper_state := COAP_DATA\<rparr>))
             else (p, s)
         | COAP_DATA \<Rightarrow>
             if \<not> s_empty (ck_buffer_data s) \<and> \<not> s_full (ck_dropper_unit_state s)
             then (let (d, q) = s_read (ck_buffer_data s);
                       p1 = (if pa_pass (ck_dropper_packet_action s)
                             then p\<lparr>data_output := s_write d (data_output p)\<rparr> else p)
                   in (p1, s\<lparr>ck_buffer_data := q,
                             ck_dropper_state := (if ad_last d then COAP_DECISION else COAP_DATA),
                             ck_dropper_unit_state := s_write_nb 1 (ck_dropper_unit_state s)\<rparr>))
             else (p, s))"

definition calc_tc :: "metadata \<Rightarrow> coap_tc" where
  "calc_tc m = ucast (ikernel_id m AND of_nat (NUM_TC - 1))"

text \<open>The four words of a request that the parser takes bytes from.\<close>

definition parse_second_word :: "256 word \<Rightarrow> coap_parsed_data \<Rightarrow> coap_parsed_data" where
  "parse_second_word w d =
     d\<lparr>pd_first_word := write_byte (write_byte (pd_first_word d) 37 (get_byte w 30)) 38 (get_byte w 31)\<rparr>"

definition parse_third_word :: "256 word \<Rightarrow> coap_parsed_data \<Rightarrow> coap_parsed_data" where
  "parse_third_word w d =
     fold (\<lambda>i d. (let b = get_byte w i;
                      d1 = (if i \<le> 24 then d\<lparr>pd_first_word := write_byte (pd_first_word d) (39 + i) b\<rparr> else d)
                  in (if i \<ge> 25 then d1\<lparr>pd_second_word := write_byte (pd_second_word d1) (i - 25) b\<rparr> else d1)))
       [0..<32] d"

definition parse_fourth_word :: "256 word \<Rightarrow> coap_parsed_data \<times> 344 word \<Rightarrow> coap_parsed_data \<times> 344 word" where
  "parse_fourth_word w ds =
     fold (\<lambda>i (d, sig). (let b = get_byte w i
                         in (if i \<le> 9 then d\<lparr>pd_second_word := write_byte (pd_second_word d) (i + 7) b\<rparr> else d,
                             if i \<ge> 11 then write_byte sig (i - 11) b else sig)))
       [0..<32] ds"

definition parse_fifth_word :: "256 word \<Rightarrow> 344 word \<Rightarrow> 344 word" where
  "parse_fifth_word w sig = fold (\<lambda>i g. write_byte g (i + 21) (get_byte w i)) [0..<22] sig"

definition in_state_code :: "coap_in_state \<Rightarrow> 32 word" where
  "in_state_code st =
     (case st of IN_METADATA \<Rightarrow> 0 | FIRST_WORD \<Rightarrow> 1 | SECOND_WORD \<Rightarrow> 2 | THIRD_WORD \<Rightarrow> 3 | FOURTH_WORD \<Rightarrow> 4 | FIFTH_WORD \<Rightarrow> 5
      | OTHER_WORDS \<Rightarrow> 6)"

definition coap_parse_packet :: "('c, 'k, 't, 's) coap \<Rightarrow> ('c, 'k, 't, 's) coap" where
  "coap_parse_packet s0 =
     (let s = s0\<lparr>ck_parser_unit_state := s_write_nb (in_state_code (ck_in_state s0)) (ck_parser_unit_state s0)\<rparr>;
          tc = ck_parser_curr_tc s;
          (d, q) = s_read (ck_parser_data s)
      in case ck_in_state s of
           IN_METADATA \<Rightarrow>
             if \<not> s_empty (ck_parser_metadata s)
             then (let (m, mq) = s_read (ck_parser_metadata s)
                   in s\<lparr>ck_meta := m, ck_parser_metadata := mq, ck_parser_curr_tc := calc_tc m, ck_in_state := FIRST_WORD\<rparr>)
             else s
         | FIRST_WORD \<Rightarrow>
             if \<not> s_empty (ck_parser_data s) then s\<lparr>ck_parser_data := q, ck_in_state := SECOND_WORD\<rparr> else s
         | SECOND_WORD \<Rightarrow>
             if \<not> s_empty (ck_parser_data s)
             then s\<lparr>ck_parser_data := q, ck_parsed_data := parse_second_word (ad_data d) (ck_parsed_data s), ck_in_state := THIRD_WORD\<rparr>
             else s
         | THIRD_WORD \<Rightarrow>
             if \<not> s_empty (ck_parser_data s)
             then s\<lparr>ck_parser_data := q, ck_parsed_data := parse_third_word (ad_data d) (ck_parsed_data s), ck_in_state := FOURTH_WORD\<rparr>
             else s
         | FOURTH_WORD \<Rightarrow>
             if \<not> s_empty (ck_parser_data s) \<and> \<not> s_full (ck_parsed_data_stream s ! unat tc)
             then (let (pd, sig) = parse_fourth_word (ad_data d) (ck_parsed_data s, ck_sig s)
                   in s\<lparr>ck_parser_data := q, ck_parsed_data := pd, ck_sig := sig,
                        ck_parsed_data_stream := arr_write pd tc (ck_parsed_data_stream s), ck_in_state := FIFTH_WORD\<rparr>)
             else s
         | FIFTH_WORD \<Rightarrow>
             if \<not> s_empty (ck_parser_data s) \<and> \<not> s_full (ck_sig_stream s ! unat tc) \<and>
                \<not> s_full (ck_ikernel_id_per_tc s ! unat tc) \<and> \<not> s_full (ck_parsed_packet_tc s)
             then (let sig = parse_fifth_word (ad_data d) (ck_sig s)
                   in s\<lparr>ck_parser_data := q, ck_sig := sig,
                        ck_sig_stream := arr_write sig tc (ck_sig_stream s),
                        ck_parsed_packet_tc := s_write tc (ck_parsed_packet_tc s),
                        ck_ikernel_id_per_tc := arr_write (ikernel_id (ck_meta s)) tc (ck_ikernel_id_per_tc s),
                        ck_in_state := OTHER_WORDS\<rparr>)
             else s
         | OTHER_WORDS \<Rightarrow>
             if \<not> s_empty (ck_parser_data s) \<and> \<not> s_full (ck_parsed_packets s)
             then (if ad_last d
                   then s\<lparr>ck_parser_data := q, ck_parsed_packets := s_write_nb (ikernel_id (ck_meta s)) (ck_parsed_packets s),
                          ck_in_state := IN_METADATA\<rparr>
                   else s\<lparr>ck_parser_data := q\<rparr>)
             else s)"

text \<open>\<open>pad_block<Length, MessageLength, Width>\<close>: the lengths are in bits.\<close>

definition pad_block :: "nat \<Rightarrow> 64 word \<Rightarrow> 512 word \<Rightarrow> 'w::len word \<Rightarrow> 512 word" where
  "pad_block bits message_length dest src =
     (let n = bits div 8;
          d1 = memcpy_ap n dest src;
          d2 = write_byte d1 n 0x80;
          d3 = fold (\<lambda>i d. write_byte d (1 + n + i) 0) [0..<56 - n] d2
      in fold (\<lambda>i d. write_byte d (55 + i) (ucast (drop_bit (64 - 8 * i) message_length))) [1..<9] d3)"

definition xor_block :: "8 word \<Rightarrow> 512 word \<Rightarrow> 512 word" where
  "xor_block pad data = fold (\<lambda>i d. write_byte d i (get_byte d i XOR pad)) [0..<SHA256_BLOCK_BYTES] data"

text \<open>One event of \<open>update_stats\<close>: when the stream has an element, take it and change the context it names.\<close>

definition stat_event ::
  "('t, coap_stats_context) context_ops \<Rightarrow> ('e \<Rightarrow> nat) \<Rightarrow> ('e \<Rightarrow> coap_stats_context \<Rightarrow> coap_stats_context) \<Rightarrow>
   'e hls_stream \<times> 't \<Rightarrow> 'e hls_stream \<times> 't" where
  "stat_event ops index f qt =
     (let (q, t) = qt
      in if s_empty q then (q, t)
         else (let (e, q') = s_read q; i = index e in (q', cx_put ops t i (f e (cx_get ops t i)))))"

definition coap_count_action :: "ikernel_id_t \<times> bool \<Rightarrow> coap_stats_context \<Rightarrow> coap_stats_context" where
  "coap_count_action e c =
     (if snd e then c\<lparr>cs_passed_count := cs_passed_count c + 1\<rparr> else c\<lparr>cs_dropped_count := cs_dropped_count c + 1\<rparr>)"

definition coap_update_stats :: "('t, coap_stats_context) context_ops \<Rightarrow> ('c, 'k, 't, 's) coap \<Rightarrow> ('c, 'k, 't, 's) coap" where
  "coap_update_stats ops s =
     (let (q1, t1) = stat_event ops (\<lambda>e. unat (fst e))
            (\<lambda>_ c. c\<lparr>cs_backpressure_drop_count := cs_backpressure_drop_count c + 1\<rparr>) (ck_backpressure_drop s, ck_stats_contexts s);
          (q2, t2) = stat_event ops (\<lambda>e. unat (fst e)) coap_count_action (ck_action_count s, t1);
          (q3, t3) = stat_event ops (\<lambda>_. 0)
            (\<lambda>_ c. c\<lparr>cs_first_pass_sha_unit_req_count := cs_first_pass_sha_unit_req_count c + 1\<rparr>) (ck_first_pass_req_count s, t2);
          (q4, t4) = stat_event ops (\<lambda>_. 0)
            (\<lambda>_ c. c\<lparr>cs_first_pass_sha_unit_res_count := cs_first_pass_sha_unit_res_count c + 1\<rparr>) (ck_first_pass_res_count s, t3);
          (q5, t5) = stat_event ops (\<lambda>_. 0)
            (\<lambda>_ c. c\<lparr>cs_second_pass_sha_unit_req_count := cs_second_pass_sha_unit_req_count c + 1\<rparr>) (ck_second_pass_req_count s, t4);
          (q6, t6) = stat_event ops (\<lambda>_. 0)
            (\<lambda>_ c. c\<lparr>cs_second_pass_sha_unit_res_count := cs_second_pass_sha_unit_res_count c + 1\<rparr>) (ck_second_pass_res_count s, t5);
          (q7, t7) = stat_event ops unat
            (\<lambda>_ c. c\<lparr>cs_parsed_packets_count := cs_parsed_packets_count c + 1\<rparr>) (ck_parsed_packets s, t6);
          (q8, t8) = stat_event ops (\<lambda>_. 0) (\<lambda>e c. c\<lparr>cs_dropper_unit_state := e\<rparr>) (ck_dropper_unit_state s, t7);
          (q9, t9) = stat_event ops (\<lambda>_. 0) (\<lambda>e c. c\<lparr>cs_parser_unit_state := e\<rparr>) (ck_parser_unit_state s, t8);
          (q10, t10) = stat_event ops (\<lambda>_. 0) (\<lambda>e c. c\<lparr>cs_first_pass_unit_state := e\<rparr>) (ck_first_pass_unit_state s, t9);
          (q11, t11) = stat_event ops (\<lambda>_. 0) (\<lambda>e c. c\<lparr>cs_second_pass_unit_state := e\<rparr>) (ck_second_pass_unit_state s, t10)
      in s\<lparr>ck_stats_contexts := t11, ck_backpressure_drop := q1, ck_action_count := q2, ck_first_pass_req_count := q3,
           ck_first_pass_res_count := q4, ck_second_pass_req_count := q5, ck_second_pass_res_count := q6,
           ck_parsed_packets := q7, ck_dropper_unit_state := q8, ck_parser_unit_state := q9,
           ck_first_pass_unit_state := q10, ck_second_pass_unit_state := q11\<rparr>)"

definition coap_find_ring :: "('c, coap_context) base_context_ops \<Rightarrow> 'c \<Rightarrow> ikernel_id_t \<Rightarrow> ring_id_t" where
  "coap_find_ring ops c i = cc_ring_id (bx_get ops c (unat i))"

text \<open>The key of a virtual ikernel, gathered from its sixteen parts.\<close>

definition key_of :: "('k, 32 word) base_context_ops \<Rightarrow> 'k list \<Rightarrow> ikernel_id_t \<Rightarrow> 512 word \<Rightarrow> 512 word" where
  "key_of ops ks i buff = fold (\<lambda>n b. int_to_bytes (bx_get ops (ks ! n) (unat i)) b n) [0..<16] buff"

definition pass_requests :: "('c, 'k, 't, 's) coap_ops \<Rightarrow> ('c, 'k, 't, 's) coap \<Rightarrow> ('c, 'k, 't, 's) coap" where
  "pass_requests ops s =
     (let tc = ck_sched_curr_tc s;
          e = s_empty (ck_ikernel_id_per_tc s ! unat tc);
          s1 = s\<lparr>ck_tc_empty := e\<rparr>
      in if e \<or> ck_sched_quota s1 = 0 then s1\<lparr>ck_sched_state := UPDATE_QUOTA\<rparr>
         else if \<not> s_full (ck_key_to_first_pass s1) \<and> \<not> s_full (ck_key_to_second_pass s1) \<and> \<not> s_full (ck_verify_sig_request_stream s1)
         then (let (i, qs) = arr_read tc (ck_ikernel_id_per_tc s1);
                   key = \<lparr>hk_buff = key_of (co_keys ops) (ck_keys s1) i (co_u ops), hk_tc = ucast tc\<rparr>
               in s1\<lparr>ck_ikernel_id_per_tc := qs,
                     ck_key_to_first_pass := s_write key (ck_key_to_first_pass s1),
                     ck_key_to_second_pass := s_write key (ck_key_to_second_pass s1),
                     ck_sched_quota := ck_sched_quota s1 - 1,
                     ck_verify_sig_request_stream :=
                       s_write \<lparr>vr_ring_id = coap_find_ring (co_ctx ops) (ck_contexts s1) i, vr_tc = ucast tc\<rparr>
                         (ck_verify_sig_request_stream s1)\<rparr>)
         else s1)"

definition keys_update :: "('k, 32 word) base_context_ops \<Rightarrow> 'k list \<Rightarrow> bool \<times> 'k list" where
  "keys_update ops ks = (let rs = map (bx_update ops) ks in (list_ex fst rs, map snd rs))"

definition read_key :: "('c, 'k, 't, 's) coap_ops \<Rightarrow> ('c, 'k, 't, 's) coap \<Rightarrow> ('c, 'k, 't, 's) coap" where
  "read_key ops s0 =
     (let s1 = coap_update_stats (co_stats ops) s0;
          (busy, sc) = sc_update (co_sched ops) (ck_sched s1);
          s2 = s1\<lparr>ck_sched := sc\<rparr>
      in if busy then s2
         else (let (u1, c) = bx_update (co_ctx ops) (ck_contexts s2);
                   (u2, t) = cx_update (co_stats ops) (ck_stats_contexts s2);
                   (u3, ks) = keys_update (co_keys ops) (ck_keys s2);
                   s3 = s2\<lparr>ck_contexts := c, ck_stats_contexts := t, ck_keys := ks\<rparr>
               in if u1 \<or> u2 \<or> u3 then s3
                  else (let s4 = (if s_empty (ck_parsed_packet_tc s3) then s3
                                  else (let (tc, q) = s_read (ck_parsed_packet_tc s3)
                                        in s3\<lparr>ck_parsed_packet_tc := q, ck_sched := sc_schedule (co_sched ops) tc (ck_sched s3)\<rparr>))
                        in case ck_sched_state s4 of
                             COAP_FIND_NEXT_IKERNEL \<Rightarrow>
                               (let (ok, tc, qu, sc') = sc_next_flow (co_sched ops) (ck_sched_curr_tc s4) (ck_sched_quota s4) (ck_sched s4);
                                    s5 = s4\<lparr>ck_sched := sc', ck_sched_curr_tc := tc, ck_sched_quota := qu\<rparr>
                                in if ok then pass_requests ops (s5\<lparr>ck_sched_state := PASS_REQUESTS\<rparr>) else s5)
                           | PASS_REQUESTS \<Rightarrow> pass_requests ops s4
                           | UPDATE_QUOTA \<Rightarrow>
                               s4\<lparr>ck_sched := sc_update_flow (co_sched ops) (ck_sched_curr_tc s4) (of_bool (ck_tc_empty s4)) (ck_sched_quota s4) (ck_sched s4),
                                  ck_sched_state := COAP_FIND_NEXT_IKERNEL\<rparr>)))"

definition first_pass_code :: "coap_first_pass_state \<Rightarrow> 32 word" where
  "first_pass_code st = (case st of COAP_READ_REQUEST \<Rightarrow> 0 | FIRST_BLOCK \<Rightarrow> 1 | SECOND_BLOCK \<Rightarrow> 2)"

definition first_pass :: "('c, 'k, 't, 's) coap_ops \<Rightarrow> ('c, 'k, 't, 's) coap \<Rightarrow> ('c, 'k, 't, 's) coap" where
  "first_pass ops s0 =
     (let s = s0\<lparr>ck_first_pass_unit_state := s_write_nb (first_pass_code (ck_first_pass_state s0)) (ck_first_pass_unit_state s0)\<rparr>
      in case ck_first_pass_state s of
           COAP_READ_REQUEST \<Rightarrow>
             if s_empty (ck_key_to_first_pass s) then s
             else (let (key, q) = s_read (ck_key_to_first_pass s);
                       req = \<lparr>sr_data = xor_block IPAD (memcpy_ap SHA256_BLOCK_BYTES (sr_data (ck_request s)) (hk_buff key)), sr_last = False\<rparr>
                   in s\<lparr>ck_key_to_first_pass := q, ck_first_pass_curr_tc := ucast (hk_tc key), ck_request := req,
                        ck_sha1_in := s_write req (ck_sha1_in s),
                        ck_first_pass_req_count := s_write_nb True (ck_first_pass_req_count s),
                        ck_first_pass_state := FIRST_BLOCK\<rparr>)
         | FIRST_BLOCK \<Rightarrow>
             if s_empty (ck_parsed_data_stream s ! unat (ck_first_pass_curr_tc s)) then s
             else (let (d, qs) = arr_read (ck_first_pass_curr_tc s) (ck_parsed_data_stream s);
                       req = \<lparr>sr_data = memcpy_ap SHA256_BLOCK_BYTES (co_u ops) (pd_first_word d), sr_last = False\<rparr>
                   in s\<lparr>ck_parsed_data_stream := qs, ck_first_pass_data := d,
                        ck_sha1_in := s_write req (ck_sha1_in s),
                        ck_first_pass_req_count := s_write_nb True (ck_first_pass_req_count s),
                        ck_first_pass_state := SECOND_BLOCK\<rparr>)
         | SECOND_BLOCK \<Rightarrow>
             (let req = \<lparr>sr_data = pad_block FIRST_PASS_LAST_BLOCK_SIZE
                            (of_nat (2 * SHA256_BLOCK_BITS + FIRST_PASS_LAST_BLOCK_SIZE)) (co_u ops)
                            (pd_second_word (ck_first_pass_data s)), sr_last = True\<rparr>
              in s\<lparr>ck_sha1_in := s_write req (ck_sha1_in s),
                   ck_first_pass_req_count := s_write_nb True (ck_first_pass_req_count s),
                   ck_first_pass_state := COAP_READ_REQUEST\<rparr>))"

definition second_pass_code :: "coap_second_pass_state \<Rightarrow> 32 word" where
  "second_pass_code st = (case st of HASH_KEY \<Rightarrow> 0 | HASH_FIRST_PASS \<Rightarrow> 1)"

definition second_pass :: "('c, 'k, 't, 's) coap_ops \<Rightarrow> ('c, 'k, 't, 's) coap \<Rightarrow> ('c, 'k, 't, 's) coap" where
  "second_pass ops s0 =
     (let s = s0\<lparr>ck_second_pass_unit_state := s_write_nb (second_pass_code (ck_second_pass_state s0)) (ck_second_pass_unit_state s0)\<rparr>
      in case ck_second_pass_state s of
           HASH_KEY \<Rightarrow>
             if s_empty (ck_key_to_second_pass s) then s
             else (let (key, q) = s_read (ck_key_to_second_pass s);
                       req = \<lparr>sr_data = xor_block OPAD (memcpy_ap SHA256_BLOCK_BYTES (co_u ops) (hk_buff key)), sr_last = False\<rparr>
                   in s\<lparr>ck_key_to_second_pass := q,
                        ck_sha2_in := s_write req (ck_sha2_in s),
                        ck_second_pass_req_count := s_write_nb True (ck_second_pass_req_count s),
                        ck_second_pass_state := HASH_FIRST_PASS\<rparr>)
         | HASH_FIRST_PASS \<Rightarrow>
             if s_empty (ck_sha1_out s) then s
             else (let (response, q) = s_read (ck_sha1_out s);
                       req = \<lparr>sr_data = pad_block SHA256_HASH_BITS (of_nat (SHA256_BLOCK_BITS + SHA256_HASH_BITS)) (co_u ops) response,
                              sr_last = True\<rparr>
                   in s\<lparr>ck_sha1_out := q,
                        ck_sha2_in := s_write req (ck_sha2_in s),
                        ck_first_pass_res_count := s_write_nb True (ck_first_pass_res_count s),
                        ck_second_pass_req_count := s_write_nb True (ck_second_pass_req_count s),
                        ck_second_pass_state := HASH_KEY\<rparr>))"

text \<open>The blocking read of \<open>_sig_stream\<close> waits when that stream is empty; the call then has no effect yet.\<close>

definition verify_sig :: "('c, 'k, 't, 's) coap_ops \<Rightarrow> ('c, 'k, 't, 's) coap \<Rightarrow> ('c, 'k, 't, 's) coap" where
  "verify_sig ops s =
     (if s_empty (ck_sha2_out s) \<or> s_empty (ck_verify_sig_request_stream s) \<or> s_full (ck_decision_stream s) then s
      else (let (digest, dq) = s_read (ck_sha2_out s);
                (req, rq) = s_read (ck_verify_sig_request_stream s);
                tc = ucast (vr_tc req)
            in if s_empty (ck_sig_stream s ! unat tc) then s
               else (let (sig, qs) = arr_read tc (ck_sig_stream s);
                         match = (base64_encode (co_e ops) digest = sig)
                     in s\<lparr>ck_sha2_out := dq, ck_verify_sig_request_stream := rq, ck_sig_stream := qs,
                          ck_decision_stream := s_write \<lparr>cd_pass = match, cd_ring_id = vr_ring_id req\<rparr> (ck_decision_stream s),
                          ck_second_pass_res_count := s_write_nb True (ck_second_pass_res_count s)\<rparr>)))"

definition coap_action_resolution ::
  "('c, 'k, 't, 's) coap_ops \<Rightarrow> tc_pipeline_data_counts \<Rightarrow> pipeline_ports \<times> ('c, 'k, 't, 's) coap \<Rightarrow>
   pipeline_ports \<times> ('c, 'k, 't, 's) coap" where
  "coap_action_resolution ops tc ps =
     (let (p, s) = ps;
          (busy, b) = ikernel_update (ck_base s);
          s1 = s\<lparr>ck_base := b\<rparr>
      in if busy then (p, s1)
         else if \<not> s_empty (ck_decision_stream s1) \<and> \<not> s_empty (ck_buffer_metadata s1) \<and> \<not> s_full (ck_action_stream s1) \<and>
                 \<not> s_full (ck_backpressure_drop s1) \<and> \<not> s_full (ck_action_count s1)
         then (let (m, mq) = s_read (ck_buffer_metadata s1);
                   (d, dq) = s_read (ck_decision_stream s1);
                   r = cd_ring_id d;
                   backpressure = (cd_pass d \<and> \<not> can_transmit (ck_base s1) tc (ikernel_id m) r (ucast (len m + 32)) HOST);
                   act = (cd_pass d \<and> \<not> backpressure);
                   ring = (act \<and> r \<noteq> 0);
                   m' = (if ring then (to_ring r m)\<lparr>len := len m + 32\<rparr> else m);
                   pm = get_packet_metadata m;
                   pa = (if ring then (co_pa ops)\<lparr>pa_port := udp_src pm, pa_ip := ip_src pm\<rparr> else co_pa ops)
               in (if act then p\<lparr>metadata_output := s_write m' (metadata_output p)\<rparr> else p,
                   s1\<lparr>ck_buffer_metadata := mq, ck_decision_stream := dq,
                      ck_base := (if ring then new_message r HOST (ck_base s1) else ck_base s1),
                      ck_backpressure_drop := (if backpressure
                        then s_write_nb (ikernel_id m, True) (ck_backpressure_drop s1) else ck_backpressure_drop s1),
                      ck_action_stream := s_write (pa\<lparr>pa_ring_id := r, pa_pass := act\<rparr>) (ck_action_stream s1),
                      ck_action_count := s_write_nb (ikernel_id m, act) (ck_action_count s1)\<rparr>))
         else (p, s1))"

definition coap_step ::
  "('c, 'k, 't, 's) coap_ops \<Rightarrow> tc_ikernel_data_counts \<Rightarrow> ports \<times> ('c, 'k, 't, 's) coap \<Rightarrow> ports \<times> ('c, 'k, 't, 's) coap" where
  "coap_step ops tc ps =
     (let (p, s) = ps;
          host = pass_packets (po_host p);
          (di, pd, bd) = dup2 (data_input (po_net p)) (ck_parser_data s) (ck_buffer_data s);
          (mi, pm, bm) = dup2 (metadata_input (po_net p)) (ck_parser_metadata s) (ck_buffer_metadata s);
          s1 = s\<lparr>ck_parser_data := pd, ck_buffer_data := bd, ck_parser_metadata := pm, ck_buffer_metadata := bm\<rparr>;
          (net1, s2) = coap_drop_or_pass ops ((po_net p)\<lparr>data_input := di, metadata_input := mi\<rparr>, s1);
          (net2, s3) = coap_action_resolution ops (tc_net tc) (net1, s2);
          s4 = read_key ops s3;
          s5 = coap_parse_packet s4
      in (p\<lparr>po_host := host, po_net := net2\<rparr>, s5))"

section \<open>Registers\<close>

text \<open>The register of the parser's state gives the state of the dropper, as in the source.\<close>

definition coap_stats_rpc ::
  "('t, coap_stats_context) context_ops \<Rightarrow> 32 word \<Rightarrow> 32 word \<Rightarrow> ikernel_id_t \<Rightarrow> bool \<Rightarrow> 't \<Rightarrow> gw_status \<times> 32 word \<times> 't" where
  "coap_stats_rpc ops address v i read t =
     (if address = COAP_DROPPED_COUNT then cx_access ops (unat i) cs_dropped_count (\<lambda>w x. x\<lparr>cs_dropped_count := w\<rparr>) v read t
      else if address = COAP_PASSED_COUNT then cx_access ops (unat i) cs_passed_count (\<lambda>w x. x\<lparr>cs_passed_count := w\<rparr>) v read t
      else if address = COAP_FIRST_PASS_SHA_UNIT_REQ_COUNT
      then cx_access ops (unat i) cs_first_pass_sha_unit_req_count (\<lambda>w x. x\<lparr>cs_first_pass_sha_unit_req_count := w\<rparr>) v read t
      else if address = COAP_FIRST_PASS_SHA_UNIT_RES_COUNT
      then cx_access ops (unat i) cs_first_pass_sha_unit_res_count (\<lambda>w x. x\<lparr>cs_first_pass_sha_unit_res_count := w\<rparr>) v read t
      else if address = COAP_SECOND_PASS_SHA_UNIT_REQ_COUNT
      then cx_access ops (unat i) cs_second_pass_sha_unit_req_count (\<lambda>w x. x\<lparr>cs_second_pass_sha_unit_req_count := w\<rparr>) v read t
      else if address = COAP_SECOND_PASS_SHA_UNIT_RES_COUNT
      then cx_access ops (unat i) cs_second_pass_sha_unit_res_count (\<lambda>w x. x\<lparr>cs_second_pass_sha_unit_res_count := w\<rparr>) v read t
      else if address = COAP_PARSED_PACKETS_COUNT
      then cx_access ops (unat i) cs_parsed_packets_count (\<lambda>w x. x\<lparr>cs_parsed_packets_count := w\<rparr>) v read t
      else if address = COAP_DROPPER_UNIT_STATE
      then cx_access ops (unat i) cs_dropper_unit_state (\<lambda>w x. x\<lparr>cs_dropper_unit_state := w\<rparr>) v read t
      else if address = COAP_PARSER_UNIT_STATE
      then cx_access ops (unat i) cs_dropper_unit_state (\<lambda>w x. x\<lparr>cs_dropper_unit_state := w\<rparr>) v read t
      else if address = COAP_FIRST_PASS_UNIT_STATE
      then cx_access ops (unat i) cs_first_pass_unit_state (\<lambda>w x. x\<lparr>cs_first_pass_unit_state := w\<rparr>) v read t
      else if address = COAP_SECOND_PASS_UNIT_STATE
      then cx_access ops (unat i) cs_second_pass_unit_state (\<lambda>w x. x\<lparr>cs_second_pass_unit_state := w\<rparr>) v read t
      else if address = COAP_BACKPRESSURE_DROP_COUNT
      then cx_access ops (unat i) cs_backpressure_drop_count (\<lambda>w x. x\<lparr>cs_backpressure_drop_count := w\<rparr>) v read t
      else (GW_FAIL, if read then - 1 else v, t))"

definition coap_rpc ::
  "('c, 'k, 't, 's) coap_ops \<Rightarrow> 32 word \<Rightarrow> 32 word \<Rightarrow> ikernel_id_t \<Rightarrow> bool \<Rightarrow> ('c, 'k, 't, 's) coap \<Rightarrow>
   gw_status \<times> 32 word \<times> ('c, 'k, 't, 's) coap" where
  "coap_rpc ops address v i read s =
     (if unat i \<ge> NUM_COAP_CONTEXTS then (GW_FAIL, v, s)
      else if sint address \<le> sint COAP_RING_ID \<and> read then (GW_FAIL, - 1, s)
      else if sint address \<ge> sint COAP_KEY \<and> sint address < sint COAP_KEY + 16
      then (let n = unat (address - COAP_KEY);
                (st, k) = bx_set (co_keys ops) (unat i) v (ck_keys s ! n)
            in (st, v, s\<lparr>ck_keys := (ck_keys s)[n := k]\<rparr>))
      else if address = COAP_RING_ID
      then (let (st, c) = bx_set (co_ctx ops) (unat i) \<lparr>cc_ring_id = ucast v\<rparr> (ck_contexts s)
            in (st, v, s\<lparr>ck_contexts := c\<rparr>))
      else (let (st, w, t) = coap_stats_rpc (co_stats ops) address v i read (ck_stats_contexts s)
            in (st, w, s\<lparr>ck_stats_contexts := t\<rparr>)))"

definition coap_reg_write ::
  "('c, 'k, 't, 's) coap_ops \<Rightarrow> 32 word \<Rightarrow> 32 word \<Rightarrow> ikernel_id_t \<Rightarrow> ('c, 'k, 't, 's) coap \<Rightarrow> gw_status \<times> ('c, 'k, 't, 's) coap" where
  "coap_reg_write ops address v i s =
     (if sint address \<ge> sint COAP_SCHEDULER
      then (let (st, _, sc) = sc_rpc (co_sched ops) (address - COAP_SCHEDULER) v i False (ck_sched s) in (st, s\<lparr>ck_sched := sc\<rparr>))
      else (let (st, _, s') = coap_rpc ops address v i False s in (st, s')))"

definition coap_reg_read ::
  "('c, 'k, 't, 's) coap_ops \<Rightarrow> 32 word \<Rightarrow> 32 word \<Rightarrow> ikernel_id_t \<Rightarrow> ('c, 'k, 't, 's) coap \<Rightarrow>
   gw_status \<times> 32 word \<times> ('c, 'k, 't, 's) coap" where
  "coap_reg_read ops address v i s =
     (if sint address \<ge> sint COAP_SCHEDULER
      then (let (st, w, sc) = sc_rpc (co_sched ops) (address - COAP_SCHEDULER) v i True (ck_sched s) in (st, w, s\<lparr>ck_sched := sc\<rparr>))
      else coap_rpc ops address v i True s)"

text \<open>The top function calls the two passes and the verification after the step.\<close>

definition coap_units ::
  "('c, 'k, 't, 's) coap_ops \<Rightarrow> tc_ikernel_data_counts \<Rightarrow> ports \<times> ('c, 'k, 't, 's) coap \<Rightarrow> ports \<times> ('c, 'k, 't, 's) coap" where
  "coap_units ops tc ps =
     (let (p, s) = coap_step ops tc ps in (p, verify_sig ops (second_pass ops (first_pass ops s))))"

definition coap_ikernel ::
  "('c, 'k, 't, 's) coap_ops \<Rightarrow> credit_update_registers \<Rightarrow> (31 word \<times> 32 word \<times> ikernel_id_t) option \<Rightarrow> tc_ikernel_data_counts \<Rightarrow>
   ports \<times> ('c, 'k, 't, 's) coap \<Rightarrow> (gw_status \<times> 32 word) option \<times> ports \<times> ('c, 'k, 't, 's) coap" where
  "coap_ikernel ops = ikernel_top ck_base_update (coap_units ops) (coap_reg_write ops) (coap_reg_read ops)"

text \<open>The keys and the ring can be written only; reading them fails like an unknown register.\<close>

definition coap_registers :: "32 word set" where
  "coap_registers = {a. sint COAP_KEY \<le> sint a \<and> sint a < sint COAP_KEY + 16} \<union> {a. sint COAP_SCHEDULER \<le> sint a} \<union>
     {COAP_RING_ID, COAP_DROPPED_COUNT, COAP_PASSED_COUNT, COAP_FIRST_PASS_SHA_UNIT_REQ_COUNT, COAP_FIRST_PASS_SHA_UNIT_RES_COUNT,
      COAP_SECOND_PASS_SHA_UNIT_REQ_COUNT, COAP_SECOND_PASS_SHA_UNIT_RES_COUNT, COAP_PARSED_PACKETS_COUNT, COAP_DROPPER_UNIT_STATE,
      COAP_PARSER_UNIT_STATE, COAP_FIRST_PASS_UNIT_STATE, COAP_SECOND_PASS_UNIT_STATE, COAP_BACKPRESSURE_DROP_COUNT}"

lemma coap_rpc_unknown:
  assumes "a \<notin> coap_registers"
  shows "\<exists>w. coap_rpc ops a v i read s = (GW_FAIL, w, s)"
proof -
  have "coap_stats_rpc (co_stats ops) a v i read t = (GW_FAIL, if read then - 1 else v, t)" for t
    using assms by (simp add: coap_registers_def coap_stats_rpc_def)
  moreover have "\<not> (sint COAP_KEY \<le> sint a \<and> sint a < sint COAP_KEY + 16)" "a \<noteq> COAP_RING_ID"
    using assms by (auto simp: coap_registers_def)
  ultimately show ?thesis by (auto simp: coap_rpc_def Let_def)
qed

interpretation coap_regs: register_file ck_base_update "coap_units ops"
  "coap_reg_write ops" "coap_reg_read ops" "\<lambda>a. a \<in> coap_registers"
proof
  fix a v :: "32 word" and i :: ikernel_id_t and s :: "('a, 'b, 'c, 'd) coap"
  assume a: "a \<notin> coap_registers"
  then have "\<not> sint COAP_SCHEDULER \<le> sint a" by (simp add: coap_registers_def)
  with coap_rpc_unknown [OF a, of ops v i False s] coap_rpc_unknown [OF a, of ops v i True s]
  show "coap_reg_write ops a v i s = (GW_FAIL, s)" "\<exists>w. coap_reg_read ops a v i s = (GW_FAIL, w, s)"
    by (auto simp: coap_reg_write_def coap_reg_read_def)
qed

end
