(* ===== verification/Coap_Hmac.thy ===== *)
theory Coap_Hmac
  imports Coap
begin

text \<open>
  What the passes of the CoAP ikernel compute. The blocks that the two passes hand to the SHA units are
  the padded blocks of the inner and of the outer message of HMAC (FIPS 198-1) with the padding of SHA-256 (FIPS 180-4), so a packet
  passes if and only if its signature is the base64url text of the HMAC of its token under the key. The compression
  function of SHA-256, which the SHA units implement outside of these sources, is a parameter.
\<close>

section \<open>Blocks\<close>

definition block_bytes :: "512 word \<Rightarrow> 8 word list" where
  "block_bytes b = map (get_byte b) [0..<64]"

definition digest_bytes :: "256 word \<Rightarrow> 8 word list" where
  "digest_bytes d = map (get_byte d) [0..<32]"

lemma length_block_bytes [simp]: "length (block_bytes b) = 64"
  by (simp add: block_bytes_def)

lemma length_digest_bytes [simp]: "length (digest_bytes d) = 32"
  by (simp add: digest_bytes_def)

lemma block_bytes_nth [simp]: "j < 64 \<Longrightarrow> block_bytes b ! j = get_byte b j"
  by (simp add: block_bytes_def)

lemma block_bytes_copy: "block_bytes (memcpy_ap SHA256_BLOCK_BYTES dest src) = block_bytes src"
  by (rule nth_equalityI)
    (simp_all add: get_byte_memcpy_ap SHA256_BLOCK_BYTES_def SHA256_BLOCK_BITS_def)

lemma get_byte_xor_prefix:
  "\<lbrakk>n \<le> 64; j < 64\<rbrakk> \<Longrightarrow>
   get_byte (fold (\<lambda>i d. write_byte d i (get_byte d i XOR pad)) [0..<n] (b :: 512 word)) j =
   (if j < n then get_byte b j XOR pad else get_byte b j)"
  by (induction n) (auto simp: get_write_byte)

lemma block_bytes_xor: "block_bytes (xor_block pad b) = map (\<lambda>x. x XOR pad) (block_bytes b)"
  by (rule nth_equalityI)
    (simp_all add: xor_block_def SHA256_BLOCK_BYTES_def SHA256_BLOCK_BITS_def get_byte_xor_prefix del: upt_Suc)

section \<open>SHA-256\<close>

text \<open>The padding of FIPS 180-4: a one bit, zeros up to the last eight bytes of a block, the length in bits.\<close>

definition be64 :: "64 word \<Rightarrow> 8 word list" where
  "be64 n = map (\<lambda>i. ucast (drop_bit (56 - 8 * i) n)) [0..<8]"

definition sha_pad :: "8 word list \<Rightarrow> 8 word list" where
  "sha_pad m = m @ 0x80 # replicate ((119 - length m mod 64) mod 64) 0 @ be64 (of_nat (8 * length m))"

fun sha_fold :: "('h \<Rightarrow> 8 word list \<Rightarrow> 'h) \<Rightarrow> 'h \<Rightarrow> 8 word list \<Rightarrow> 'h" where
  "sha_fold compress h m = (if m = [] then h else sha_fold compress (compress h (take 64 m)) (drop 64 m))"

declare sha_fold.simps [simp del]

lemma sha_fold_block: "length b = 64 \<Longrightarrow> sha_fold compress h (b @ m) = sha_fold compress (compress h b) m"
  by (subst sha_fold.simps) auto

lemma sha_fold_Nil [simp]: "sha_fold compress h [] = h"
  by (subst sha_fold.simps) simp

definition sha256 :: "(256 word \<Rightarrow> 8 word list \<Rightarrow> 256 word) \<Rightarrow> 256 word \<Rightarrow> 8 word list \<Rightarrow> 256 word" where
  "sha256 compress iv m = sha_fold compress iv (sha_pad m)"

definition hmac_sha256 ::
  "(256 word \<Rightarrow> 8 word list \<Rightarrow> 256 word) \<Rightarrow> 256 word \<Rightarrow> 8 word list \<Rightarrow> 8 word list \<Rightarrow> 256 word" where
  "hmac_sha256 compress iv k m =
     sha256 compress iv (map (\<lambda>x. x XOR 0x5C) k @ digest_bytes (sha256 compress iv (map (\<lambda>x. x XOR 0x36) k @ m)))"

text \<open>
  A SHA unit: it folds the blocks of a request stream and answers after each block marked as the last of a message.
\<close>

fun sha_unit ::
  "(256 word \<Rightarrow> 8 word list \<Rightarrow> 256 word) \<Rightarrow> 256 word \<Rightarrow> 256 word \<Rightarrow> coap_sha_request list \<Rightarrow> 256 word list" where
  "sha_unit compress iv h [] = []"
| "sha_unit compress iv h (r # rs) =
     (let h' = compress h (block_bytes (sr_data r))
      in if sr_last r then h' # sha_unit compress iv iv rs else sha_unit compress iv h' rs)"

section \<open>The padded block\<close>

lemma block_bytes_pad:
  fixes src :: "'w::len word"
  assumes "n \<le> 55"
  shows "block_bytes (pad_block (8 * n) ml dest src) = map (get_byte src) [0..<n] @ 0x80 # replicate (55 - n) 0 @ be64 ml"
proof (rule nth_equalityI)
  show "length (block_bytes (pad_block (8 * n) ml dest src)) = length (map (get_byte src) [0..<n] @ 0x80 # replicate (55 - n) 0 @ be64 ml)"
    using assms by (simp add: be64_def)
  fix j assume "j < length (block_bytes (pad_block (8 * n) ml dest src))"
  then have j: "j < 64" by simp
  define d2 where "d2 = write_byte (memcpy_ap n dest src) n 0x80"
  define d3 where "d3 = fold (\<lambda>i d. write_byte d (1 + n + i) 0) [0..<56 - n] d2"
  have d2: "get_byte d2 i = (if i = n then 0x80 else if i < n then get_byte src i else get_byte dest i)" if "i < 64" for i
    using that assms by (simp add: d2_def get_write_byte get_byte_memcpy_ap)
  have d3: "get_byte d3 i = (if n < i \<and> i < 57 then 0 else get_byte d2 i)" if "i < 64" for i
    unfolding d3_def using that assms get_byte_fold_write [of "1 + n" "56 - n" i "\<lambda>_. 0" d2] by auto
  have up: "[Suc 0..<9] = map Suc [0..<8]" by (simp add: map_Suc_upt)
  have "pad_block (8 * n) ml dest src = fold (\<lambda>i d. write_byte d (56 + i) (ucast (drop_bit (56 - 8 * i) ml))) [0..<8] d3"
    by (simp add: pad_block_def d2_def d3_def Let_def up fold_map comp_def del: upt_Suc)
  then have "get_byte (pad_block (8 * n) ml dest src) j =
      (if 56 \<le> j then ucast (drop_bit (56 - 8 * (j - 56)) ml) else get_byte d3 j)"
    using j get_byte_fold_write [of 56 8 j "\<lambda>i. ucast (drop_bit (56 - 8 * i) ml)" d3] by auto
  then show "block_bytes (pad_block (8 * n) ml dest src) ! j =
      (map (get_byte src) [0..<n] @ 0x80 # replicate (55 - n) 0 @ be64 ml) ! j"
    using j assms d2 d3
    by (auto simp: nth_append nth_Cons' be64_def)
qed

section \<open>The passes\<close>

lemma first_pass_key:
  assumes "ck_first_pass_state s = COAP_READ_REQUEST" "que (ck_key_to_first_pass s) = key # ks"
  shows "first_pass ops s =
    (let req = \<lparr>sr_data = xor_block IPAD (memcpy_ap SHA256_BLOCK_BYTES (sr_data (ck_request s)) (hk_buff key)), sr_last = False\<rparr>
     in s\<lparr>ck_first_pass_unit_state := s_write_nb 0 (ck_first_pass_unit_state s),
          ck_key_to_first_pass := (ck_key_to_first_pass s)\<lparr>que := ks\<rparr>, ck_first_pass_curr_tc := ucast (hk_tc key), ck_request := req,
          ck_sha1_in := s_write req (ck_sha1_in s),
          ck_first_pass_req_count := s_write_nb True (ck_first_pass_req_count s), ck_first_pass_state := FIRST_BLOCK\<rparr>)"
  using assms by (simp add: first_pass_def first_pass_code_def Let_def s_empty_def s_read_def)

lemma first_pass_first_block:
  assumes "ck_first_pass_state s = FIRST_BLOCK" "que (ck_parsed_data_stream s ! unat (ck_first_pass_curr_tc s)) = d # ds"
  shows "first_pass ops s =
    (let i = unat (ck_first_pass_curr_tc s); pds = ck_parsed_data_stream s
     in s\<lparr>ck_first_pass_unit_state := s_write_nb 1 (ck_first_pass_unit_state s),
          ck_parsed_data_stream := pds[i := (pds ! i)\<lparr>que := ds\<rparr>], ck_first_pass_data := d,
          ck_sha1_in := s_write \<lparr>sr_data = memcpy_ap SHA256_BLOCK_BYTES (co_u ops) (pd_first_word d), sr_last = False\<rparr> (ck_sha1_in s),
          ck_first_pass_req_count := s_write_nb True (ck_first_pass_req_count s), ck_first_pass_state := SECOND_BLOCK\<rparr>)"
  using assms by (simp add: first_pass_def first_pass_code_def Let_def s_empty_def s_read_def arr_read_def)

lemma first_pass_second_block:
  assumes "ck_first_pass_state s = SECOND_BLOCK"
  shows "first_pass ops s =
    s\<lparr>ck_first_pass_unit_state := s_write_nb 2 (ck_first_pass_unit_state s),
      ck_sha1_in := s_write \<lparr>sr_data = pad_block 136 1160 (co_u ops) (pd_second_word (ck_first_pass_data s)), sr_last = True\<rparr> (ck_sha1_in s),
      ck_first_pass_req_count := s_write_nb True (ck_first_pass_req_count s), ck_first_pass_state := COAP_READ_REQUEST\<rparr>"
  using assms
  by (simp add: first_pass_def first_pass_code_def Let_def FIRST_PASS_LAST_BLOCK_SIZE_def FIRST_PASS_BLOCKS_def
      MESSAGE_LENGTH_IN_BITS_def SHA256_BLOCK_BITS_def)

text \<open>The part of the state that the two passes leave to others.\<close>

definition verify_side where
  "verify_side s = (ck_verify_sig_request_stream s, ck_sig_stream s, ck_decision_stream s, ck_sha2_out s)"

definition first_side where
  "first_side s = (ck_first_pass_state s, ck_key_to_first_pass s, ck_parsed_data_stream s, ck_sha1_in s)"

definition second_side where
  "second_side s = (ck_second_pass_state s, ck_key_to_second_pass s, ck_sha1_out s, ck_sha2_in s)"

lemma first_pass_message:
  assumes "ck_first_pass_state s = COAP_READ_REQUEST" "que (ck_key_to_first_pass s) = key # ks"
    and "que (ck_parsed_data_stream s ! unat (ucast (hk_tc key) :: coap_tc)) = d # ds"
  shows "\<exists>r1 r2 r3.
    first_side ((first_pass ops ^^ 3) s) =
      (COAP_READ_REQUEST, (ck_key_to_first_pass s)\<lparr>que := ks\<rparr>,
       (let i = unat (ucast (hk_tc key) :: coap_tc); pds = ck_parsed_data_stream s in pds[i := (pds ! i)\<lparr>que := ds\<rparr>]),
       (ck_sha1_in s)\<lparr>que := que (ck_sha1_in s) @ [r1, r2, r3]\<rparr>) \<and>
    second_side ((first_pass ops ^^ 3) s) = second_side s \<and> verify_side ((first_pass ops ^^ 3) s) = verify_side s \<and>
    map sr_last [r1, r2, r3] = [False, False, True] \<and>
    block_bytes (sr_data r1) = map (\<lambda>x. x XOR 0x36) (block_bytes (hk_buff key)) \<and>
    block_bytes (sr_data r2) = block_bytes (pd_first_word d) \<and>
    block_bytes (sr_data r3) = map (get_byte (pd_second_word d)) [0..<17] @ 0x80 # replicate 38 0 @ be64 1160"
proof -
  define s1 where "s1 = first_pass ops s"
  define s2 where "s2 = first_pass ops s1"
  have run: "(first_pass ops ^^ 3) s = first_pass ops s2" by (simp add: s2_def s1_def numeral_3_eq_3)
  have 1: "ck_first_pass_state s1 = FIRST_BLOCK" "ck_first_pass_curr_tc s1 = ucast (hk_tc key)"
    "ck_parsed_data_stream s1 = ck_parsed_data_stream s"
    by (simp_all add: s1_def first_pass_key [OF assms(1,2)] Let_def)
  then have q: "que (ck_parsed_data_stream s1 ! unat (ck_first_pass_curr_tc s1)) = d # ds" using assms(3) by simp
  have 2: "ck_first_pass_state s2 = SECOND_BLOCK" "ck_first_pass_data s2 = d"
    by (simp_all add: s2_def first_pass_first_block [OF 1(1) q] Let_def)
  let ?r1 = "\<lparr>sr_data = xor_block IPAD (memcpy_ap SHA256_BLOCK_BYTES (sr_data (ck_request s)) (hk_buff key)), sr_last = False\<rparr>"
  let ?r2 = "\<lparr>sr_data = memcpy_ap SHA256_BLOCK_BYTES (co_u ops) (pd_first_word d), sr_last = False\<rparr>"
  let ?r3 = "\<lparr>sr_data = pad_block 136 1160 (co_u ops) (pd_second_word d), sr_last = True\<rparr>"
  note final = first_pass_second_block [OF 2(1), unfolded 2(2)]
  have sides: "first_side ((first_pass ops ^^ 3) s) =
      (COAP_READ_REQUEST, (ck_key_to_first_pass s)\<lparr>que := ks\<rparr>,
       (let i = unat (ucast (hk_tc key) :: coap_tc); pds = ck_parsed_data_stream s in pds[i := (pds ! i)\<lparr>que := ds\<rparr>]),
       (ck_sha1_in s)\<lparr>que := que (ck_sha1_in s) @ [?r1, ?r2, ?r3]\<rparr>)"
    "second_side ((first_pass ops ^^ 3) s) = second_side s" "verify_side ((first_pass ops ^^ 3) s) = verify_side s"
    unfolding run final first_side_def second_side_def verify_side_def
    unfolding first_pass_first_block [OF 1(1) q, of ops, folded s2_def] 1(2,3) first_pass_key [OF assms(1,2), of ops, folded s1_def]
    by (simp_all add: Let_def s_write_def)
  have bytes: "block_bytes (sr_data ?r1) = map (\<lambda>x. x XOR 0x36) (block_bytes (hk_buff key))"
    "block_bytes (sr_data ?r2) = block_bytes (pd_first_word d)"
    "block_bytes (sr_data ?r3) = map (get_byte (pd_second_word d)) [0..<17] @ 0x80 # replicate 38 0 @ be64 1160"
    using block_bytes_pad [of 17 1160 "co_u ops" "pd_second_word d"]
    by (simp_all add: block_bytes_xor block_bytes_copy IPAD_def del: upt_Suc)
  show ?thesis
    by (rule exI [of _ ?r1], rule exI [of _ ?r2], rule exI [of _ ?r3]) (intro conjI sides bytes; simp)
qed

lemma second_pass_key:
  assumes "ck_second_pass_state s = HASH_KEY" "que (ck_key_to_second_pass s) = key # ks"
  shows "second_pass ops s =
    s\<lparr>ck_second_pass_unit_state := s_write_nb 0 (ck_second_pass_unit_state s),
      ck_key_to_second_pass := (ck_key_to_second_pass s)\<lparr>que := ks\<rparr>,
      ck_sha2_in := s_write \<lparr>sr_data = xor_block OPAD (memcpy_ap SHA256_BLOCK_BYTES (co_u ops) (hk_buff key)), sr_last = False\<rparr> (ck_sha2_in s),
      ck_second_pass_req_count := s_write_nb True (ck_second_pass_req_count s), ck_second_pass_state := HASH_FIRST_PASS\<rparr>"
  using assms by (simp add: second_pass_def second_pass_code_def Let_def s_empty_def s_read_def)

lemma second_pass_hash:
  assumes "ck_second_pass_state s = HASH_FIRST_PASS" "que (ck_sha1_out s) = h # hs"
  shows "second_pass ops s =
    s\<lparr>ck_second_pass_unit_state := s_write_nb 1 (ck_second_pass_unit_state s),
      ck_sha1_out := (ck_sha1_out s)\<lparr>que := hs\<rparr>,
      ck_sha2_in := s_write \<lparr>sr_data = pad_block 256 768 (co_u ops) h, sr_last = True\<rparr> (ck_sha2_in s),
      ck_first_pass_res_count := s_write_nb True (ck_first_pass_res_count s),
      ck_second_pass_req_count := s_write_nb True (ck_second_pass_req_count s), ck_second_pass_state := HASH_KEY\<rparr>"
  using assms
  by (simp add: second_pass_def second_pass_code_def Let_def s_empty_def s_read_def SHA256_HASH_BITS_def SHA256_BLOCK_BITS_def)

lemma second_pass_message:
  assumes "ck_second_pass_state s = HASH_KEY" "que (ck_key_to_second_pass s) = key # ks" "que (ck_sha1_out s) = h # hs"
  shows "\<exists>r1 r2.
    second_side ((second_pass ops ^^ 2) s) =
      (HASH_KEY, (ck_key_to_second_pass s)\<lparr>que := ks\<rparr>, (ck_sha1_out s)\<lparr>que := hs\<rparr>,
       (ck_sha2_in s)\<lparr>que := que (ck_sha2_in s) @ [r1, r2]\<rparr>) \<and>
    first_side ((second_pass ops ^^ 2) s) = first_side s \<and> verify_side ((second_pass ops ^^ 2) s) = verify_side s \<and>
    map sr_last [r1, r2] = [False, True] \<and>
    block_bytes (sr_data r1) = map (\<lambda>x. x XOR 0x5C) (block_bytes (hk_buff key)) \<and>
    block_bytes (sr_data r2) = digest_bytes h @ 0x80 # replicate 23 0 @ be64 768"
proof -
  define s1 where "s1 = second_pass ops s"
  have run: "(second_pass ops ^^ 2) s = second_pass ops s1" by (simp add: s1_def numeral_2_eq_2)
  have 1: "ck_second_pass_state s1 = HASH_FIRST_PASS" "ck_sha1_out s1 = ck_sha1_out s"
    by (simp_all add: s1_def second_pass_key [OF assms(1,2)])
  then have q: "que (ck_sha1_out s1) = h # hs" using assms(3) by simp
  let ?r1 = "\<lparr>sr_data = xor_block OPAD (memcpy_ap SHA256_BLOCK_BYTES (co_u ops) (hk_buff key)), sr_last = False\<rparr>"
  let ?r2 = "\<lparr>sr_data = pad_block 256 768 (co_u ops) h, sr_last = True\<rparr>"
  have sides: "second_side ((second_pass ops ^^ 2) s) =
      (HASH_KEY, (ck_key_to_second_pass s)\<lparr>que := ks\<rparr>, (ck_sha1_out s)\<lparr>que := hs\<rparr>,
       (ck_sha2_in s)\<lparr>que := que (ck_sha2_in s) @ [?r1, ?r2]\<rparr>)"
    "first_side ((second_pass ops ^^ 2) s) = first_side s" "verify_side ((second_pass ops ^^ 2) s) = verify_side s"
    unfolding run second_pass_hash [OF 1(1) q, of ops] first_side_def second_side_def verify_side_def
    by (simp_all add: s1_def second_pass_key [OF assms(1,2)] s_write_def)
  have bytes: "block_bytes (sr_data ?r1) = map (\<lambda>x. x XOR 0x5C) (block_bytes (hk_buff key))"
    "block_bytes (sr_data ?r2) = digest_bytes h @ 0x80 # replicate 23 0 @ be64 768"
    using block_bytes_pad [of 32 768 "co_u ops" h]
    by (simp_all add: block_bytes_xor block_bytes_copy OPAD_def digest_bytes_def del: upt_Suc)
  show ?thesis by (rule exI [of _ ?r1], rule exI [of _ ?r2]) (intro conjI sides bytes; simp)
qed

section \<open>The decision\<close>

text \<open>The text that is signed: the first block and the 17 bytes of the second.\<close>

definition message :: "coap_parsed_data \<Rightarrow> 8 word list" where
  "message d = block_bytes (pd_first_word d) @ map (get_byte (pd_second_word d)) [0..<17]"

lemma inner_hash:
  assumes "map sr_last [r1, r2, r3] = [False, False, True]" "length k = 64"
    and "block_bytes (sr_data r1) = map (\<lambda>x. x XOR 0x36) k" "block_bytes (sr_data r2) = block_bytes (pd_first_word d)"
    and "block_bytes (sr_data r3) = map (get_byte (pd_second_word d)) [0..<17] @ 0x80 # replicate 38 0 @ be64 1160"
  shows "sha_unit compress iv iv [r1, r2, r3] = [sha256 compress iv (map (\<lambda>x. x XOR 0x36) k @ message d)]"
proof -
  have "sha_pad (map (\<lambda>x. x XOR 0x36) k @ message d) =
      block_bytes (sr_data r1) @ block_bytes (sr_data r2) @ block_bytes (sr_data r3)"
    using assms(2-) by (simp add: sha_pad_def message_def del: upt_Suc)
  moreover have "sha_fold compress h (block_bytes b) = compress h (block_bytes b)" for h b
    using sha_fold_block [of "block_bytes b" compress h "[]"] by simp
  ultimately show ?thesis using assms(1) by (simp add: sha256_def sha_fold_block)
qed

lemma outer_hash:
  assumes "map sr_last [r1, r2] = [False, True]" "length k = 64"
    and "block_bytes (sr_data r1) = map (\<lambda>x. x XOR 0x5C) k"
    and "block_bytes (sr_data r2) = digest_bytes h @ 0x80 # replicate 23 0 @ be64 768"
  shows "sha_unit compress iv iv [r1, r2] = [sha256 compress iv (map (\<lambda>x. x XOR 0x5C) k @ digest_bytes h)]"
proof -
  have "sha_pad (map (\<lambda>x. x XOR 0x5C) k @ digest_bytes h) = block_bytes (sr_data r1) @ block_bytes (sr_data r2)"
    using assms(2-) by (simp add: sha_pad_def)
  moreover have "sha_fold compress h (block_bytes b) = compress h (block_bytes b)" for h b
    using sha_fold_block [of "block_bytes b" compress h "[]"] by simp
  ultimately show ?thesis using assms(1) by (simp add: sha256_def sha_fold_block)
qed

text \<open>The SHA units at work between the passes, and the units of the ikernel in the order of a packet.\<close>

definition sha1_serve ::
  "(256 word \<Rightarrow> 8 word list \<Rightarrow> 256 word) \<Rightarrow> 256 word \<Rightarrow> ('c, 'k, 't, 's) coap \<Rightarrow> ('c, 'k, 't, 's) coap" where
  "sha1_serve compress iv s =
     s\<lparr>ck_sha1_in := (ck_sha1_in s)\<lparr>que := []\<rparr>,
       ck_sha1_out := (ck_sha1_out s)\<lparr>que := que (ck_sha1_out s) @ sha_unit compress iv iv (que (ck_sha1_in s))\<rparr>\<rparr>"

definition sha2_serve ::
  "(256 word \<Rightarrow> 8 word list \<Rightarrow> 256 word) \<Rightarrow> 256 word \<Rightarrow> ('c, 'k, 't, 's) coap \<Rightarrow> ('c, 'k, 't, 's) coap" where
  "sha2_serve compress iv s =
     s\<lparr>ck_sha2_in := (ck_sha2_in s)\<lparr>que := []\<rparr>,
       ck_sha2_out := (ck_sha2_out s)\<lparr>que := que (ck_sha2_out s) @ sha_unit compress iv iv (que (ck_sha2_in s))\<rparr>\<rparr>"

definition check_packet ::
  "(256 word \<Rightarrow> 8 word list \<Rightarrow> 256 word) \<Rightarrow> 256 word \<Rightarrow> ('c, 'k, 't, 's) coap_ops \<Rightarrow> ('c, 'k, 't, 's) coap \<Rightarrow> ('c, 'k, 't, 's) coap" where
  "check_packet compress iv ops s =
     verify_sig ops (sha2_serve compress iv ((second_pass ops ^^ 2) (sha1_serve compress iv ((first_pass ops ^^ 3) s))))"

definition base64url :: "256 word \<Rightarrow> 8 word list" where
  "base64url d = map (\<lambda>k. b64_char (sextet d k)) [0..<43]"

lemma base64_encode_eq_iff: "base64_encode e d = sig \<longleftrightarrow> map (get_byte sig) [0..<43] = base64url d"
proof
  assume "base64_encode e d = sig"
  then show "map (get_byte sig) [0..<43] = base64url d"
    by (auto simp: base64url_def get_byte_base64_encode simp del: upt_Suc)
next
  assume a: "map (get_byte sig) [0..<43] = base64url d"
  show "base64_encode e d = sig"
  proof (rule word_eq_bytes [where n = 43])
    fix j :: nat assume "j < 43"
    then show "get_byte (base64_encode e d) j = get_byte sig j"
      using arg_cong [OF a, of "\<lambda>xs. xs ! j"] by (simp add: base64url_def get_byte_base64_encode del: upt_Suc)
  qed simp
qed

text \<open>The state in which a packet's key, text, signature and request are at the heads of their queues and the SHA units are idle.\<close>

definition packet_due :: "coap_hmac_key \<Rightarrow> coap_parsed_data \<Rightarrow> 344 word \<Rightarrow> coap_verify_sig_request \<Rightarrow> ('c, 'k, 't, 's) coap \<Rightarrow> bool" where
  "packet_due key d sig req s \<longleftrightarrow>
     (let tc = unat (ucast (hk_tc key) :: coap_tc)
      in ck_first_pass_state s = COAP_READ_REQUEST \<and> ck_second_pass_state s = HASH_KEY \<and>
         (\<exists>ks. que (ck_key_to_first_pass s) = key # ks) \<and> (\<exists>ks. que (ck_key_to_second_pass s) = key # ks) \<and>
         (\<exists>ds. que (ck_parsed_data_stream s ! tc) = d # ds) \<and> (\<exists>gs. que (ck_sig_stream s ! tc) = sig # gs) \<and>
         (\<exists>rs. que (ck_verify_sig_request_stream s) = req # rs) \<and> vr_tc req = hk_tc key \<and>
         \<not> s_full (ck_decision_stream s) \<and>
         que (ck_sha1_in s) = [] \<and> que (ck_sha1_out s) = [] \<and> que (ck_sha2_in s) = [] \<and> que (ck_sha2_out s) = [])"

lemma verify_sig_packet:
  assumes "que (ck_sha2_out s) = h # hs" "que (ck_verify_sig_request_stream s) = req # rs" "\<not> s_full (ck_decision_stream s)"
    and "que (ck_sig_stream s ! unat (ucast (vr_tc req) :: coap_tc)) = sig # gs"
  shows "verify_sig ops s =
    (let i = unat (ucast (vr_tc req) :: coap_tc); sigs = ck_sig_stream s
     in s\<lparr>ck_sha2_out := (ck_sha2_out s)\<lparr>que := hs\<rparr>, ck_verify_sig_request_stream := (ck_verify_sig_request_stream s)\<lparr>que := rs\<rparr>,
          ck_sig_stream := sigs[i := (sigs ! i)\<lparr>que := gs\<rparr>],
          ck_decision_stream := s_write \<lparr>cd_pass = (map (get_byte sig) [0..<43] = base64url h), cd_ring_id = vr_ring_id req\<rparr> (ck_decision_stream s),
          ck_second_pass_res_count := s_write_nb True (ck_second_pass_res_count s)\<rparr>)"
  using assms by (simp add: verify_sig_def s_empty_def s_read_def arr_read_def base64_encode_eq_iff Let_def del: upt_Suc)

text \<open>What is left of the queues once the packet at their heads is done.\<close>

definition packet_done :: "coap_hmac_key \<Rightarrow> ('c, 'k, 't, 's) coap \<Rightarrow> ('c, 'k, 't, 's) coap \<Rightarrow> bool" where
  "packet_done key s s' \<longleftrightarrow>
     (let tc = unat (ucast (hk_tc key) :: coap_tc)
      in ck_first_pass_state s' = COAP_READ_REQUEST \<and> ck_second_pass_state s' = HASH_KEY \<and>
         que (ck_key_to_first_pass s') = tl (que (ck_key_to_first_pass s)) \<and>
         que (ck_key_to_second_pass s') = tl (que (ck_key_to_second_pass s)) \<and>
         ck_parsed_data_stream s' = (ck_parsed_data_stream s)[tc := snd (s_read (ck_parsed_data_stream s ! tc))] \<and>
         ck_sig_stream s' = (ck_sig_stream s)[tc := snd (s_read (ck_sig_stream s ! tc))] \<and>
         que (ck_verify_sig_request_stream s') = tl (que (ck_verify_sig_request_stream s)) \<and>
         que (ck_sha1_in s') = [] \<and> que (ck_sha1_out s') = [] \<and> que (ck_sha2_in s') = [] \<and> que (ck_sha2_out s') = [])"

lemma inner_half:
  assumes "ck_first_pass_state s = COAP_READ_REQUEST" "que (ck_key_to_first_pass s) = key # ks"
    and "que (ck_parsed_data_stream s ! unat (ucast (hk_tc key) :: coap_tc)) = d # ds"
    and "que (ck_sha1_in s) = []" "que (ck_sha1_out s) = []"
    and s': "s' = sha1_serve compress iv ((first_pass ops ^^ 3) s)"
  shows "first_side s' = (let i = unat (ucast (hk_tc key) :: coap_tc); pds = ck_parsed_data_stream s
      in (COAP_READ_REQUEST, (ck_key_to_first_pass s)\<lparr>que := ks\<rparr>, pds[i := (pds ! i)\<lparr>que := ds\<rparr>], ck_sha1_in s))"
    and "verify_side s' = verify_side s" "ck_second_pass_state s' = ck_second_pass_state s"
    and "ck_key_to_second_pass s' = ck_key_to_second_pass s" "ck_sha2_in s' = ck_sha2_in s"
    and "que (ck_sha1_out s') = [sha256 compress iv (map (\<lambda>x. x XOR 0x36) (block_bytes (hk_buff key)) @ message d)]"
proof -
  let ?i = "unat (ucast (hk_tc key) :: coap_tc)"
  let ?h = "sha256 compress iv (map (\<lambda>x. x XOR 0x36) (block_bytes (hk_buff key)) @ message d)"
  define s1 where "s1 = (first_pass ops ^^ 3) s"
  obtain r1 r2 r3 where "first_side s1 = (COAP_READ_REQUEST, (ck_key_to_first_pass s)\<lparr>que := ks\<rparr>,
       (ck_parsed_data_stream s)[?i := (ck_parsed_data_stream s ! ?i)\<lparr>que := ds\<rparr>], (ck_sha1_in s)\<lparr>que := [r1, r2, r3]\<rparr>)"
    "second_side s1 = second_side s" "verify_side s1 = verify_side s" "sha_unit compress iv iv [r1, r2, r3] = [?h]"
    using first_pass_message [OF assms(1-3), of ops] inner_hash [OF _ length_block_bytes] assms(4)
    by (fastforce simp: s1_def Let_def simp del: sha_unit.simps)
  moreover have "(ck_sha1_in s)\<lparr>que := []\<rparr> = ck_sha1_in s" using assms(4) by (cases "ck_sha1_in s") simp
  ultimately show "first_side s' = (let i = unat (ucast (hk_tc key) :: coap_tc); pds = ck_parsed_data_stream s
      in (COAP_READ_REQUEST, (ck_key_to_first_pass s)\<lparr>que := ks\<rparr>, pds[i := (pds ! i)\<lparr>que := ds\<rparr>], ck_sha1_in s))"
    "verify_side s' = verify_side s" "ck_second_pass_state s' = ck_second_pass_state s"
    "ck_key_to_second_pass s' = ck_key_to_second_pass s" "ck_sha2_in s' = ck_sha2_in s" "que (ck_sha1_out s') = [?h]"
    unfolding s' s1_def [symmetric] using assms(5)
    by (simp_all add: sha1_serve_def first_side_def second_side_def verify_side_def Let_def del: sha_unit.simps)
qed

lemma outer_half:
  assumes "ck_second_pass_state s = HASH_KEY" "que (ck_key_to_second_pass s) = key # ks" "que (ck_sha1_out s) = [h]"
    and "que (ck_sha2_in s) = []" "que (ck_sha2_out s) = []"
    and s': "s' = sha2_serve compress iv ((second_pass ops ^^ 2) s)"
  shows "que (ck_sha2_out s') = [sha256 compress iv (map (\<lambda>x. x XOR 0x5C) (block_bytes (hk_buff key)) @ digest_bytes h)]"
    and "ck_verify_sig_request_stream s' = ck_verify_sig_request_stream s" "ck_sig_stream s' = ck_sig_stream s"
    and "ck_decision_stream s' = ck_decision_stream s" "first_side s' = first_side s"
    and "second_side s' = (HASH_KEY, (ck_key_to_second_pass s)\<lparr>que := ks\<rparr>, (ck_sha1_out s)\<lparr>que := []\<rparr>, ck_sha2_in s)"
proof -
  let ?h = "sha256 compress iv (map (\<lambda>x. x XOR 0x5C) (block_bytes (hk_buff key)) @ digest_bytes h)"
  define s1 where "s1 = (second_pass ops ^^ 2) s"
  obtain p1 p2 where "second_side s1 = (HASH_KEY, (ck_key_to_second_pass s)\<lparr>que := ks\<rparr>, (ck_sha1_out s)\<lparr>que := []\<rparr>,
       (ck_sha2_in s)\<lparr>que := [p1, p2]\<rparr>)"
    "first_side s1 = first_side s" "verify_side s1 = verify_side s" "sha_unit compress iv iv [p1, p2] = [?h]"
    using second_pass_message [OF assms(1-3), of ops] outer_hash [OF _ length_block_bytes] assms(4)
    by (fastforce simp: s1_def simp del: sha_unit.simps)
  moreover have "(ck_sha2_in s)\<lparr>que := []\<rparr> = ck_sha2_in s" using assms(4) by (cases "ck_sha2_in s") simp
  ultimately show "que (ck_sha2_out s') = [?h]"
    "ck_verify_sig_request_stream s' = ck_verify_sig_request_stream s" "ck_sig_stream s' = ck_sig_stream s"
    "ck_decision_stream s' = ck_decision_stream s" "first_side s' = first_side s"
    "second_side s' = (HASH_KEY, (ck_key_to_second_pass s)\<lparr>que := ks\<rparr>, (ck_sha1_out s)\<lparr>que := []\<rparr>, ck_sha2_in s)"
    unfolding s' s1_def [symmetric] using assms(5)
    by (simp_all add: sha2_serve_def first_side_def second_side_def verify_side_def del: sha_unit.simps)
qed

text \<open>
  C3: With SHA units that fold a compression function over the blocks they are sent and answer after the last block of a message, the two
  passes and the verification of the CoAP ikernel decide the packet whose key, text and signature are next in their
  queues: the decision is to pass if and only if the signature is the base64url text of the HMAC-SHA256 of the text under the key.
  The decision is queued with the ring of the packet's request, each queue loses exactly the packet's element, and the units are
  ready for the next packet.
\<close>

theorem coap_checks_hmac:
  assumes "packet_due key d sig req s"
  shows "ck_decision_stream (check_packet compress iv ops s) =
      s_write \<lparr>cd_pass = (map (get_byte sig) [0..<43] = base64url (hmac_sha256 compress iv (block_bytes (hk_buff key)) (message d))),
               cd_ring_id = vr_ring_id req\<rparr> (ck_decision_stream s) \<and>
    packet_done key s (check_packet compress iv ops s)"
proof -
  let ?tc = "unat (ucast (hk_tc key) :: coap_tc)"
  let ?h = "hmac_sha256 compress iv (block_bytes (hk_buff key)) (message d)"
  obtain ks1 ks2 ds gs rs where due: "ck_first_pass_state s = COAP_READ_REQUEST" "ck_second_pass_state s = HASH_KEY"
    "que (ck_key_to_first_pass s) = key # ks1" "que (ck_key_to_second_pass s) = key # ks2"
    "que (ck_parsed_data_stream s ! ?tc) = d # ds" "que (ck_sig_stream s ! ?tc) = sig # gs"
    "que (ck_verify_sig_request_stream s) = req # rs" "vr_tc req = hk_tc key" "\<not> s_full (ck_decision_stream s)"
    "que (ck_sha1_in s) = []" "que (ck_sha1_out s) = []" "que (ck_sha2_in s) = []" "que (ck_sha2_out s) = []"
    using assms by (auto simp: packet_due_def Let_def)
  define s2 where "s2 = sha1_serve compress iv ((first_pass ops ^^ 3) s)"
  define s4 where "s4 = sha2_serve compress iv ((second_pass ops ^^ 2) s2)"
  note s2 = inner_half [OF due(1,3,5,10,11) s2_def]
  then have v: "ck_verify_sig_request_stream s2 = ck_verify_sig_request_stream s" "ck_sig_stream s2 = ck_sig_stream s"
    "ck_decision_stream s2 = ck_decision_stream s" "que (ck_sha2_out s2) = []"
    using due(13) by (simp_all add: verify_side_def)
  have at2: "ck_second_pass_state s2 = HASH_KEY" "que (ck_key_to_second_pass s2) = key # ks2" "que (ck_sha2_in s2) = []"
    using s2(3-5) due(2,4,12) by simp_all
  note s4 = outer_half [OF at2(1,2) s2(6) at2(3) v(4) s4_def]
  have "que (ck_sha2_out s4) = [?h]" using s4(1) by (simp add: hmac_sha256_def)
  then have "verify_sig ops s4 = (let sigs = ck_sig_stream s4
     in s4\<lparr>ck_sha2_out := (ck_sha2_out s4)\<lparr>que := []\<rparr>, ck_verify_sig_request_stream := (ck_verify_sig_request_stream s4)\<lparr>que := rs\<rparr>,
          ck_sig_stream := sigs[?tc := (sigs ! ?tc)\<lparr>que := gs\<rparr>],
          ck_decision_stream := s_write \<lparr>cd_pass = (map (get_byte sig) [0..<43] = base64url ?h), cd_ring_id = vr_ring_id req\<rparr> (ck_decision_stream s4),
          ck_second_pass_res_count := s_write_nb True (ck_second_pass_res_count s4)\<rparr>)"
    using verify_sig_packet [of s4 ?h "[]" req rs sig gs ops] s4(2-4) v due(6-9) by (simp add: Let_def del: upt_Suc)
  moreover have "check_packet compress iv ops s = verify_sig ops s4" by (simp add: check_packet_def s4_def s2_def)
  ultimately show ?thesis
    using s4 s2 v at2 due by (simp add: packet_done_def Let_def first_side_def second_side_def s_read_def del: upt_Suc)
qed

text \<open>A packet of virtual ikernel 1 with an all-zero key, text and signature, and a compression function that only adds the first byte.\<close>

definition demo_coap_key :: coap_hmac_key where
  "demo_coap_key = \<lparr>hk_buff = 0, hk_tc = 1\<rparr>"

definition demo_coap_data :: coap_parsed_data where
  "demo_coap_data = \<lparr>pd_first_word = 0, pd_second_word = 0\<rparr>"

definition demo_coap_req :: coap_verify_sig_request where
  "demo_coap_req = \<lparr>vr_ring_id = 5, vr_tc = 1\<rparr>"

definition demo_coap :: "(unit, unit, unit, unit) coap \<Rightarrow> (unit, unit, unit, unit) coap" where
  "demo_coap s =
     s\<lparr>ck_first_pass_state := COAP_READ_REQUEST, ck_second_pass_state := HASH_KEY,
       ck_key_to_first_pass := s_write demo_coap_key (s_new (Some 512)),
       ck_key_to_second_pass := s_write demo_coap_key (s_new (Some 512)),
       ck_parsed_data_stream := replicate 8 (s_write demo_coap_data (s_new (Some 512))),
       ck_sig_stream := replicate 8 (s_write 0 (s_new (Some 512))),
       ck_verify_sig_request_stream := s_write demo_coap_req (s_new (Some 512)),
       ck_decision_stream := s_new (Some 15),
       ck_sha1_in := s_new None, ck_sha1_out := s_new None, ck_sha2_in := s_new None, ck_sha2_out := s_new None\<rparr>"

theorem coap_checks_hmac_witness:
  "\<forall>s ops. let compress = (\<lambda>h b. h + ucast (hd b))
   in ck_decision_stream (check_packet compress 7 ops (demo_coap s)) =
      s_write \<lparr>cd_pass = (map (get_byte (0 :: 344 word)) [0..<43] =
                  base64url (hmac_sha256 compress 7 (block_bytes (hk_buff demo_coap_key)) (message demo_coap_data))),
               cd_ring_id = 5\<rparr> (s_new (Some 15)) \<and>
    packet_done demo_coap_key (demo_coap s) (check_packet compress 7 ops (demo_coap s))"
  (is "\<forall>s ops. ?P s ops")
proof (intro allI)
  fix s :: "(unit, unit, unit, unit) coap" and ops :: "(unit, unit, unit, unit) coap_ops"
  have "packet_due demo_coap_key demo_coap_data 0 demo_coap_req (demo_coap s)"
    by (simp add: packet_due_def demo_coap_def demo_coap_key_def demo_coap_req_def stream_defs s_full_def Let_def)
  from coap_checks_hmac [OF this, of "\<lambda>h b. h + ucast (hd b)" 7 ops]
  show "?P s ops" by (simp add: Let_def demo_coap_req_def demo_coap_def del: upt_Suc)
qed

end
