(* ===== verification/Coap_Parser.thy ===== *)
theory Coap_Parser
  imports Coap_Hmac
begin

text \<open>
  What the parser of the CoAP ikernel takes from a request. The comment at the head of \<open>coap.cpp\<close> gives the layout: the
  body of the token is in bytes 62 to 105 of the payload and its signature in bytes 107 to 149; the header of the token is constant.
  The parser leaves the text that was signed, the header followed by the body, for the first pass and the signature for the verification.
\<close>

section \<open>The bytes of a request\<close>

definition word_bytes :: "256 word \<Rightarrow> 8 word list" where
  "word_bytes w = map (get_byte w) [0..<32]"

definition payload :: "axi_data list \<Rightarrow> 8 word list" where
  "payload ws = concat (map (\<lambda>w. word_bytes (ad_data w)) ws)"

definition jwt_header :: "coap_parsed_data \<Rightarrow> bool" where
  "jwt_header d \<longleftrightarrow> map (get_byte (pd_first_word d)) [0..<37] = map of_char JWT_BASE64_HEADER"

lemma length_word_bytes [simp]: "length (word_bytes w) = 32"
  by (simp add: word_bytes_def)

lemma length_header: "length JWT_BASE64_HEADER = 37"
  by (simp add: JWT_BASE64_HEADER_def)

lemma jwt_header_init: "jwt_header (coap_parsed_data_init d)"
proof -
  have "get_byte (pd_first_word (coap_parsed_data_init d)) j = of_char (JWT_BASE64_HEADER ! j)" if "j < 37" for j
    using that get_byte_fold_write [of 0 37 j "\<lambda>i. of_char (JWT_BASE64_HEADER ! i)" "pd_first_word d"]
    by (simp add: coap_parsed_data_init_def del: upt_Suc)
  then show ?thesis
    unfolding jwt_header_def by (intro nth_equalityI) (simp_all add: length_header del: upt_Suc)
qed

lemma second_word_bytes:
  "j < 64 \<Longrightarrow> get_byte (pd_first_word (parse_second_word w d)) j =
     (if j = 37 then get_byte w 30 else if j = 38 then get_byte w 31 else get_byte (pd_first_word d) j)"
  by (auto simp: parse_second_word_def get_write_byte)

lemma second_word_second [simp]: "pd_second_word (parse_second_word w d) = pd_second_word d"
  by (simp add: parse_second_word_def)

definition third_step :: "256 word \<Rightarrow> nat \<Rightarrow> coap_parsed_data \<Rightarrow> coap_parsed_data" where
  "third_step w i d =
     (if i \<le> 24 then d\<lparr>pd_first_word := write_byte (pd_first_word d) (39 + i) (get_byte w i)\<rparr>
      else d\<lparr>pd_second_word := write_byte (pd_second_word d) (i - 25) (get_byte w i)\<rparr>)"

lemma parse_third_word_steps: "parse_third_word w d = fold (third_step w) [0..<32] d"
  unfolding parse_third_word_def by (rule fold_cong) (auto simp: third_step_def Let_def)

lemma third_first_bytes:
  "\<lbrakk>n \<le> 32; j < 64\<rbrakk> \<Longrightarrow> get_byte (pd_first_word (fold (third_step w) [0..<n] d)) j =
     (if 39 \<le> j \<and> j < 39 + n then get_byte w (j - 39) else get_byte (pd_first_word d) j)"
  by (induction n) (auto simp: third_step_def get_write_byte)

lemma third_second_bytes:
  "\<lbrakk>n \<le> 32; j < 64\<rbrakk> \<Longrightarrow> get_byte (pd_second_word (fold (third_step w) [0..<n] d)) j =
     (if j + 25 < n then get_byte w (j + 25) else get_byte (pd_second_word d) j)"
  by (induction n) (auto simp: third_step_def get_write_byte)

definition fourth_step :: "256 word \<Rightarrow> nat \<Rightarrow> coap_parsed_data \<times> 344 word \<Rightarrow> coap_parsed_data \<times> 344 word" where
  "fourth_step w i ds =
     (if i \<le> 9 then (fst ds)\<lparr>pd_second_word := write_byte (pd_second_word (fst ds)) (i + 7) (get_byte w i)\<rparr> else fst ds,
      if i \<ge> 11 then write_byte (snd ds) (i - 11) (get_byte w i) else snd ds)"

lemma parse_fourth_word_steps: "parse_fourth_word w ds = fold (fourth_step w) [0..<32] ds"
  unfolding parse_fourth_word_def by (rule fold_cong) (auto simp: fourth_step_def Let_def)

lemma fourth_first [simp]: "pd_first_word (fst (fold (fourth_step w) [0..<n] ds)) = pd_first_word (fst ds)"
  by (induction n) (auto simp: fourth_step_def)

lemma fourth_second_bytes:
  "\<lbrakk>n \<le> 32; j < 64\<rbrakk> \<Longrightarrow> get_byte (pd_second_word (fst (fold (fourth_step w) [0..<n] ds))) j =
     (if 7 \<le> j \<and> j < 7 + min n 10 then get_byte w (j - 7) else get_byte (pd_second_word (fst ds)) j)"
  by (induction n) (auto simp: fourth_step_def get_write_byte min_def)

lemma fourth_sig_bytes:
  "\<lbrakk>n \<le> 32; j < 43\<rbrakk> \<Longrightarrow> get_byte (snd (fold (fourth_step w) [0..<n] ds)) j =
     (if j + 11 < n then get_byte w (j + 11) else get_byte (snd ds) j)"
  by (induction n) (auto simp: fourth_step_def get_write_byte)

lemma fifth_sig_bytes:
  "j < 43 \<Longrightarrow> get_byte (parse_fifth_word w sig) j = (if 21 \<le> j then get_byte w (j - 21) else get_byte sig j)"
  using get_byte_fold_write [of 21 22 j "get_byte w" sig] by (auto simp: parse_fifth_word_def add.commute simp del: upt_Suc)

text \<open>What the parser leaves of the words two to five of a request.\<close>

definition parsed_text :: "256 word \<Rightarrow> 256 word \<Rightarrow> 256 word \<Rightarrow> coap_parsed_data \<Rightarrow> coap_parsed_data" where
  "parsed_text w2 w3 w4 d = fst (parse_fourth_word w4 (parse_third_word w3 (parse_second_word w2 d), 0))"

definition parsed_sig :: "256 word \<Rightarrow> 256 word \<Rightarrow> 344 word \<Rightarrow> 344 word" where
  "parsed_sig w4 w5 sig = parse_fifth_word w5 (snd (parse_fourth_word w4 (undefined, sig)))"

lemma fourth_parts:
  "fst (fold (fourth_step w) [0..<n] (d, sig)) = fst (fold (fourth_step w) [0..<n] (d, sig'))"
  "snd (fold (fourth_step w) [0..<n] (d, sig)) = snd (fold (fourth_step w) [0..<n] (d', sig))"
  by (induction n) (auto simp: fourth_step_def)

lemma parse_fourth_parts:
  "parse_fourth_word w4 (parse_third_word w3 (parse_second_word w2 d), sig) =
     (parsed_text w2 w3 w4 d, snd (parse_fourth_word w4 (undefined, sig)))"
  using fourth_parts
  by (intro prod_eqI) (auto simp: parsed_text_def parse_fourth_word_steps simp del: upt_Suc)

lemma text_first_bytes:
  assumes "j < 64"
  shows "get_byte (pd_first_word (parsed_text w2 w3 w4 d)) j =
     (if 39 \<le> j then get_byte w3 (j - 39) else if 37 \<le> j then get_byte w2 (j - 7) else get_byte (pd_first_word d) j)"
proof -
  have "37 \<le> j \<and> j < 39 \<longleftrightarrow> j = 37 \<or> j = 38" by arith
  with assms show ?thesis
    by (auto simp: parsed_text_def parse_fourth_word_steps parse_third_word_steps third_first_bytes second_word_bytes simp del: upt_Suc)
qed

lemma text_second_bytes:
  "j < 17 \<Longrightarrow> get_byte (pd_second_word (parsed_text w2 w3 w4 d)) j = (if j < 7 then get_byte w3 (j + 25) else get_byte w4 (j - 7))"
  by (simp add: parsed_text_def parse_fourth_word_steps parse_third_word_steps fourth_second_bytes third_second_bytes del: upt_Suc)

lemma sig_bytes:
  "j < 43 \<Longrightarrow> get_byte (parsed_sig w4 w5 sig) j = (if j < 21 then get_byte w4 (j + 11) else get_byte w5 (j - 21))"
  by (simp add: parsed_sig_def parse_fourth_word_steps fifth_sig_bytes fourth_sig_bytes del: upt_Suc)

lemma jwt_header_parsed: "jwt_header d \<Longrightarrow> jwt_header (parsed_text w2 w3 w4 d)"
proof -
  have "map (get_byte (pd_first_word (parsed_text w2 w3 w4 d))) [0..<37] = map (get_byte (pd_first_word d)) [0..<37]"
    by (rule map_cong) (simp_all add: text_first_bytes)
  then show "jwt_header d \<Longrightarrow> jwt_header (parsed_text w2 w3 w4 d)" by (simp add: jwt_header_def)
qed

lemma message_parsed:
  assumes "jwt_header d"
  shows "message (parsed_text w2 w3 w4 d) =
    map of_char JWT_BASE64_HEADER @ drop 30 (word_bytes w2) @ word_bytes w3 @ take 10 (word_bytes w4)"
proof -
  have "message (parsed_text w2 w3 w4 d) =
      map (get_byte (pd_first_word d)) [0..<37] @ drop 30 (word_bytes w2) @ word_bytes w3 @ take 10 (word_bytes w4)"
    by (rule nth_equalityI)
      (auto simp: message_def block_bytes_def word_bytes_def nth_append text_first_bytes text_second_bytes simp del: upt_Suc)
  then show ?thesis using assms by (simp add: jwt_header_def)
qed

lemma signature_parsed:
  "map (get_byte (parsed_sig w4 w5 sig)) [0..<43] = drop 11 (word_bytes w4) @ take 22 (word_bytes w5)"
  by (rule nth_equalityI) (auto simp: word_bytes_def nth_append sig_bytes add.commute [of _ 11] simp del: upt_Suc)

lemma payload_fields:
  assumes "ws = w1 # w2 # w3 # w4 # w5 # rest"
  shows "take 44 (drop 62 (payload ws)) = drop 30 (word_bytes (ad_data w2)) @ word_bytes (ad_data w3) @ take 10 (word_bytes (ad_data w4))"
    and "take 43 (drop 107 (payload ws)) = drop 11 (word_bytes (ad_data w4)) @ take 22 (word_bytes (ad_data w5))"
  using assms by (simp_all add: payload_def)

section \<open>The parser's states\<close>

lemmas parse_unfold = coap_parse_packet_def Let_def s_empty_def s_read_def in_state_code_def

text \<open>The registers and streams of the parser, but for its state and its input words.\<close>

definition parser_view where
  "parser_view s = (ck_parsed_data s, ck_sig s, ck_meta s, ck_parser_curr_tc s, ck_parser_metadata s, ck_parsed_data_stream s,
     ck_sig_stream s, ck_ikernel_id_per_tc s, ck_parsed_packet_tc s, ck_parsed_packets s)"

definition parser_at where
  "parser_at st ws v s \<longleftrightarrow> ck_in_state s = st \<and> que (ck_parser_data s) = ws \<and> parser_view s = v"

lemmas parse_step = parse_unfold parser_at_def parser_view_def

lemma parse_metadata:
  "\<lbrakk>parser_at IN_METADATA ws (d, g, m0, tc0, mq, ds, gs, is, ts, ps) s; que mq = m # ms\<rbrakk> \<Longrightarrow>
   parser_at FIRST_WORD ws (d, g, m, calc_tc m, mq\<lparr>que := ms\<rparr>, ds, gs, is, ts, ps) (coap_parse_packet s)"
  by (auto simp: parse_step)

lemma parse_first:
  "parser_at FIRST_WORD (w # ws) v s \<Longrightarrow> parser_at SECOND_WORD ws v (coap_parse_packet s)"
  by (auto simp: parse_step)

lemma parse_second:
  "parser_at SECOND_WORD (w # ws) (d, v) s \<Longrightarrow> parser_at THIRD_WORD ws (parse_second_word (ad_data w) d, v) (coap_parse_packet s)"
  by (auto simp: parse_step)

lemma parse_third:
  "parser_at THIRD_WORD (w # ws) (d, v) s \<Longrightarrow> parser_at FOURTH_WORD ws (parse_third_word (ad_data w) d, v) (coap_parse_packet s)"
  by (auto simp: parse_step)

lemma parse_fourth:
  "\<lbrakk>parser_at FOURTH_WORD (w # ws) (d, g, m, tc, mq, ds, v) s; \<not> s_full (ds ! unat tc); parse_fourth_word (ad_data w) (d, g) = (d', g')\<rbrakk> \<Longrightarrow>
   parser_at FIFTH_WORD ws (d', g', m, tc, mq, arr_write d' tc ds, v) (coap_parse_packet s)"
  by (auto simp: parse_step)

lemma parse_fifth:
  "\<lbrakk>parser_at FIFTH_WORD (w # ws) (d, g, m, tc, mq, ds, gs, is, ts, ps) s;
    \<not> s_full (gs ! unat tc); \<not> s_full (is ! unat tc); \<not> s_full ts; parse_fifth_word (ad_data w) g = g'\<rbrakk> \<Longrightarrow>
   parser_at OTHER_WORDS ws (d, g', m, tc, mq, ds, arr_write g' tc gs, arr_write (ikernel_id m) tc is, s_write tc ts, ps) (coap_parse_packet s)"
  by (auto simp: parse_step)

lemma parse_other:
  "\<lbrakk>ck_in_state s = OTHER_WORDS; que (ck_parser_data s) = w # ws; \<not> s_full (ck_parsed_packets s)\<rbrakk> \<Longrightarrow>
   coap_parse_packet s = (let s1 = s\<lparr>ck_parser_unit_state := s_write_nb 6 (ck_parser_unit_state s), ck_parser_data := (ck_parser_data s)\<lparr>que := ws\<rparr>\<rparr>
     in if ad_last w then s1\<lparr>ck_parsed_packets := s_write_nb (ikernel_id (ck_meta s)) (ck_parsed_packets s), ck_in_state := IN_METADATA\<rparr> else s1)"
  by (simp add: parse_unfold)

text \<open>What the parser hands on.\<close>

definition parser_out where
  "parser_out s = (ck_parser_metadata s, ck_parsed_data s, ck_parsed_data_stream s, ck_sig_stream s, ck_ikernel_id_per_tc s, ck_parsed_packet_tc s)"

lemma parse_rest:
  assumes "ck_in_state s = OTHER_WORDS" "que (ck_parser_data s) = ws @ rest" "\<not> s_full (ck_parsed_packets s)" "is_packet ad_last ws"
  shows "ck_in_state ((coap_parse_packet ^^ length ws) s) = IN_METADATA \<and> que (ck_parser_data ((coap_parse_packet ^^ length ws) s)) = rest \<and>
    parser_out ((coap_parse_packet ^^ length ws) s) = parser_out s"
  using assms
proof (induction ws arbitrary: s)
  case Nil
  then show ?case by (simp add: is_packet_def)
next
  case (Cons w ws)
  define s1 where "s1 = coap_parse_packet s"
  note step = parse_other [OF Cons.prems(1) Cons.prems(2) [unfolded append_Cons] Cons.prems(3), folded s1_def]
  have same: "parser_out s1 = parser_out s" using step by (simp add: parser_out_def Let_def)
  show ?case
  proof (cases "ad_last w")
    case True
    then have "ws = []" using Cons.prems(4) by (auto simp: is_packet_Cons split: if_splits)
    then show ?thesis using True step same by (simp add: s1_def [symmetric] Let_def)
  next
    case False
    then have "is_packet ad_last ws" using Cons.prems(4) by (auto simp: is_packet_Cons split: if_splits)
    then show ?thesis
      using Cons.IH [of s1] False step same Cons.prems(1,3)
      by (simp add: funpow_Suc_right s1_def [symmetric] Let_def del: funpow.simps)
  qed
qed

definition parser_open :: "coap_tc \<Rightarrow> ('c, 'k, 't, 's) coap \<Rightarrow> bool" where
  "parser_open tc s \<longleftrightarrow> \<not> s_full (ck_parsed_data_stream s ! unat tc) \<and> \<not> s_full (ck_sig_stream s ! unat tc) \<and>
     \<not> s_full (ck_ikernel_id_per_tc s ! unat tc) \<and> \<not> s_full (ck_parsed_packet_tc s) \<and> \<not> s_full (ck_parsed_packets s)"

lemma parse_prefix:
  assumes "ck_in_state s = IN_METADATA" "que (ck_parser_metadata s) = m # ms"
    and "que (ck_parser_data s) = w1 # w2 # w3 # w4 # w5 # rest" "parser_open (calc_tc m) s"
  defines "d \<equiv> parsed_text (ad_data w2) (ad_data w3) (ad_data w4) (ck_parsed_data s)"
    and "g \<equiv> parsed_sig (ad_data w4) (ad_data w5) (ck_sig s)"
    and "s' \<equiv> (coap_parse_packet ^^ 6) s"
  shows "ck_in_state s' = OTHER_WORDS" "que (ck_parser_data s') = rest" "ck_parsed_packets s' = ck_parsed_packets s"
    and "parser_out s' = ((ck_parser_metadata s)\<lparr>que := ms\<rparr>, d, arr_write d (calc_tc m) (ck_parsed_data_stream s),
       arr_write g (calc_tc m) (ck_sig_stream s), arr_write (ikernel_id m) (calc_tc m) (ck_ikernel_id_per_tc s),
       s_write (calc_tc m) (ck_parsed_packet_tc s))"
proof -
  let ?tc = "calc_tc m" and ?f = coap_parse_packet
  note opn = assms(4) [unfolded parser_open_def]
  have "parser_at IN_METADATA (w1 # w2 # w3 # w4 # w5 # rest) (parser_view s) s" using assms(1,3) by (simp add: parser_at_def)
  note 1 = parse_first [OF parse_metadata [OF this [unfolded parser_view_def] assms(2)]]
  note 2 = parse_third [OF parse_second [OF 1]]
  have "parser_at FIFTH_WORD (w5 # rest) (d, snd (parse_fourth_word (ad_data w4) (undefined, ck_sig s)), m, ?tc,
      (ck_parser_metadata s)\<lparr>que := ms\<rparr>, arr_write d ?tc (ck_parsed_data_stream s), ck_sig_stream s, ck_ikernel_id_per_tc s,
      ck_parsed_packet_tc s, ck_parsed_packets s) (?f (?f (?f (?f (?f s)))))"
    by (rule parse_fourth [OF 2]) (use opn in \<open>simp_all add: parse_fourth_parts d_def\<close>)
  then have "parser_at OTHER_WORDS rest (d, g, m, ?tc, (ck_parser_metadata s)\<lparr>que := ms\<rparr>, arr_write d ?tc (ck_parsed_data_stream s),
      arr_write g ?tc (ck_sig_stream s), arr_write (ikernel_id m) ?tc (ck_ikernel_id_per_tc s),
      s_write ?tc (ck_parsed_packet_tc s), ck_parsed_packets s) (?f (?f (?f (?f (?f (?f s))))))"
    by (rule parse_fifth) (use opn in \<open>simp_all add: g_def parsed_sig_def\<close>)
  moreover have "s' = ?f (?f (?f (?f (?f (?f s)))))" by (simp add: s'_def eval_nat_numeral)
  ultimately show "ck_in_state s' = OTHER_WORDS" "que (ck_parser_data s') = rest" "ck_parsed_packets s' = ck_parsed_packets s"
    "parser_out s' = ((ck_parser_metadata s)\<lparr>que := ms\<rparr>, d, arr_write d (calc_tc m) (ck_parsed_data_stream s),
       arr_write g (calc_tc m) (ck_sig_stream s), arr_write (ikernel_id m) (calc_tc m) (ck_ikernel_id_per_tc s),
       s_write (calc_tc m) (ck_parsed_packet_tc s))"
    by (simp_all add: parser_at_def parser_view_def parser_out_def)
qed

text \<open>
  C24: When the parser of the CoAP ikernel finds a metadata and the words of its packet, six or more, and the streams of the packet's traffic class
  have room, one call for the metadata and one for each word consume exactly this packet. It hands on one text
  and one signature for that class, with the packet's ikernel and the class itself: the text is the constant token header followed by bytes 62 to 105 of the
  payload, the signature is bytes 107 to 149, and the token header stays in its register for the next packet.
\<close>

theorem coap_parses_token:
  assumes "ck_in_state s = IN_METADATA" "que (ck_parser_metadata s) = m # ms" "que (ck_parser_data s) = ws @ rest"
    and "is_packet ad_last ws" "6 \<le> length ws" "jwt_header (ck_parsed_data s)" "parser_open (calc_tc m) s"
  shows "\<exists>d sig. message d = map of_char JWT_BASE64_HEADER @ take 44 (drop 62 (payload ws)) \<and>
    map (get_byte sig) [0..<43] = take 43 (drop 107 (payload ws)) \<and> jwt_header d \<and>
    (let s' = (coap_parse_packet ^^ Suc (length ws)) s
     in parser_out s' = ((ck_parser_metadata s)\<lparr>que := ms\<rparr>, d, arr_write d (calc_tc m) (ck_parsed_data_stream s),
          arr_write sig (calc_tc m) (ck_sig_stream s), arr_write (ikernel_id m) (calc_tc m) (ck_ikernel_id_per_tc s),
          s_write (calc_tc m) (ck_parsed_packet_tc s)) \<and>
        ck_in_state s' = IN_METADATA \<and> que (ck_parser_data s') = rest)"
proof -
  obtain w1 w2 w3 w4 w5 us where ws: "ws = w1 # w2 # w3 # w4 # w5 # us" and us: "us \<noteq> []"
    using assms(5) by (auto simp: eval_nat_numeral Suc_le_length_iff)
  have pk: "is_packet ad_last us" using assms(4) us by (simp add: ws is_packet_Cons split: if_splits)
  have q: "que (ck_parser_data s) = w1 # w2 # w3 # w4 # w5 # (us @ rest)" using assms(3) by (simp add: ws)
  let ?d = "parsed_text (ad_data w2) (ad_data w3) (ad_data w4) (ck_parsed_data s)"
  let ?g = "parsed_sig (ad_data w4) (ad_data w5) (ck_sig s)"
  note pre = parse_prefix [OF assms(1,2) q assms(7)]
  have "\<not> s_full (ck_parsed_packets ((coap_parse_packet ^^ 6) s))" using pre(3) assms(7) by (simp add: parser_open_def)
  note post = parse_rest [OF pre(1,2) this pk]
  have n: "Suc (length ws) = length us + 6" by (simp add: ws)
  show ?thesis
  proof (rule exI [of _ ?d], rule exI [of _ ?g], intro conjI)
    show "message ?d = map of_char JWT_BASE64_HEADER @ take 44 (drop 62 (payload ws))"
      by (simp add: message_parsed [OF assms(6)] payload_fields(1) [OF ws])
    show "map (get_byte ?g) [0..<43] = take 43 (drop 107 (payload ws))"
      by (simp add: signature_parsed payload_fields(2) [OF ws] del: upt_Suc)
    show "jwt_header ?d" by (rule jwt_header_parsed [OF assms(6)])
    show "let s' = (coap_parse_packet ^^ Suc (length ws)) s
     in parser_out s' = ((ck_parser_metadata s)\<lparr>que := ms\<rparr>, ?d, arr_write ?d (calc_tc m) (ck_parsed_data_stream s),
          arr_write ?g (calc_tc m) (ck_sig_stream s), arr_write (ikernel_id m) (calc_tc m) (ck_ikernel_id_per_tc s),
          s_write (calc_tc m) (ck_parsed_packet_tc s)) \<and>
        ck_in_state s' = IN_METADATA \<and> que (ck_parser_data s') = rest"
      unfolding n Let_def using post pre(4) by (simp add: funpow_add del: funpow.simps)
  qed
qed

text \<open>A packet of six words whose bytes are all 1, in front of empty streams.\<close>

definition demo_token :: "axi_data list" where
  "demo_token = map (\<lambda>i. \<lparr>ad_data = (2 ^ 256 - 1) div 255, ad_keep = - 1, ad_last = (i = 5)\<rparr>) [0..<6]"

definition demo_parser :: "(unit, unit, unit, unit) coap \<Rightarrow> (unit, unit, unit, unit) coap" where
  "demo_parser s =
     s\<lparr>ck_in_state := IN_METADATA, ck_parser_metadata := s_write (metadata_from_int 0) (s_new (Some 512)),
       ck_parser_data := \<lparr>depth = Some 2560, que = demo_token\<rparr>, ck_parsed_data := coap_parsed_data_init demo_coap_data,
       ck_parsed_data_stream := replicate 8 (s_new (Some 512)), ck_sig_stream := replicate 8 (s_new (Some 512)),
       ck_ikernel_id_per_tc := replicate 8 (s_new (Some 512)), ck_parsed_packet_tc := s_new (Some 512),
       ck_parsed_packets := s_new (Some 32)\<rparr>"

theorem coap_parses_token_witness:
  "\<forall>s. \<exists>d sig. message d = map of_char JWT_BASE64_HEADER @ take 44 (drop 62 (payload demo_token)) \<and>
    map (get_byte sig) [0..<43] = take 43 (drop 107 (payload demo_token)) \<and> jwt_header d \<and>
    (let m = metadata_from_int 0; s' = (coap_parse_packet ^^ Suc (length demo_token)) (demo_parser s)
     in parser_out s' = (s_new (Some 512), d, arr_write d (calc_tc m) (replicate 8 (s_new (Some 512))),
          arr_write sig (calc_tc m) (replicate 8 (s_new (Some 512))), arr_write (ikernel_id m) (calc_tc m) (replicate 8 (s_new (Some 512))),
          s_write (calc_tc m) (s_new (Some 512))) \<and>
        ck_in_state s' = IN_METADATA \<and> que (ck_parser_data s') = [])"
proof
  fix s :: "(unit, unit, unit, unit) coap"
  let ?m = "metadata_from_int 0"
  have tc: "unat (calc_tc ?m) < 8" using unsigned_less [of "calc_tc ?m"] by simp
  have q: "que (ck_parser_metadata (demo_parser s)) = ?m # []" "que (ck_parser_data (demo_parser s)) = demo_token @ []"
    by (simp_all add: demo_parser_def s_write_def s_new_def)
  have "ck_in_state (demo_parser s) = IN_METADATA" "jwt_header (ck_parsed_data (demo_parser s))"
    by (simp_all add: demo_parser_def jwt_header_init)
  moreover have "is_packet ad_last demo_token" "6 \<le> length demo_token"
    by (simp_all add: demo_token_def is_packet_def eval_nat_numeral)
  moreover have "parser_open (calc_tc ?m) (demo_parser s)"
    using tc by (simp add: parser_open_def demo_parser_def s_new_def s_full_def)
  ultimately show "\<exists>d sig. message d = map of_char JWT_BASE64_HEADER @ take 44 (drop 62 (payload demo_token)) \<and>
    map (get_byte sig) [0..<43] = take 43 (drop 107 (payload demo_token)) \<and> jwt_header d \<and>
    (let m = metadata_from_int 0; s' = (coap_parse_packet ^^ Suc (length demo_token)) (demo_parser s)
     in parser_out s' = (s_new (Some 512), d, arr_write d (calc_tc m) (replicate 8 (s_new (Some 512))),
          arr_write sig (calc_tc m) (replicate 8 (s_new (Some 512))), arr_write (ikernel_id m) (calc_tc m) (replicate 8 (s_new (Some 512))),
          s_write (calc_tc m) (s_new (Some 512))) \<and>
        ck_in_state s' = IN_METADATA \<and> que (ck_parser_data s') = [])"
    using coap_parses_token [OF _ q] by (simp add: demo_parser_def s_write_def s_new_def Let_def del: upt_Suc)
qed

end
