(* ===== verification/Receive_Path.thy ===== *)
theory Receive_Path
  imports Udp_Builder
begin

text \<open>
  The receive path as a whole: \<open>udp_step\<close> connects the splitter, the dropper of the steering unit, the length adjustment and the
  crossbar by streams. Here the four units are run in this order, each on what the one before it has put out, and the result is
  stated for a sequence of packets as they arrive. A second part closes the loop from the transmit path: the words of a packet built from metadata and a
  payload are received as that payload.
\<close>

section \<open>From the wire to the ikernels\<close>

text \<open>A packet on the wire: its side band and words, whether the steering unit accepts it, and its flow table result.\<close>

record rx_packet =
  rp_side :: mlx_metadata
  rp_words :: "axi_data list"
  rp_pass :: bool
  rp_result :: flow_table_result

definition rp_hdr :: "rx_packet \<Rightarrow> header_buffer" where
  "rp_hdr x = packet_header (rp_side x) (rp_words x)"

definition rp_data :: "(nat \<Rightarrow> 32 word) \<Rightarrow> rx_packet \<Rightarrow> axi_data list" where
  "rp_data kb x = (if hdr_empty_packet (rp_hdr x) then [] else packet_payload kb (rp_words x))"

text \<open>
  The dropper and the crossbar find out from the UDP length whether a packet has data, the length adjustment from the IP length.
\<close>

definition lengths_agree :: "header_buffer \<Rightarrow> bool" where
  "lengths_agree h \<longleftrightarrow> (hdr_empty_packet h \<longleftrightarrow> la_word_count (la_packet_of_header h) = 0)"

definition rp_ok :: "nat \<Rightarrow> rx_packet \<Rightarrow> bool" where
  "rp_ok n x \<longleftrightarrow> splittable (rp_words x) \<and> (rp_pass x \<longrightarrow> lengths_agree (rp_hdr x) \<and> engine (rp_result x) < n)"

definition fed :: "'a list \<Rightarrow> 'a hls_stream" where
  "fed xs = \<lparr>depth = None, que = xs\<rparr>"

lemma fed_sel [simp]: "que (fed xs) = xs" "depth (fed xs) = None"
  by (simp_all add: fed_def)

lemma is_packet_payload: "splittable p \<Longrightarrow> is_packet ad_last (packet_payload kb p)"
proof -
  have ne: "realign kb b us \<noteq> []" for b us by (cases us) simp_all
  then have "is_packet ad_last (realign kb b us)" for b us
    by (induction us arbitrary: b) (simp_all add: is_packet_Cons split_last_def split_word_def)
  then show "splittable p \<Longrightarrow> is_packet ad_last (packet_payload kb p)"
    by (cases p rule: splittable.cases; cases "tl p") (auto simp: is_packet_def)
qed

lemma is_packet_trim: "\<lbrakk>is_packet ad_last ws; 0 < n\<rbrakk> \<Longrightarrow> is_packet ad_last (trim c n ws)"
proof (induction c n ws rule: trim.induct)
  case (3 c n w ws)
  have "trim c n ws \<noteq> []" if "ws \<noteq> []" "n \<noteq> 0" using that by (cases "(c, n, ws)" rule: trim.cases) simp_all
  with 3 show ?case by (auto simp: is_packet_Cons cut_last_def split: if_splits)
qed (simp_all add: is_packet_def)

lemma trimmed_Nil [simp]: "trimmed (h, []) = []"
  by (simp add: trimmed_def)

lemma split_batch:
  assumes "list_all (splittable \<circ> rp_words) xs" "hds_state st = HDS_IDLE"
  shows "\<exists>n. split_hdrs ((split kb ^^ n) (st, fed (map rp_side xs), fed (concat (map rp_words xs)), fed [], fed [])) = map rp_hdr xs \<and>
    split_data ((split kb ^^ n) (st, fed (map rp_side xs), fed (concat (map rp_words xs)), fed [], fed [])) =
      concat (map (packet_payload kb \<circ> rp_words) xs)"
proof -
  let ?s = "(st, fed (map rp_side xs), fed (concat (map rp_words xs)), fed [], fed [])"
  have "list_all splittable (map rp_words xs)" using assms(1) by (simp add: list.pred_map)
  moreover have "map2 packet_header (map rp_side xs) (map rp_words xs) = map rp_hdr xs"
    by (induction xs) (simp_all add: rp_hdr_def)
  ultimately have "split_owed kb ?s = (map rp_hdr xs, concat (map (packet_payload kb \<circ> rp_words) xs))"
    using split_run_packets [of "map rp_words xs" "map rp_side xs"] assms(2) by (simp add: split_owed_def)
  moreover have "split_ready ?s" by (simp add: split_ready_def)
  ultimately show ?thesis using hds.drains2 [of ?s kb] by (auto simp: split_hdrs_def split_data_def)
qed

lemma dropper_batch:
  assumes "list_all (splittable \<circ> rp_words) xs" "ud_state st = IDLE" "\<not> ud_data_buf_valid st" "empty_packets_have_data st"
  shows "\<exists>n. udrop_hdrs ((udp_dropper_step ^^ n)
      (st, fed (map rp_pass xs), fed (map rp_hdr xs), fed (concat (map (packet_payload kb \<circ> rp_words) xs)), fed [], fed [])) =
      map rp_hdr (filter rp_pass xs) \<and>
    udrop_data ((udp_dropper_step ^^ n)
      (st, fed (map rp_pass xs), fed (map rp_hdr xs), fed (concat (map (packet_payload kb \<circ> rp_words) xs)), fed [], fed [])) =
      concat (map (rp_data kb) (filter rp_pass xs))"
proof -
  let ?js = "map (\<lambda>x. (rp_pass x, rp_hdr x, packet_payload kb (rp_words x))) xs"
  let ?s = "(st, fed (map rp_pass xs), fed (map rp_hdr xs), fed (concat (map (packet_payload kb \<circ> rp_words) xs)), fed [], fed [])"
  have "\<forall>j \<in> set ?js. framed True j"
    using assms(1) by (auto simp: framed_def list_all_iff is_packet_payload)
  from udrop_run_packets [OF this] have "udrop_owed ?s = (kept_headers ?js, kept_data ?js)"
    using assms(2-) by (simp add: udrop_owed_def udrop_words_def comp_def)
  moreover have "kept_headers ?js = map rp_hdr (filter rp_pass xs)" "kept_data ?js = concat (map (rp_data kb) (filter rp_pass xs))"
    by (induction xs) (simp_all add: kept_headers_def kept_data_def rp_data_def)
  moreover have "udrop_ready ?s" by (simp add: udrop_ready_def)
  ultimately show ?thesis using udd.drains2 [of ?s] by (auto simp: udrop_hdrs_def udrop_data_def)
qed

lemma adjust_batch:
  assumes "list_all (\<lambda>x. splittable (rp_words x) \<and> lengths_agree (rp_hdr x)) xs"
    and "la_state st = LA_IDLE" "\<not> la_data_buf_valid st" "que (la_packets st) = []" "depth (la_packets st) \<noteq> Some 0"
  shows "\<exists>n. la_out ((la_step ^^ n) (st, fed (map rp_hdr xs), fed (concat (map (rp_data kb) xs)), fed [])) =
    concat (map (\<lambda>x. trimmed (rp_hdr x, rp_data kb x)) xs)"
proof -
  let ?js = "map (\<lambda>x. (rp_hdr x, rp_data kb x)) xs"
  let ?s = "(st, fed (map rp_hdr xs), fed (concat (map (rp_data kb) xs)), fed [])"
  have "list_all la_framed ?js"
    using assms(1) by (auto simp: list_all_iff la_framed_def rp_data_def lengths_agree_def is_packet_payload)
  then have "la_pend ?s = concat (map (\<lambda>x. trimmed (rp_hdr x, rp_data kb x)) xs)"
    using cut_run_packets [of ?js] assms(2-4) by (simp add: la_pend_def la_words_def comp_def)
  moreover have "la_ready ?s" using assms(5) by (simp add: la_ready_def)
  ultimately show ?thesis using la.drains [of ?s] by (auto simp: la_out_def)
qed

lemma crossbar_batch:
  assumes "list_all (\<lambda>x. splittable (rp_words x) \<and> lengths_agree (rp_hdr x) \<and> engine (rp_result x) < length ports) xs"
    and "xb_state st = IDLE" "que res = map rp_result xs"
    and "\<forall>p \<in> set ports. depth (xp_hdr p) = None \<and> depth (xp_ft p) = None \<and> depth (xp_data p) = None"
    and s_def: "s = (st, fed (map rp_hdr xs), fed (concat (map (\<lambda>x. trimmed (rp_hdr x, rp_data kb x)) xs)), res, ports)"
  shows "\<exists>n. xbar_hdrs k ((crossbar_step junk ^^ n) s) =
      que (xp_hdr (ports ! k)) @ map rp_hdr (filter (\<lambda>x. engine (rp_result x) = k) xs) \<and>
    xbar_data k ((crossbar_step junk ^^ n) s) =
      que (xp_data (ports ! k)) @ concat (map (\<lambda>x. trimmed (rp_hdr x, rp_data kb x)) (filter (\<lambda>x. engine (rp_result x) = k) xs))"
proof -
  let ?js = "map (\<lambda>x. (rp_result x, rp_hdr x, trimmed (rp_hdr x, rp_data kb x))) xs"
  have "is_packet ad_last (trimmed (rp_hdr x, rp_data kb x))" if "splittable (rp_words x)" "lengths_agree (rp_hdr x)" "\<not> hdr_empty_packet (rp_hdr x)" for x
    using that by (auto simp: trimmed_def rp_data_def lengths_agree_def unat_gt_0 intro!: is_packet_trim is_packet_payload)
  then have "list_all (steered_framed (length ports)) ?js"
    using assms(1) by (auto simp: list_all_iff steered_framed_def rp_data_def)
  from xbar_run_packets [OF this, of k junk]
  have "ev_headers k (xbar_owed junk s) = map rp_hdr (filter (\<lambda>x. engine (rp_result x) = k) xs)"
    "ev_data k (xbar_owed junk s) = concat (map (\<lambda>x. trimmed (rp_hdr x, rp_data kb x)) (filter (\<lambda>x. engine (rp_result x) = k) xs))"
    using assms(2,3) by (simp_all add: s_def xbar_owed_def comp_def filter_map)
  moreover have "xbar_ready s" using assms(4) by (simp add: s_def xbar_ready_def)
  ultimately show ?thesis using xbar.drains2 [of s k junk] by (auto simp: xbar_hdrs_def xbar_data_def s_def)
qed

text \<open>The four units one after the other, for the given numbers of clocks.\<close>

definition receive_batch where
  "receive_batch kb junk ns units xs ports =
     (case (ns, units) of ((n1, n2, n3, n4), (hds, ud, la, xb)) \<Rightarrow>
        (let s1 = (split kb ^^ n1) (hds, fed (map rp_side xs), fed (concat (map rp_words xs)), fed [], fed []);
             s2 = (udp_dropper_step ^^ n2) (ud, fed (map rp_pass xs), fed (split_hdrs s1), fed (split_data s1), fed [], fed []);
             s3 = (la_step ^^ n3) (la, fed (udrop_hdrs s2), fed (udrop_data s2), fed [])
         in (crossbar_step junk ^^ n4)
              (xb, fed (udrop_hdrs s2), fed (la_out s3), fed (map rp_result (filter rp_pass xs)), ports)))"

definition units_idle :: "header_data_split \<times> udp_dropper \<times> length_adjust \<times> crossbar \<Rightarrow> bool" where
  "units_idle units = (case units of (hds, ud, la, xb) \<Rightarrow>
     hds_state hds = HDS_IDLE \<and> ud_state ud = IDLE \<and> \<not> ud_data_buf_valid ud \<and> empty_packets_have_data ud \<and>
     la_state la = LA_IDLE \<and> \<not> la_data_buf_valid la \<and> que (la_packets la) = [] \<and> depth (la_packets la) = Some 1 \<and>
     xb_state xb = IDLE)"

definition ports_open :: "xbar_port list \<Rightarrow> bool" where
  "ports_open ports \<longleftrightarrow> (\<forall>p \<in> set ports. depth (xp_hdr p) = None \<and> depth (xp_ft p) = None \<and> depth (xp_data p) = None)"

section \<open>Loop back\<close>

lemma payload_bits:
  assumes "splittable p"
  shows "msb_bits (hb_hdr (packet_header m p)) @ concat (map (msb_bits \<circ> ad_data) (packet_payload kb p)) =
    concat (map (msb_bits \<circ> ad_data) p) @ replicate 80 False"
proof -
  obtain w0 w1 ws where p: "p = w0 # w1 # ws" using assms by (cases p rule: splittable.cases; cases "tl p") (auto simp: is_packet_def)
  show ?thesis by (simp add: p bits_header bits_realign flip: msb_bits_halves [of "ad_data w1"])
qed

lemma keep_payload: "\<lbrakk>splittable p; w \<in> set (butlast (packet_payload kb p))\<rbrakk> \<Longrightarrow> ad_keep w = - 1"
proof -
  have ne: "realign kb b us \<noteq> []" for b us by (cases us) simp_all
  have "w \<in> set (butlast (realign kb b us)) \<Longrightarrow> ad_keep w = - 1" for b us
    by (induction us arbitrary: b) (auto simp: split_word_def ne)
  then show "\<lbrakk>splittable p; w \<in> set (butlast (packet_payload kb p))\<rbrakk> \<Longrightarrow> ad_keep w = - 1"
    by (cases p rule: splittable.cases; cases "tl p") (auto simp: is_packet_def)
qed

lemma valid_bytes_trim_packet:
  "\<lbrakk>0 < n; n \<le> length ws; \<forall>w \<in> set (butlast ws). ad_keep w = - 1\<rbrakk> \<Longrightarrow>
   valid_bytes (trim c n ws) = 32 * (n - 1) + (if la_last_word_data c = 0 then 32 else unat (la_last_word_data c))"
proof (induction c n ws rule: trim.induct)
  case (3 c n w ws)
  have "Collect (bit (- 1 :: 32 word)) = {..<32}" by (auto simp: bit_simps)
  then have "card (Collect (bit (- 1 :: 32 word))) = 32" by (simp only: card_lessThan)
  with 3 show ?case by (cases "ws = []") (auto simp: valid_bytes_def cut_last_def card_last_word_keep)
qed simp_all

lemma bits_trim:
  "n \<le> length ws \<Longrightarrow>
   concat (map (msb_bits \<circ> ad_data) (trim c n ws)) = take (256 * n) (concat (map (msb_bits \<circ> ad_data) ws))"
  by (induction c n ws rule: trim.induct) (auto simp: cut_last_def algebra_simps)

lemma trim_payload:
  assumes "splittable p" "ip_payload_length h = n" "28 \<le> unat (ih_tot_len (hp_ip (header_parser_of_buffer h)))" "0 < n" "n \<le> 65504"
    and "concat (map (msb_bits \<circ> ad_data) (packet_payload kb p)) = pay @ tail" "length pay = 8 * n"
  shows "valid_bytes (trimmed (h, packet_payload kb p)) = n \<and> is_packet ad_last (trimmed (h, packet_payload kb p)) \<and>
    take (8 * n) (concat (map (msb_bits \<circ> ad_data) (trimmed (h, packet_payload kb p)))) = pay"
proof -
  let ?c = "la_packet_of_header h" and ?ws = "packet_payload kb p"
  have wc: "unat (la_word_count ?c) = (n + 31) div 32" and lw: "unat (la_last_word_data ?c) = n mod 32"
    using assms(2,3,5) la_packet_of_header_nat [of h] by simp_all
  have lb: "length (concat (map (msb_bits \<circ> ad_data) us)) = 256 * length us" for us by (induction us) simp_all
  then have "8 * n \<le> 256 * length ?ws" using assms(6,7) by (metis length_append le_add1)
  then have fits: "(n + 31) div 32 \<le> length ?ws" by (simp add: div_le_mono less_mult_imp_div_less flip: less_Suc_eq_le)
  have pos: "0 < (n + 31) div 32" using assms(4) by (simp add: div_greater_zero_iff)
  have "valid_bytes (trimmed (h, ?ws)) = 32 * ((n + 31) div 32 - 1) + (if n mod 32 = 0 then 32 else n mod 32)"
    using valid_bytes_trim_packet [OF pos fits, of ?c] keep_payload [OF assms(1)] lw
    by (auto simp: trimmed_def wc simp flip: unat_eq_0)
  moreover have "\<dots> = n" by (rule words_needed(3) [OF assms(4)])
  moreover have "is_packet ad_last (trimmed (h, ?ws))"
    using pos by (simp add: trimmed_def wc is_packet_trim is_packet_payload [OF assms(1)])
  moreover have "take (8 * n) (concat (map (msb_bits \<circ> ad_data) (trimmed (h, ?ws)))) = pay"
  proof -
    have "8 * n \<le> 256 * ((n + 31) div 32)" by simp
    then show ?thesis
      using bits_trim [OF fits, of ?c] assms(6,7) by (simp add: trimmed_def wc min_absorb1)
  qed
  ultimately show ?thesis by simp
qed

lemma built_packet:
  assumes "splittable p" "0 < unat (len m)" "unat (len m) \<le> 65504"
    and "concat (map (msb_bits \<circ> ad_data) p) = msb_bits (header_parser_to_int (metadata_to_header m)) @ pay @ padding"
  shows "header_parser_of_buffer (packet_header side p) = metadata_to_header m"
    and "concat (map (msb_bits \<circ> ad_data) (packet_payload kb p)) = pay @ (padding @ replicate 80 False)"
    and "unat (ih_tot_len (hp_ip (header_parser_of_buffer (packet_header side p)))) = 28 + unat (len m)"
    and "\<not> hdr_empty_packet (packet_header side p)"
    and "ip_payload_length (packet_header side p) = unat (len m)"
    and "lengths_agree (packet_header side p)"
proof -
  let ?h = "packet_header side p"
  have "msb_bits (hb_hdr ?h) = msb_bits (header_parser_to_int (metadata_to_header m)) \<and>
      concat (map (msb_bits \<circ> ad_data) (packet_payload kb p)) = pay @ padding @ replicate 80 False"
    using payload_bits [OF assms(1), of side kb] assms(4)
    by (subst (asm) append_assoc [symmetric]) (simp flip: append_eq_append_conv)
  then show hdr: "header_parser_of_buffer ?h = metadata_to_header m"
    and bits: "concat (map (msb_bits \<circ> ad_data) (packet_payload kb p)) = pay @ (padding @ replicate 80 False)"
    by (simp_all add: msb_bits_inject header_parser_of_buffer_eq hp.from_to)
  have "unat (of_nat 28 + len m) = 28 + unat (len m)" "unat (of_nat 8 + len m) = 8 + unat (len m)"
    using assms(3) by (intro unat_plus_len, simp)+
  then show tl: "unat (ih_tot_len (hp_ip (header_parser_of_buffer ?h))) = 28 + unat (len m)"
    and ne: "\<not> hdr_empty_packet ?h"
    using assms(2) by (simp_all only: hdr hdr_empty_packet_def udp_empty_packet_def header_length_fields)
  show pl: "ip_payload_length ?h = unat (len m)" by (simp add: ip_payload_length_def tl)
  have "unat (la_word_count (la_packet_of_header ?h)) = (unat (len m) + 31) div 32"
    using la_packet_of_header_nat(1) [of ?h] tl pl assms(3) by simp
  then have "0 < unat (la_word_count (la_packet_of_header ?h))" using assms(2) by (simp add: div_greater_zero_iff)
  then have "la_word_count (la_packet_of_header ?h) \<noteq> 0" by (simp add: unat_gt_0)
  with ne show "lengths_agree ?h" by (simp add: lengths_agree_def)
qed

text \<open>A packet whose header words come from the transmit path and whose payload, here 20 zero bytes, fits into the second of them.\<close>

definition demo_sent :: metadata where
  "demo_sent = demo_metadata\<lparr>len := 20\<rparr>"

lemma demo_sent_words:
  "splittable (header_words (\<lambda>n. mask n) demo_sent)"
  "0 < unat (len demo_sent)" "unat (len demo_sent) \<le> 65504"
  "concat (map (msb_bits \<circ> ad_data) (header_words (\<lambda>n. mask n) demo_sent)) =
     msb_bits (header_parser_to_int (metadata_to_header demo_sent)) @ replicate 160 False @ replicate 16 False"
proof -
  have udp: "pkt_type demo_sent = PKT_TYPE_UDP" by (simp add: demo_sent_def demo_metadata_def PKT_TYPE_UDP_def)
  note hw = header_words_bits [OF udp, of "\<lambda>n. mask n"]
  show "splittable (header_words (\<lambda>n. mask n) demo_sent)"
    using conjunct2 [OF hw] by (simp add: header_words_def udp Let_def is_packet_Cons)
  show "0 < unat (len demo_sent)" "unat (len demo_sent) \<le> 65504" by (simp_all add: demo_sent_def)
  have "(176 :: nat) = 160 + 16" by simp
  then show "concat (map (msb_bits \<circ> ad_data) (header_words (\<lambda>n. mask n) demo_sent)) =
     msb_bits (header_parser_to_int (metadata_to_header demo_sent)) @ replicate 160 False @ replicate 16 False"
    using conjunct1 [OF hw] by (simp only: replicate_add)
qed

section \<open>Properties\<close>

text \<open>
  C7: The receive path delivers. Take a sequence of packets of at least two words each, of which those that the steering unit accepts have an
  engine and agree in their UDP and IP lengths on whether there is data. The splitter, the dropper, the length adjustment and the crossbar,
  started idle and run in this order, hand engine \<open>k\<close> exactly the headers of the accepted packets of its flows and their payloads cut to the length
  in the header, in the order of arrival, and nothing of any other packet.
\<close>

theorem receive_path_delivers:
  assumes "list_all (rp_ok (length ports)) xs" "units_idle units" "ports_open ports"
  shows "\<exists>ns.
    xbar_hdrs k (receive_batch kb junk ns units xs ports) =
      que (xp_hdr (ports ! k)) @ map rp_hdr (filter (\<lambda>x. rp_pass x \<and> engine (rp_result x) = k) xs) \<and>
    xbar_data k (receive_batch kb junk ns units xs ports) =
      que (xp_data (ports ! k)) @
      concat (map (\<lambda>x. trimmed (rp_hdr x, rp_data kb x)) (filter (\<lambda>x. rp_pass x \<and> engine (rp_result x) = k) xs))"
proof -
  obtain hds ud la xb where u: "units = (hds, ud, la, xb)" by (cases units)
  note idle = assms(2) [unfolded u units_idle_def prod.case]
  let ?ys = "filter rp_pass xs"
  have sp: "list_all (splittable \<circ> rp_words) xs" using assms(1) by (auto simp: list_all_iff rp_ok_def)
  have ok: "list_all (\<lambda>x. splittable (rp_words x) \<and> lengths_agree (rp_hdr x) \<and> engine (rp_result x) < length ports) ?ys"
    using assms(1) by (auto simp: list_all_iff rp_ok_def)
  then have ok': "list_all (\<lambda>x. splittable (rp_words x) \<and> lengths_agree (rp_hdr x)) ?ys" by (auto simp: list_all_iff)
  obtain n1 where n1: "split_hdrs ((split kb ^^ n1) (hds, fed (map rp_side xs), fed (concat (map rp_words xs)), fed [], fed [])) = map rp_hdr xs"
    "split_data ((split kb ^^ n1) (hds, fed (map rp_side xs), fed (concat (map rp_words xs)), fed [], fed [])) =
      concat (map (packet_payload kb \<circ> rp_words) xs)"
    using split_batch [OF sp, of hds kb] idle by blast
  obtain n2 where n2: "udrop_hdrs ((udp_dropper_step ^^ n2)
      (ud, fed (map rp_pass xs), fed (map rp_hdr xs), fed (concat (map (packet_payload kb \<circ> rp_words) xs)), fed [], fed [])) = map rp_hdr ?ys"
    "udrop_data ((udp_dropper_step ^^ n2)
      (ud, fed (map rp_pass xs), fed (map rp_hdr xs), fed (concat (map (packet_payload kb \<circ> rp_words) xs)), fed [], fed [])) =
      concat (map (rp_data kb) ?ys)"
    using dropper_batch [OF sp, of ud kb] idle by blast
  obtain n3 where n3: "la_out ((la_step ^^ n3) (la, fed (map rp_hdr ?ys), fed (concat (map (rp_data kb) ?ys)), fed [])) =
    concat (map (\<lambda>x. trimmed (rp_hdr x, rp_data kb x)) ?ys)"
    using adjust_batch [OF ok', of la kb] idle by auto
  let ?s = "(xb, fed (map rp_hdr ?ys), fed (concat (map (\<lambda>x. trimmed (rp_hdr x, rp_data kb x)) ?ys)), fed (map rp_result ?ys), ports)"
  have run: "receive_batch kb junk (n1, n2, n3, n4) units xs ports = (crossbar_step junk ^^ n4) ?s" for n4
    unfolding receive_batch_def u prod.case Let_def n1 n2 n3 ..
  have "xb_state xb = IDLE" using idle by simp
  from crossbar_batch [OF ok this _ assms(3) [unfolded ports_open_def] refl, of "fed (map rp_result ?ys)" k junk kb]
  obtain n4 where "xbar_hdrs k ((crossbar_step junk ^^ n4) ?s) =
      que (xp_hdr (ports ! k)) @ map rp_hdr (filter (\<lambda>x. engine (rp_result x) = k) ?ys)"
    "xbar_data k ((crossbar_step junk ^^ n4) ?s) =
      que (xp_data (ports ! k)) @ concat (map (\<lambda>x. trimmed (rp_hdr x, rp_data kb x)) (filter (\<lambda>x. engine (rp_result x) = k) ?ys))"
    by auto
  then show ?thesis
    by (intro exI [of _ "(n1, n2, n3, n4)"]) (simp add: run conj_commute)
qed

definition demo_rx :: "rx_packet list" where
  "demo_rx =
     [\<lparr>rp_side = \<lparr>mm_user = 0, mm_id = 0\<rparr>, rp_words = header_words (\<lambda>n. mask n) demo_sent, rp_pass = True, rp_result = demo_result 1\<rparr>,
      \<lparr>rp_side = \<lparr>mm_user = 0, mm_id = 0\<rparr>, rp_words = [demo_word 1 False, demo_word 2 True], rp_pass = False, rp_result = demo_result 0\<rparr>]"

definition demo_units :: "header_data_split \<times> udp_dropper \<times> length_adjust \<times> crossbar" where
  "demo_units = (\<lparr>hds_state = HDS_IDLE, hds_meta = \<lparr>mm_user = 0, mm_id = 0\<rparr>, hds_buffer = 0\<rparr>, demo_dropper, demo_adjust,
     \<lparr>xb_state = IDLE, current_steering_decision = demo_result 0\<rparr>)"

lemma receive_path_delivers_witness:
  "\<exists>ns. xbar_hdrs 1 (receive_batch (\<lambda>n. mask n) (demo_hdr 0) ns demo_units demo_rx [demo_port, demo_port]) =
     [packet_header \<lparr>mm_user = 0, mm_id = 0\<rparr> (header_words (\<lambda>n. mask n) demo_sent)]"
proof -
  have "list_all (rp_ok (length [demo_port, demo_port])) demo_rx"
    using demo_sent_words(1) built_packet(6) [OF demo_sent_words, of "\<lparr>mm_user = 0, mm_id = 0\<rparr>"]
    by (simp add: demo_rx_def rp_ok_def rp_hdr_def engine_def demo_result_def is_packet_Cons demo_word_def)
  moreover have "units_idle demo_units"
    by (simp add: demo_units_def units_idle_def demo_dropper_def demo_adjust_def s_new_def)
  moreover have "ports_open [demo_port, demo_port]"
    by (simp add: ports_open_def demo_port_def s_new_def)
  moreover have "que (xp_hdr ([demo_port, demo_port] ! 1)) = []" by (simp add: demo_port_def s_new_def)
  moreover have "map rp_hdr (filter (\<lambda>x. rp_pass x \<and> engine (rp_result x) = 1) demo_rx) =
      [packet_header \<lparr>mm_user = 0, mm_id = 0\<rparr> (header_words (\<lambda>n. mask n) demo_sent)]"
    by (simp add: demo_rx_def rp_hdr_def engine_def demo_result_def)
  ultimately show ?thesis
    using receive_path_delivers [of "[demo_port, demo_port]" demo_rx demo_units 1 "\<lambda>n. mask n" "demo_hdr 0"] by (metis append_Nil)
qed



end
