(* ===== verification/Indexed_Heap.thy ===== *)
theory Indexed_Heap
  imports Heap
begin

text \<open>
  The heap with an index of \<open>src/ikernels/hls/indexed_heap.hpp\<close>: the heap of \<open>heap.hpp\<close>, whose elements carry an entity, together with
  a cache from entities to the positions of their elements. Every swap of two elements tells the cache their new positions. The element type is a linear
  order with a function \<open>entity\<close>, as the members \<open>operator<\<close> and \<open>entity\<close> of the template parameter \<open>T\<close>. The
  cache is \<open>cache.hpp\<close> of \<open>ntl\<close>, outside the repository: its operations are the record \<open>cache_ops\<close>, and \<open>bounded_map\<close> states what
  \<open>src/ikernels/hls/tests/cache_tests.cpp\<close> tests of it.
\<close>

record ('k, 'c) cache_ops =
  cc_insert :: "'k \<Rightarrow> nat \<Rightarrow> 'c \<Rightarrow> 'c"
  cc_erase :: "'k \<Rightarrow> 'c \<Rightarrow> 'c"
  cc_find :: "'c \<Rightarrow> 'k \<Rightarrow> nat option"

record ('a, 'c) indexed_heap =
  ih_cache :: 'c
  ih_data :: "'a list"
  ih_size :: nat

definition ih_new :: "'c \<Rightarrow> 'a list \<Rightarrow> ('a, 'c) indexed_heap" where
  "ih_new c d = \<lparr>ih_cache = c, ih_data = d, ih_size = 0\<rparr>"

definition ih_swap :: "('k, 'c) cache_ops \<Rightarrow> ('a \<Rightarrow> 'k) \<Rightarrow> nat \<Rightarrow> nat \<Rightarrow> ('a, 'c) indexed_heap \<Rightarrow> ('a, 'c) indexed_heap" where
  "ih_swap ops entity idx_a idx_b h =
     (let d = swap_at idx_a idx_b (ih_data h);
          c1 = cc_insert ops (entity (d ! idx_a)) idx_a (ih_cache h);
          c2 = cc_insert ops (entity (d ! idx_b)) idx_b c1
      in h\<lparr>ih_data := d, ih_cache := c2\<rparr>)"

definition ih_getItem :: "('a, 'c) indexed_heap \<Rightarrow> nat \<Rightarrow> 'a" where
  "ih_getItem h idx = ih_data h ! idx"

definition ih_parent :: "('a, 'c) indexed_heap \<Rightarrow> nat \<Rightarrow> nat option" where
  "ih_parent h idx = (if ih_size h \<le> 1 then None else Some ((idx - 1) div 2))"

definition ih_child :: "('a, 'c) indexed_heap \<Rightarrow> nat \<Rightarrow> nat option" where
  "ih_child h idx = (if ih_size h \<le> 1 \<or> ih_size h \<le> 2 * idx + 1 then None else Some (2 * idx + 1))"

definition ih_getMinIdx :: "('a::linorder, 'c) indexed_heap \<Rightarrow> nat \<Rightarrow> nat \<Rightarrow> nat \<Rightarrow> nat" where
  "ih_getMinIdx h aIdx bIdx cIdx =
     (let isLeftSmaller = (ih_data h ! aIdx < ih_data h ! bIdx)
      in if cIdx \<ge> ih_size h then (if isLeftSmaller then aIdx else bIdx)
         else if isLeftSmaller then (if ih_data h ! aIdx < ih_data h ! cIdx then aIdx else cIdx)
         else (if ih_data h ! bIdx < ih_data h ! cIdx then bIdx else cIdx))"

text \<open>These are the functions of the plain heap on the same array; the loops below differ from its loops by the swap.\<close>

lemma ih_plain [simp]:
  "ih_parent h = heap_parent (ih_size h)" "ih_child h = heap_child (ih_size h)"
  "ih_getMinIdx h = getMinIdx (ih_data h) (ih_size h)"
  by (auto simp: ih_parent_def ih_child_def ih_getMinIdx_def heap_parent_def heap_child_def getMinIdx_def Let_def fun_eq_iff)

lemma ih_swap_sel [simp]:
  "ih_size (ih_swap ops entity i j h) = ih_size h" "ih_data (ih_swap ops entity i j h) = swap_at i j (ih_data h)"
  by (simp_all add: ih_swap_def Let_def)

function ih_bubbleUp ::
  "('k, 'c) cache_ops \<Rightarrow> ('a::linorder \<Rightarrow> 'k) \<Rightarrow> nat \<Rightarrow> ('a, 'c) indexed_heap \<Rightarrow> ('a, 'c) indexed_heap \<times> nat" where
  "ih_bubbleUp ops entity idx h =
     (case ih_parent h idx of
        None \<Rightarrow> (h, idx)
      | Some p \<Rightarrow>
          if ih_data h ! p > ih_data h ! idx then ih_bubbleUp ops entity p (ih_swap ops entity p idx h) else (h, idx))"
  by pat_completeness auto
termination
proof (relation "measure (\<lambda>(ops, entity, idx, h). idx)", goal_cases)
  case 1
  then show ?case by simp
next
  case (2 ops entity idx h p)
  then show ?case by (cases idx) (auto simp: heap_parent_def split: if_splits)
qed

function ih_bubbleDown ::
  "('k, 'c) cache_ops \<Rightarrow> ('a::linorder \<Rightarrow> 'k) \<Rightarrow> nat \<Rightarrow> ('a, 'c) indexed_heap \<Rightarrow> ('a, 'c) indexed_heap \<times> nat" where
  "ih_bubbleDown ops entity idx h =
     (case ih_child h idx of
        None \<Rightarrow> (h, idx)
      | Some c \<Rightarrow>
          (let m = ih_getMinIdx h idx c (c + 1)
           in if m \<noteq> idx then ih_bubbleDown ops entity m (ih_swap ops entity m idx h) else (h, idx)))"
  by pat_completeness auto
termination
proof (relation "measure (\<lambda>(ops, entity, idx, h). ih_size h - idx)", goal_cases)
  case 1
  then show ?case by simp
next
  case (2 ops entity idx h c m)
  then show ?case using getMinIdx_cases [of "ih_data h" "ih_size h" idx c "c + 1"]
    by (auto simp: heap_child_def split: if_splits)
qed

declare ih_bubbleUp.simps [simp del] ih_bubbleDown.simps [simp del]

definition ih_update ::
  "('k, 'c) cache_ops \<Rightarrow> ('a::linorder \<Rightarrow> 'k) \<Rightarrow> nat \<Rightarrow> 'a \<Rightarrow> ('a, 'c) indexed_heap \<Rightarrow> ('a, 'c) indexed_heap \<times> nat" where
  "ih_update ops entity idx newVal h =
     (let oldVal = ih_data h ! idx;
          h1 = h\<lparr>ih_data := (ih_data h)[idx := newVal]\<rparr>
      in if oldVal < newVal then ih_bubbleDown ops entity idx h1 else ih_bubbleUp ops entity idx h1)"

definition ih_insert ::
  "('k, 'c) cache_ops \<Rightarrow> ('a::linorder \<Rightarrow> 'k) \<Rightarrow> 'a \<Rightarrow> ('a, 'c) indexed_heap \<Rightarrow> ('a, 'c) indexed_heap \<times> nat" where
  "ih_insert ops entity val h =
     (let (h1, idx) =
        (if ih_size h \<ge> length (ih_data h) then
           ih_bubbleDown ops entity 0
             (h\<lparr>ih_cache := cc_erase ops (entity (ih_data h ! 0)) (ih_cache h), ih_data := (ih_data h)[0 := val]\<rparr>)
         else
           ih_bubbleUp ops entity (ih_size h + 1 - 1)
             (h\<lparr>ih_data := (ih_data h)[ih_size h := val], ih_size := ih_size h + 1\<rparr>))
      in (h1\<lparr>ih_cache := cc_insert ops (entity val) idx (ih_cache h1)\<rparr>, idx))"

definition ih_peek :: "('a, 'c) indexed_heap \<Rightarrow> 'a" where
  "ih_peek h = ih_data h ! 0"

definition ih_find :: "('k, 'c) cache_ops \<Rightarrow> 'k \<Rightarrow> ('a, 'c) indexed_heap \<Rightarrow> nat option" where
  "ih_find ops key h = cc_find ops (ih_cache h) key"

section \<open>Refinement of the plain heap\<close>

definition plain :: "('a, 'c) indexed_heap \<Rightarrow> 'a heap" where
  "plain h = \<lparr>hp_data = ih_data h, hp_size = ih_size h\<rparr>"

lemma plain_sel [simp]: "hp_data (plain h) = ih_data h" "hp_size (plain h) = ih_size h"
  by (simp_all add: plain_def)

lemma bubbleUp_plain:
  "ih_bubbleUp ops entity k h = (h', k') \<Longrightarrow>
   bubbleUp (ih_size h) k (ih_data h) = (ih_data h', k') \<and> ih_size h' = ih_size h"
proof (induction ops entity k h arbitrary: h' k' rule: ih_bubbleUp.induct)
  case (1 ops entity k h)
  show ?case
  proof (cases "heap_parent (ih_size h) k")
    case None
    then show ?thesis using 1(2) bubbleUp.simps [of "ih_size h" k "ih_data h"] by (auto simp: ih_bubbleUp.simps [of _ _ k])
  next
    case (Some p)
    then show ?thesis
      using 1(1) [of p h' k'] 1(2) bubbleUp.simps [of "ih_size h" k "ih_data h"]
      by (auto simp: ih_bubbleUp.simps [of _ _ k] split: if_splits)
  qed
qed

lemma bubbleDown_plain:
  "ih_bubbleDown ops entity k h = (h', k') \<Longrightarrow>
   bubbleDown (ih_size h) k (ih_data h) = (ih_data h', k') \<and> ih_size h' = ih_size h"
proof (induction ops entity k h arbitrary: h' k' rule: ih_bubbleDown.induct)
  case (1 ops entity k h)
  show ?case
  proof (cases "heap_child (ih_size h) k")
    case None
    then show ?thesis using 1(2) bubbleDown.simps [of "ih_size h" k "ih_data h"] by (auto simp: ih_bubbleDown.simps [of _ _ k])
  next
    case (Some c)
    then show ?thesis
      using 1(1) [of c "getMinIdx (ih_data h) (ih_size h) k c (c + 1)" h' k'] 1(2)
        bubbleDown.simps [of "ih_size h" k "ih_data h"]
      by (auto simp: ih_bubbleDown.simps [of _ _ k] Let_def split: if_splits)
  qed
qed

lemma insert_plain: "ih_insert ops entity x h = (h', i) \<Longrightarrow> heap_insert x (plain h) = (i, plain h')"
  by (auto simp: ih_insert_def heap_insert_def plain_def Let_def split: if_splits prod.splits
      dest!: bubbleUp_plain bubbleDown_plain)

lemma update_plain: "ih_update ops entity k x h = (h', i) \<Longrightarrow> heap_update k x (plain h) = (i, plain h')"
  by (auto simp: ih_update_def heap_update_def plain_def Let_def split: if_splits prod.splits
      dest!: bubbleUp_plain bubbleDown_plain)

section \<open>The index\<close>

text \<open>
  What the heap relies on of the cache: it is a map with room for \<open>cap\<close> keys. An insertion of a key that is present, or
  into a cache that has room, stores the value; an erased key is gone; nothing else changes.
\<close>

definition bounded_map :: "('k, 'c) cache_ops \<Rightarrow> nat \<Rightarrow> bool" where
  "bounded_map ops cap \<longleftrightarrow>
     (\<forall>c k v. finite (dom (cc_find ops c)) \<longrightarrow> k \<in> dom (cc_find ops c) \<or> card (dom (cc_find ops c)) < cap \<longrightarrow>
        cc_find ops (cc_insert ops k v c) = (cc_find ops c)(k \<mapsto> v)) \<and>
     (\<forall>c k. cc_find ops (cc_erase ops k c) = (cc_find ops c)(k := None))"

definition entities :: "('a \<Rightarrow> 'k) \<Rightarrow> nat \<Rightarrow> 'a list \<Rightarrow> 'k set" where
  "entities entity n d = (\<lambda>i. entity (d ! i)) ` {..<n}"

text \<open>
  The index is right for the first \<open>n\<close> elements, except that the elements at positions in \<open>S\<close> may be missing from it: an element that
  is on its way to its place is entered at its first swap or after the loop.
\<close>

definition indexed :: "('a \<Rightarrow> 'k) \<Rightarrow> nat \<Rightarrow> 'a list \<Rightarrow> nat set \<Rightarrow> ('k \<Rightarrow> nat option) \<Rightarrow> bool" where
  "indexed entity n d S f \<longleftrightarrow>
     inj_on (\<lambda>i. entity (d ! i)) {..<n} \<and>
     (\<forall>i < n. i \<notin> S \<longrightarrow> f (entity (d ! i)) = Some i) \<and>
     (\<forall>k i. f k = Some i \<longrightarrow> i < n \<and> entity (d ! i) = k)"

lemma insert_fits:
  assumes "bounded_map ops cap" "n \<le> cap" "dom (cc_find ops c) \<subseteq> entities entity n d" "k \<in> entities entity n d"
  shows "cc_find ops (cc_insert ops k v c) = (cc_find ops c)(k \<mapsto> v)"
proof -
  have fin: "finite (entities entity n d)" by (simp add: entities_def)
  have "card (dom (cc_find ops c)) < cap" if "k \<notin> dom (cc_find ops c)"
  proof -
    have "card (dom (cc_find ops c)) < card (entities entity n d)"
      using assms(3,4) that by (intro psubset_card_mono fin) auto
    also have "\<dots> \<le> n" using card_image_le [of "{..<n}"] by (simp add: entities_def)
    finally show ?thesis using assms(2) by simp
  qed
  then show ?thesis using assms(1) finite_subset [OF assms(3) fin] unfolding bounded_map_def by blast
qed

lemma indexed_dom: "indexed entity n d S f \<Longrightarrow> dom f \<subseteq> entities entity n d"
  by (force simp: indexed_def entities_def)

lemma indexed_mono: "indexed entity n d S f \<Longrightarrow> S \<subseteq> T \<Longrightarrow> indexed entity n d T f"
  by (auto simp: indexed_def)

lemma entities_in_use: "n \<le> length d \<Longrightarrow> entities entity n d = entity ` set_mset (in_use n d)"
  by (simp add: entities_def in_use_def image_image atLeast0LessThan flip: nth_image)

lemma entities_swap:
  assumes "i < n" "j < n" "n \<le> length d"
  shows "entities entity n (swap_at i j d) = entities entity n d"
  using assms by (simp add: entities_in_use in_use_swap)

lemma indexed_swap:
  assumes "indexed entity n d {i} f" "i < n" "j < n" "n \<le> length d"
  shows "indexed entity n (swap_at j i d) {} (f(entity (swap_at j i d ! j) \<mapsto> j, entity (swap_at j i d ! i) \<mapsto> i))"
proof -
  have nth: "swap_at j i d ! k = d ! (if k = j then i else if k = i then j else k)" for k
    using assms by (simp add: nth_swap_at)
  have inj: "entity (d ! a) = entity (d ! b) \<longleftrightarrow> a = b" if "a < n" "b < n" for a b
    using assms(1) that by (auto simp: indexed_def inj_on_def)
  show ?thesis
    using assms inj unfolding indexed_def nth by (auto simp: inj_on_def split: if_splits)
qed

lemma ih_swap_indexed:
  assumes "bounded_map ops cap" "ih_size h \<le> cap" "ih_size h \<le> length (ih_data h)" "i < ih_size h" "j < ih_size h"
    and "indexed entity (ih_size h) (ih_data h) {i} (cc_find ops (ih_cache h))"
  shows "indexed entity (ih_size h) (swap_at j i (ih_data h)) {} (cc_find ops (ih_cache (ih_swap ops entity j i h)))"
proof -
  let ?d = "swap_at j i (ih_data h)" and ?n = "ih_size h"
  have E: "entities entity ?n ?d = entities entity ?n (ih_data h)" by (rule entities_swap) (use assms in auto)
  have mem: "entity (?d ! k) \<in> entities entity ?n ?d" if "k < ?n" for k using that by (auto simp: entities_def)
  have 1: "cc_find ops (cc_insert ops (entity (?d ! j)) j (ih_cache h)) = (cc_find ops (ih_cache h))(entity (?d ! j) \<mapsto> j)"
    using indexed_dom [OF assms(6)] mem [OF assms(5)] E by (intro insert_fits [OF assms(1,2)]) auto
  have 2: "cc_find ops (cc_insert ops (entity (?d ! i)) i (cc_insert ops (entity (?d ! j)) j (ih_cache h))) =
      (cc_find ops (ih_cache h))(entity (?d ! j) \<mapsto> j, entity (?d ! i) \<mapsto> i)"
    using indexed_dom [OF assms(6)] mem [OF assms(4)] mem [OF assms(5)] E
    by (subst insert_fits [OF assms(1,2), where d = ?d and entity = entity]) (auto simp: 1)
  show ?thesis using indexed_swap [OF assms(6,4,5,3)] by (simp add: ih_swap_def Let_def 2)
qed

text \<open>An element moves by swaps; when it rests the index is right again, and it is right for the moved element if it was at the start.\<close>

definition moved :: "('k, 'c) cache_ops \<Rightarrow> ('a \<Rightarrow> 'k) \<Rightarrow> bool \<Rightarrow> ('a, 'c) indexed_heap \<Rightarrow> nat \<Rightarrow> 'a \<Rightarrow> bool" where
  "moved ops entity new h k x \<longleftrightarrow> k < ih_size h \<and> ih_size h \<le> length (ih_data h) \<and> ih_data h ! k = x \<and>
     indexed entity (ih_size h) (ih_data h) (if new then {k} else {}) (cc_find ops (ih_cache h))"

lemma moved_swap:
  assumes "bounded_map ops cap" "ih_size h \<le> cap" "moved ops entity new h k x" "j < ih_size h"
  shows "moved ops entity new (ih_swap ops entity j k h) j x"
proof -
  have "indexed entity (ih_size h) (ih_data h) {k} (cc_find ops (ih_cache h))"
    by (rule indexed_mono [of _ _ _ "if new then {k} else {}"]) (use assms(3) in \<open>simp_all add: moved_def\<close>)
  from ih_swap_indexed [OF assms(1,2) _ _ assms(4) this] assms(3)
  have "indexed entity (ih_size h) (swap_at j k (ih_data h)) {} (cc_find ops (ih_cache (ih_swap ops entity j k h)))"
    by (simp add: moved_def)
  then have "indexed entity (ih_size h) (swap_at j k (ih_data h)) (if new then {j} else {}) (cc_find ops (ih_cache (ih_swap ops entity j k h)))"
    by (rule indexed_mono) simp
  then show ?thesis using assms(3,4) by (auto simp: moved_def nth_swap_at)
qed

lemma bubbleUp_moved:
  "\<lbrakk>bounded_map ops cap; ih_size h \<le> cap; moved ops entity new h k x; ih_bubbleUp ops entity k h = (h', k')\<rbrakk> \<Longrightarrow>
   moved ops entity new h' k' x"
proof (induction ops entity k h arbitrary: h' k' rule: ih_bubbleUp.induct)
  case (1 ops entity k h)
  show ?case
  proof (cases "\<exists>p. heap_parent (ih_size h) k = Some p \<and> ih_data h ! p > ih_data h ! k")
    case True
    then obtain p where p: "heap_parent (ih_size h) k = Some p" "ih_data h ! p > ih_data h ! k" by blast
    have "p < ih_size h" using p(1) 1(4) by (auto simp: heap_parent_def moved_def split: if_splits)
    from 1(1) [OF _ p(2) 1(2) _ moved_swap [OF 1(2-4) this]] p 1(3,5) show ?thesis
      by (simp add: ih_bubbleUp.simps [of _ _ k])
  next
    case False
    then have "h' = h \<and> k' = k" using 1(5) by (auto simp: ih_bubbleUp.simps [of _ _ k] split: option.splits if_splits)
    with 1(4) show ?thesis by simp
  qed
qed

lemma bubbleDown_moved:
  "\<lbrakk>bounded_map ops cap; ih_size h \<le> cap; moved ops entity new h k x; ih_bubbleDown ops entity k h = (h', k')\<rbrakk> \<Longrightarrow>
   moved ops entity new h' k' x"
proof (induction ops entity k h arbitrary: h' k' rule: ih_bubbleDown.induct)
  case (1 ops entity k h)
  show ?case
  proof (cases "\<exists>c. heap_child (ih_size h) k = Some c \<and> getMinIdx (ih_data h) (ih_size h) k c (c + 1) \<noteq> k")
    case True
    then obtain c where c: "heap_child (ih_size h) k = Some c" "getMinIdx (ih_data h) (ih_size h) k c (c + 1) \<noteq> k" by blast
    let ?m = "getMinIdx (ih_data h) (ih_size h) k c (c + 1)"
    have "c < ih_size h" using c(1) by (auto simp: heap_child_def split: if_splits)
    then have "?m < ih_size h" by (rule getMinIdx_le(4) [OF refl]) (use 1(4) in \<open>simp add: moved_def\<close>)
    from 1(1) [OF _ _ _ 1(2) _ moved_swap [OF 1(2-4) this]] c 1(3,5) show ?thesis
      by (simp add: ih_bubbleDown.simps [of _ _ k] Let_def)
  next
    case False
    then have "h' = h \<and> k' = k" using 1(5) by (auto simp: ih_bubbleDown.simps [of _ _ k] Let_def split: option.splits if_splits)
    with 1(4) show ?thesis by simp
  qed
qed

text \<open>The state between two calls: a heap whose entities are distinct and all in the index, in a cache that is large enough.\<close>

definition ih_ok :: "('k, 'c) cache_ops \<Rightarrow> ('a::linorder \<Rightarrow> 'k) \<Rightarrow> ('a, 'c) indexed_heap \<Rightarrow> bool" where
  "ih_ok ops entity h \<longleftrightarrow> heap_ok (plain h) \<and> 
     indexed entity (ih_size h) (ih_data h) {} (cc_find ops (ih_cache h))"

lemma ih_ok_find:
  "ih_ok ops entity h \<Longrightarrow> ih_find ops k h = Some i \<longleftrightarrow> i < ih_size h \<and> entity (ih_data h ! i) = k"
  by (auto simp: ih_ok_def indexed_def ih_find_def)

lemma indexed_update:
  assumes "indexed entity n d {} f" "k < n" "n \<le> length d" "entity x = entity (d ! k)"
  shows "indexed entity n (d[k := x]) {} f"
proof -
  have "entity (d[k := x] ! i) = entity (d ! i)" for i using assms(2-4) by (simp add: nth_list_update)
  then show ?thesis using assms(1) by (simp add: indexed_def)
qed

lemma ih_update_ok:
  assumes "bounded_map ops cap" "length (ih_data h) \<le> cap" "ih_ok ops entity h"
    and "k < ih_size h" "entity x = entity (ih_data h ! k)" "ih_update ops entity k x h = (h', i)"
  shows "ih_ok ops entity h' \<and> i < ih_size h' \<and> ih_data h' ! i = x"
proof -
  have ok: "heap_ok (plain h')" using heap_update_correct [OF _ _ update_plain [OF assms(6)]] assms(3,4) by (simp add: ih_ok_def)
  let ?h = "h\<lparr>ih_data := (ih_data h)[k := x]\<rparr>"
  have n: "ih_size h \<le> length (ih_data h)" using assms(3) by (simp add: ih_ok_def heap_ok_def)
  have "moved ops entity False ?h k x"
    using indexed_update [OF _ assms(4) n assms(5)] assms(3,4) n by (simp add: moved_def ih_ok_def)
  moreover have "ih_size ?h \<le> cap" using n assms(2) by simp
  ultimately have "moved ops entity False h' i x"
    using bubbleUp_moved [OF assms(1)] bubbleDown_moved [OF assms(1)] assms(6)
    unfolding ih_update_def Let_def by (metis (full_types))
  with ok show ?thesis by (simp add: ih_ok_def moved_def)
qed

lemma indexed_append:
  assumes "indexed entity n d {} f" "n < length d" "entity x \<notin> entities entity n d"
  shows "indexed entity (Suc n) (d[n := x]) {n} f"
proof -
  have e: "entity x \<noteq> entity (d ! i)" if "i < n" for i using assms(3) that by (auto simp: entities_def)
  have old: "d[n := x] ! i = d ! i" if "i < n" for i using that by simp
  have new: "d[n := x] ! n = x" using assms(2) by simp
  have "inj_on (\<lambda>i. entity (d[n := x] ! i)) {..<Suc n}"
  proof -
    have "inj_on (\<lambda>i. entity (d[n := x] ! i)) {..<n}"
      using assms(1) inj_on_cong [of "{..<n}" "\<lambda>i. entity (d[n := x] ! i)" "\<lambda>i. entity (d ! i)"] by (simp add: indexed_def old)
    moreover have "entity x \<notin> (\<lambda>i. entity (d[n := x] ! i)) ` {..<n}" using e by (auto simp: old)
    ultimately show ?thesis by (simp add: lessThan_Suc new)
  qed
  moreover have "\<forall>i < Suc n. i \<notin> {n} \<longrightarrow> f (entity (d[n := x] ! i)) = Some i"
    using assms(1) by (auto simp: indexed_def less_Suc_eq)
  moreover have "\<forall>k i. f k = Some i \<longrightarrow> i < Suc n \<and> entity (d[n := x] ! i) = k"
    using assms(1) old unfolding indexed_def by (metis less_SucI)
  ultimately show ?thesis unfolding indexed_def by blast
qed

lemma indexed_replace:
  assumes "indexed entity n d {} f" "0 < n" "n \<le> length d" "entity x \<notin> (\<lambda>i. entity (d ! i)) ` {1..<n}"
  shows "indexed entity n (d[0 := x]) {0} (f(entity (d ! 0) := None))"
proof -
  have e: "entity x \<noteq> entity (d ! i)" if "0 < i" "i < n" for i
    using assms(4) that by (auto simp: image_iff Suc_le_eq)
  have inj: "entity (d ! a) = entity (d ! b) \<longleftrightarrow> a = b" if "a < n" "b < n" for a b
    using assms(1) that by (auto simp: indexed_def inj_on_def)
  have nth: "d[0 := x] ! i = (if i = 0 then x else d ! i)" if "i < n" for i using that assms(2,3) by (cases d) auto
  have "inj_on (\<lambda>i. entity (d[0 := x] ! i)) {..<n}"
  proof (rule inj_onI)
    fix a b assume ab: "a \<in> {..<n}" "b \<in> {..<n}" "entity (d[0 := x] ! a) = entity (d[0 := x] ! b)"
    then show "a = b" using e [of a] e [of b] inj [of a b] by (cases "a = 0"; cases "b = 0") (auto simp: nth)
  qed
  then show ?thesis using assms(1) inj nth assms(2) by (auto simp: indexed_def)
qed

lemma moved_enter:
  assumes "bounded_map ops cap" "ih_size h \<le> cap" "moved ops entity True h k x"
  shows "indexed entity (ih_size h) (ih_data h) {} (cc_find ops (cc_insert ops (entity x) k (ih_cache h)))"
proof -
  have i: "indexed entity (ih_size h) (ih_data h) {k} (cc_find ops (ih_cache h))" "k < ih_size h" "ih_data h ! k = x"
    using assms(3) by (simp_all add: moved_def)
  have "cc_find ops (cc_insert ops (entity x) k (ih_cache h)) = (cc_find ops (ih_cache h))(entity x \<mapsto> k)"
    by (rule insert_fits [OF assms(1,2) indexed_dom [OF i(1)]]) (use i in \<open>auto simp: entities_def\<close>)
  with i show ?thesis by (auto simp: indexed_def inj_on_def)
qed

text \<open>An element may be inserted when no other element has its entity; the root, which a full heap replaces, does not count.\<close>

definition fresh :: "('a \<Rightarrow> 'k) \<Rightarrow> 'a \<Rightarrow> ('a, 'c) indexed_heap \<Rightarrow> bool" where
  "fresh entity x h \<longleftrightarrow> (\<forall>i < ih_size h. entity (ih_data h ! i) = entity x \<longrightarrow> i = 0 \<and> ih_size h = length (ih_data h))"

lemma ih_insert_ok:
  assumes "bounded_map ops cap" "length (ih_data h) \<le> cap" "0 < length (ih_data h)" "ih_ok ops entity h"
    and "fresh entity x h" "ih_insert ops entity x h = (h', i)"
  shows "ih_ok ops entity h' \<and> i < ih_size h' \<and> ih_data h' ! i = x"
proof -
  have n: "ih_size h \<le> length (ih_data h)" and ix: "indexed entity (ih_size h) (ih_data h) {} (cc_find ops (ih_cache h))"
    and ok: "heap_ok (plain h)"
    using assms(4) by (simp_all add: ih_ok_def heap_ok_def)
  let ?full = "h\<lparr>ih_cache := cc_erase ops (entity (ih_data h ! 0)) (ih_cache h), ih_data := (ih_data h)[0 := x]\<rparr>"
  let ?more = "h\<lparr>ih_data := (ih_data h)[ih_size h := x], ih_size := ih_size h + 1\<rparr>"
  have "\<exists>h1. h' = h1\<lparr>ih_cache := cc_insert ops (entity x) i (ih_cache h1)\<rparr> \<and> moved ops entity True h1 i x \<and> ih_size h1 \<le> cap \<and>
      heap_ok (plain h')"
  proof (cases "ih_size h < length (ih_data h)")
    case True
    obtain h1 where h1: "ih_bubbleUp ops entity (ih_size h) ?more = (h1, i)" "h' = h1\<lparr>ih_cache := cc_insert ops (entity x) i (ih_cache h1)\<rparr>"
      using assms(6) True by (auto simp: ih_insert_def split: prod.splits)
    have "moved ops entity True ?more (ih_size h) x"
    proof -
      have "entity x \<notin> entities entity (ih_size h) (ih_data h)" using assms(5) True by (auto simp: entities_def fresh_def)
      from indexed_append [OF ix True this] show ?thesis using True by (simp add: moved_def)
    qed
    from bubbleUp_moved [OF assms(1) _ this h1(1)] have "moved ops entity True h1 i x" using True assms(2) by simp
    moreover have "ih_size h1 \<le> cap" using bubbleUp_plain [OF h1(1)] True assms(2) by simp
    moreover have "heap_ok (plain h')"
      using heap_insert_correct [OF ok _ insert_plain [OF assms(6)]] True by (simp add: heap_room_def)
    ultimately show ?thesis using h1(2) by blast
  next
    case False
    then have s: "ih_size h = length (ih_data h)" using n by simp
    obtain h1 where h1: "ih_bubbleDown ops entity 0 ?full = (h1, i)" "h' = h1\<lparr>ih_cache := cc_insert ops (entity x) i (ih_cache h1)\<rparr>"
      using assms(6) False by (auto simp: ih_insert_def split: prod.splits)
    have "entity x \<notin> (\<lambda>i. entity (ih_data h ! i)) ` {1..<ih_size h}" using assms(5) by (auto simp: fresh_def)
    from indexed_replace [OF ix _ n this] have "moved ops entity True ?full 0 x"
      using assms(1,3) s by (simp add: moved_def bounded_map_def)
    from bubbleDown_moved [OF assms(1) _ this h1(1)] have "moved ops entity True h1 i x" using n assms(2) by simp
    moreover have "ih_size h1 \<le> cap" using bubbleDown_plain [OF h1(1)] n assms(2) by simp
    moreover have "heap_ok (plain h')"
      using heap_insert_full [OF ok _ _ insert_plain [OF assms(6)]] s assms(3) by simp
    ultimately show ?thesis using h1(2) by blast
  qed
  then obtain h1 where h1: "h' = h1\<lparr>ih_cache := cc_insert ops (entity x) i (ih_cache h1)\<rparr>" "moved ops entity True h1 i x"
    "ih_size h1 \<le> cap" "heap_ok (plain h')" by blast
  from moved_enter [OF assms(1) h1(3,2)] h1 show ?thesis by (simp add: ih_ok_def moved_def)
qed

section \<open>Sequences of calls\<close>

lemma length_bubbleUp: "length (fst (bubbleUp n k d)) = length d"
  by (induction n k d rule: bubbleUp.induct) (subst bubbleUp.simps, simp split: option.split)

lemma length_bubbleDown: "length (fst (bubbleDown n k d)) = length d"
  by (induction n k d rule: bubbleDown.induct) (subst bubbleDown.simps, simp add: Let_def split: option.split)

lemma length_ih_bubble [simp]:
  "length (ih_data (fst (ih_bubbleUp ops entity k h))) = length (ih_data h)"
  "length (ih_data (fst (ih_bubbleDown ops entity k h))) = length (ih_data h)"
  using bubbleUp_plain [of ops entity k h] length_bubbleUp [of "ih_size h" k "ih_data h"]
    bubbleDown_plain [of ops entity k h] length_bubbleDown [of "ih_size h" k "ih_data h"]
  by (metis fst_conv surj_pair)+

lemma length_ih_ops [simp]:
  "length (ih_data (fst (ih_insert ops entity x h))) = length (ih_data h)"
  "length (ih_data (fst (ih_update ops entity k x h))) = length (ih_data h)"
  by (simp_all add: ih_insert_def ih_update_def Let_def split_beta)

text \<open>The calls of a client that keeps entities distinct: it inserts new entities and updates the values of known ones.\<close>

inductive ih_step :: "('k, 'c) cache_ops \<Rightarrow> ('a::linorder \<Rightarrow> 'k) \<Rightarrow> ('a, 'c) indexed_heap \<Rightarrow> ('a, 'c) indexed_heap \<Rightarrow> bool"
  for ops entity where
  put: "fresh entity x h \<Longrightarrow> ih_step ops entity h (fst (ih_insert ops entity x h))"
| set: "\<lbrakk>k < ih_size h; entity x = entity (ih_data h ! k)\<rbrakk> \<Longrightarrow> ih_step ops entity h (fst (ih_update ops entity k x h))"

lemma ih_step_ok:
  assumes "ih_step ops entity h h'" "bounded_map ops cap" "length (ih_data h) \<le> cap" "0 < length (ih_data h)" "ih_ok ops entity h"
  shows "ih_ok ops entity h' \<and> length (ih_data h') = length (ih_data h)"
  using assms(1)
proof cases
  case (put x)
  then show ?thesis using ih_insert_ok [OF assms(2-5) put(2)] by (cases "ih_insert ops entity x h") (simp, metis fst_conv length_ih_ops(1))
next
  case (set k x)
  then show ?thesis using ih_update_ok [OF assms(2,3,5) set(2,3)] by (cases "ih_update ops entity k x h") (simp, metis fst_conv length_ih_ops(2))
qed

lemma ih_steps_ok:
  assumes "(ih_step ops entity)\<^sup>*\<^sup>* h0 h" "bounded_map ops cap" "length (ih_data h0) \<le> cap" "0 < length (ih_data h0)" "ih_ok ops entity h0"
  shows "ih_ok ops entity h \<and> length (ih_data h) = length (ih_data h0)"
  using assms(1)
proof (induction rule: rtranclp_induct)
  case base
  show ?case using assms by simp
next
  case (step h h')
  then show ?case using ih_step_ok [OF step(2) assms(2)] assms(3,4) by simp
qed

text \<open>
  C5: The index of the heap is exact. Start from an empty heap and an empty cache with room for as many keys as the heap holds
  elements, and make any sequence of calls that insert entities not in the heap, at capacity or not, and update elements of entities that are.
  Then \<open>find\<close> returns a position for a key exactly when an element of that entity is there, the
  elements are in heap order, and \<open>peek\<close> returns a smallest one.
\<close>

theorem indexed_heap_finds:
  assumes "bounded_map ops cap" "length d \<le> cap" "0 < length d" "cc_find ops c = Map.empty"
    and "(ih_step ops entity)\<^sup>*\<^sup>* (ih_new c d) h"
  shows "(ih_find ops k h = Some i \<longleftrightarrow> i < ih_size h \<and> entity (ih_getItem h i) = k) \<and>
    heap_ok (plain h) \<and> (i < ih_size h \<longrightarrow> ih_peek h \<le> ih_getItem h i)"
proof -
  have "ih_ok ops entity (ih_new c d)"
    using assms(4) by (auto simp: ih_ok_def ih_new_def heap_ok_def heap_ordered_def indexed_def)
  then have ok: "ih_ok ops entity h" using ih_steps_ok [OF assms(5,1)] assms(2,3) by (simp add: ih_new_def)
  then show ?thesis
    using ih_ok_find [OF ok] heap_root_least [of "ih_size h" "ih_data h"]
    by (auto simp: ih_ok_def heap_ok_def ih_getItem_def ih_peek_def)
qed

definition map_cache :: "('k, 'k \<Rightarrow> nat option) cache_ops" where
  "map_cache = \<lparr>cc_insert = \<lambda>k v c. c(k \<mapsto> v), cc_erase = \<lambda>k c. c(k := None), cc_find = id\<rparr>"

lemma indexed_heap_finds_witness:
  "ih_find map_cache (5 :: nat) (fst (ih_insert map_cache (\<lambda>x. x mod 10) 15
     (fst (ih_insert map_cache (\<lambda>x. x mod 10) 27 (ih_new Map.empty [0, 0 :: nat]))))) = Some 0"
proof -
  let ?e = "\<lambda>x :: nat. x mod 10" and ?h0 = "ih_new Map.empty [0, 0 :: nat]"
  let ?h1 = "fst (ih_insert map_cache ?e 27 ?h0)"
  let ?h2 = "fst (ih_insert map_cache ?e 15 ?h1)"
  have h1: "ih_size ?h1 = 1" "ih_data ?h1 = [27, 0]"
    by (simp_all add: ih_insert_def ih_new_def ih_bubbleUp.simps heap_parent_def)
  have h2: "ih_size ?h2 = 2" "ih_data ?h2 = [15, 27]"
    using h1 by (simp_all add: ih_insert_def [of _ _ 15] ih_bubbleUp.simps [of _ _ "Suc 0"] ih_bubbleUp.simps [of _ _ 0] heap_parent_def
        swap_at_def split_beta)
  have "ih_step map_cache ?e ?h0 ?h1" by (rule ih_step.put) (simp add: fresh_def ih_new_def)
  moreover have "ih_step map_cache ?e ?h1 ?h2" by (rule ih_step.put) (simp add: fresh_def h1)
  ultimately have "(ih_step map_cache ?e)\<^sup>*\<^sup>* ?h0 ?h2" by (simp add: converse_rtranclp_into_rtranclp)
  moreover have "bounded_map (map_cache :: (nat, nat \<Rightarrow> nat option) cache_ops) 2" by (simp add: bounded_map_def map_cache_def)
  moreover have "cc_find (map_cache :: (nat, nat \<Rightarrow> nat option) cache_ops) Map.empty = Map.empty" by (simp add: map_cache_def)
  ultimately show ?thesis
    using indexed_heap_finds [of map_cache 2 "[0, 0 :: nat]" Map.empty ?e ?h2 5 0] h2 by (simp add: ih_getItem_def)
qed

end
