(* ===== verification/Rxe_Hdr.thy ===== *)
theory Rxe_Hdr
  imports Custom_Ring
begin

unbundle bit_operations_syntax

text \<open>
  The InfiniBand transport headers of \<open>src/nica/hls/rxe_hdr.h\<close> and the byte order conversions of
  \<open>src/nica/hls/linux_types.h\<close>. A header is a record of the integers that lie in memory; \<open>__be16\<close>, \<open>__be32\<close> and \<open>__be64\<close> members hold the bytes
  of the wire read as integers of a little-endian processor. A getter \<open>__hhh_fff\<close> of the source is \<open>hhh_fff\<close> here, a setter \<open>__hhh_set_fff\<close> is
  \<open>hhh_set_fff\<close>. The truth values that the source passes as \<open>int\<close> or \<open>u8\<close> are words that are tested against zero.
\<close>

section \<open>Byte order\<close>

definition be16_to_cpu :: "16 word \<Rightarrow> 16 word" where
  "be16_to_cpu i = drop_bit 8 i OR push_bit 8 i"

definition cpu_to_be16 :: "16 word \<Rightarrow> 16 word" where
  "cpu_to_be16 i = be16_to_cpu i"

definition be32_to_cpu :: "32 word \<Rightarrow> 32 word" where
  "be32_to_cpu i = ucast (be16_to_cpu (ucast (drop_bit 16 i))) OR push_bit 16 (ucast (be16_to_cpu (ucast i)))"

definition cpu_to_be32 :: "32 word \<Rightarrow> 32 word" where
  "cpu_to_be32 i = be32_to_cpu i"

definition be64_to_cpu :: "64 word \<Rightarrow> 64 word" where
  "be64_to_cpu i = ucast (be32_to_cpu (ucast (drop_bit 32 i))) OR push_bit 32 (ucast (be32_to_cpu (ucast i)))"

definition cpu_to_be64 :: "64 word \<Rightarrow> 64 word" where
  "cpu_to_be64 i = be64_to_cpu i"

lemma bit_be16: "bit (be16_to_cpu x) n \<longleftrightarrow> n < 16 \<and> bit x (if n < 8 then n + 8 else n - 8)"
  using bit_imp_le_length [of x "n + 8"] by (auto simp: be16_to_cpu_def bit_simps add.commute)

lemma bit_be32: "bit (be32_to_cpu x) n \<longleftrightarrow> n < 32 \<and> bit x (if n < 8 then n + 24 else if n < 16 then n + 8 else if n < 24 then n - 8 else n - 24)"
proof -
  have "n < 8 \<or> 8 \<le> n \<and> n < 16 \<or> 16 \<le> n \<and> n < 24 \<or> 24 \<le> n \<and> n < 32 \<or> 32 \<le> n" by linarith
  then show ?thesis by (elim disjE) (auto simp: be32_to_cpu_def bit_simps bit_be16 add.commute)
qed

lemma be16_inverse [simp]: "be16_to_cpu (be16_to_cpu x) = x" "cpu_to_be16 (be16_to_cpu x) = x" "be16_to_cpu (cpu_to_be16 x) = x"
proof -
  have "bit (be16_to_cpu (be16_to_cpu x)) n \<longleftrightarrow> bit x n" if "n < 16" for n
    using that by (cases "n < 8") (auto simp: bit_be16)
  then show *: "be16_to_cpu (be16_to_cpu x) = x" by (intro bit_word_eqI) simp
  then show "cpu_to_be16 (be16_to_cpu x) = x" "be16_to_cpu (cpu_to_be16 x) = x" by (simp_all add: cpu_to_be16_def)
qed

lemma be32_inverse [simp]: "be32_to_cpu (be32_to_cpu x) = x" "cpu_to_be32 (be32_to_cpu x) = x" "be32_to_cpu (cpu_to_be32 x) = x"
proof -
  have "bit (be32_to_cpu (be32_to_cpu x)) n \<longleftrightarrow> bit x n" if "n < 32" for n
    using that by (cases "n < 8"; cases "n < 16"; cases "n < 24") (auto simp: bit_be32)
  then show *: "be32_to_cpu (be32_to_cpu x) = x" by (intro bit_word_eqI) simp
  then show "cpu_to_be32 (be32_to_cpu x) = x" "be32_to_cpu (cpu_to_be32 x) = x" by (simp_all add: cpu_to_be32_def)
qed

lemma be32_hom:
  "be32_to_cpu (x OR y) = be32_to_cpu x OR be32_to_cpu y"
  "be32_to_cpu (x AND y) = be32_to_cpu x AND be32_to_cpu y"
  "be32_to_cpu (NOT x) = NOT (be32_to_cpu x)"
  by (auto simp: bit_be32 bit_simps intro!: bit_word_eqI)

lemma be32_eq_iff [simp]: "be32_to_cpu x = be32_to_cpu y \<longleftrightarrow> x = y" "cpu_to_be32 x = cpu_to_be32 y \<longleftrightarrow> x = y"
  by (metis be32_inverse(1), metis be32_inverse(3))

lemma be32_zero [simp]: "be32_to_cpu 0 = 0"
  by (rule bit_word_eqI) (simp add: bit_be32)

lemma ucast_be32: "ucast (be64_to_cpu x) = be32_to_cpu (ucast (drop_bit 32 x))" "ucast (drop_bit 32 (be64_to_cpu x)) = be32_to_cpu (ucast x)"
  by (auto simp: be64_to_cpu_def bit_simps bit_be32 intro!: bit_word_eqI)

lemma be64_inverse [simp]: "be64_to_cpu (be64_to_cpu x) = x" "cpu_to_be64 (be64_to_cpu x) = x" "be64_to_cpu (cpu_to_be64 x) = x"
proof -
  show *: "be64_to_cpu (be64_to_cpu x) = x"
    unfolding be64_to_cpu_def [of "be64_to_cpu x"] ucast_be32 be32_inverse
    by (auto simp: bit_simps intro!: bit_word_eqI)
  then show "cpu_to_be64 (be64_to_cpu x) = x" "be64_to_cpu (cpu_to_be64 x) = x" by (simp_all add: cpu_to_be64_def)
qed

section \<open>Base Transport Header\<close>

record rxe_bth =
  rb_opcode :: "8 word"
  rb_flags :: "8 word"
  rb_pkey :: "16 word"
  rb_qpn :: "32 word"
  rb_apsn :: "32 word"

definition BTH_SE_MASK :: "8 word" where "BTH_SE_MASK = 0x80"

definition BTH_MIG_MASK :: "8 word" where "BTH_MIG_MASK = 0x40"

definition BTH_PAD_MASK :: "8 word" where "BTH_PAD_MASK = 0x30"

definition BTH_TVER_MASK :: "8 word" where "BTH_TVER_MASK = 0x0f"

definition BTH_FECN_MASK :: "32 word" where "BTH_FECN_MASK = 0x80000000"

definition BTH_BECN_MASK :: "32 word" where "BTH_BECN_MASK = 0x40000000"

definition BTH_RESV6A_MASK :: "32 word" where "BTH_RESV6A_MASK = 0x3f000000"

definition BTH_QPN_MASK :: "32 word" where "BTH_QPN_MASK = 0x00ffffff"

definition BTH_ACK_MASK :: "32 word" where "BTH_ACK_MASK = 0x80000000"

definition BTH_RESV7_MASK :: "32 word" where "BTH_RESV7_MASK = 0x7f000000"

definition BTH_PSN_MASK :: "32 word" where "BTH_PSN_MASK = 0x00ffffff"

definition bth_opcode :: "rxe_bth \<Rightarrow> 8 word" where
  "bth_opcode bth = rb_opcode bth"

definition bth_set_opcode :: "8 word \<Rightarrow> rxe_bth \<Rightarrow> rxe_bth" where
  "bth_set_opcode opcode bth = bth\<lparr>rb_opcode := opcode\<rparr>"

definition bth_se :: "rxe_bth \<Rightarrow> 8 word" where
  "bth_se bth = of_bool (0 \<noteq> BTH_SE_MASK AND rb_flags bth)"

definition bth_set_se :: "32 word \<Rightarrow> rxe_bth \<Rightarrow> rxe_bth" where
  "bth_set_se se bth =
     (if se \<noteq> 0 then bth\<lparr>rb_flags := rb_flags bth OR BTH_SE_MASK\<rparr> else bth\<lparr>rb_flags := rb_flags bth AND NOT BTH_SE_MASK\<rparr>)"

definition bth_mig :: "rxe_bth \<Rightarrow> 8 word" where
  "bth_mig bth = of_bool (0 \<noteq> BTH_MIG_MASK AND rb_flags bth)"

definition bth_set_mig :: "8 word \<Rightarrow> rxe_bth \<Rightarrow> rxe_bth" where
  "bth_set_mig mig bth =
     (if mig \<noteq> 0 then bth\<lparr>rb_flags := rb_flags bth OR BTH_MIG_MASK\<rparr> else bth\<lparr>rb_flags := rb_flags bth AND NOT BTH_MIG_MASK\<rparr>)"

definition bth_pad_count :: "rxe_bth \<Rightarrow> 8 word" where
  "bth_pad_count bth = drop_bit 4 (BTH_PAD_MASK AND rb_flags bth)"

definition bth_set_pad :: "8 word \<Rightarrow> rxe_bth \<Rightarrow> rxe_bth" where
  "bth_set_pad pad bth = bth\<lparr>rb_flags := (BTH_PAD_MASK AND push_bit 4 pad) OR (NOT BTH_PAD_MASK AND rb_flags bth)\<rparr>"

definition bth_tver :: "rxe_bth \<Rightarrow> 8 word" where
  "bth_tver bth = BTH_TVER_MASK AND rb_flags bth"

definition bth_set_tver :: "8 word \<Rightarrow> rxe_bth \<Rightarrow> rxe_bth" where
  "bth_set_tver tver bth = bth\<lparr>rb_flags := (BTH_TVER_MASK AND tver) OR (NOT BTH_TVER_MASK AND rb_flags bth)\<rparr>"

definition bth_pkey :: "rxe_bth \<Rightarrow> 16 word" where
  "bth_pkey bth = be16_to_cpu (rb_pkey bth)"

definition bth_set_pkey :: "16 word \<Rightarrow> rxe_bth \<Rightarrow> rxe_bth" where
  "bth_set_pkey pkey bth = bth\<lparr>rb_pkey := cpu_to_be16 pkey\<rparr>"

definition bth_qpn :: "rxe_bth \<Rightarrow> 32 word" where
  "bth_qpn bth = BTH_QPN_MASK AND be32_to_cpu (rb_qpn bth)"

definition bth_set_qpn :: "32 word \<Rightarrow> rxe_bth \<Rightarrow> rxe_bth" where
  "bth_set_qpn qpn bth =
     (let resvqpn = be32_to_cpu (rb_qpn bth)
      in bth\<lparr>rb_qpn := cpu_to_be32 ((BTH_QPN_MASK AND qpn) OR (NOT BTH_QPN_MASK AND resvqpn))\<rparr>)"

definition bth_fecn :: "rxe_bth \<Rightarrow> 32 word" where
  "bth_fecn bth = of_bool (0 \<noteq> cpu_to_be32 BTH_FECN_MASK AND rb_qpn bth)"

definition bth_set_fecn :: "32 word \<Rightarrow> rxe_bth \<Rightarrow> rxe_bth" where
  "bth_set_fecn fecn bth =
     (if fecn \<noteq> 0 then bth\<lparr>rb_qpn := rb_qpn bth OR cpu_to_be32 BTH_FECN_MASK\<rparr>
      else bth\<lparr>rb_qpn := rb_qpn bth AND NOT (cpu_to_be32 BTH_FECN_MASK)\<rparr>)"

definition bth_becn :: "rxe_bth \<Rightarrow> 32 word" where
  "bth_becn bth = of_bool (0 \<noteq> cpu_to_be32 BTH_BECN_MASK AND rb_qpn bth)"

definition bth_set_becn :: "32 word \<Rightarrow> rxe_bth \<Rightarrow> rxe_bth" where
  "bth_set_becn becn bth =
     (if becn \<noteq> 0 then bth\<lparr>rb_qpn := rb_qpn bth OR cpu_to_be32 BTH_BECN_MASK\<rparr>
      else bth\<lparr>rb_qpn := rb_qpn bth AND NOT (cpu_to_be32 BTH_BECN_MASK)\<rparr>)"

definition bth_resv6a :: "rxe_bth \<Rightarrow> 8 word" where
  "bth_resv6a bth = ucast (drop_bit 24 (BTH_RESV6A_MASK AND be32_to_cpu (rb_qpn bth)))"

definition bth_set_resv6a :: "rxe_bth \<Rightarrow> rxe_bth" where
  "bth_set_resv6a bth = bth\<lparr>rb_qpn := cpu_to_be32 (NOT BTH_RESV6A_MASK)\<rparr>"

definition bth_ack :: "rxe_bth \<Rightarrow> 32 word" where
  "bth_ack bth = of_bool (0 \<noteq> cpu_to_be32 BTH_ACK_MASK AND rb_apsn bth)"

definition bth_set_ack :: "32 word \<Rightarrow> rxe_bth \<Rightarrow> rxe_bth" where
  "bth_set_ack ack bth =
     (if ack \<noteq> 0 then bth\<lparr>rb_apsn := rb_apsn bth OR cpu_to_be32 BTH_ACK_MASK\<rparr>
      else bth\<lparr>rb_apsn := rb_apsn bth AND NOT (cpu_to_be32 BTH_ACK_MASK)\<rparr>)"

definition bth_set_resv7 :: "rxe_bth \<Rightarrow> rxe_bth" where
  "bth_set_resv7 bth = bth\<lparr>rb_apsn := rb_apsn bth AND NOT (cpu_to_be32 BTH_RESV7_MASK)\<rparr>"

definition bth_psn :: "rxe_bth \<Rightarrow> 32 word" where
  "bth_psn bth = BTH_PSN_MASK AND be32_to_cpu (rb_apsn bth)"

definition bth_set_psn :: "32 word \<Rightarrow> rxe_bth \<Rightarrow> rxe_bth" where
  "bth_set_psn psn bth =
     (let apsn = be32_to_cpu (rb_apsn bth)
      in bth\<lparr>rb_apsn := cpu_to_be32 ((BTH_PSN_MASK AND psn) OR (NOT BTH_PSN_MASK AND apsn))\<rparr>)"

section \<open>Extended transport headers\<close>

record rxe_rdeth =
  rd_een :: "32 word"

definition RDETH_EEN_MASK :: "32 word" where "RDETH_EEN_MASK = 0x00ffffff"

definition rdeth_een :: "rxe_rdeth \<Rightarrow> 8 word" where
  "rdeth_een rdeth = ucast (RDETH_EEN_MASK AND be32_to_cpu (rd_een rdeth))"

definition rdeth_set_een :: "32 word \<Rightarrow> rxe_rdeth \<Rightarrow> rxe_rdeth" where
  "rdeth_set_een een rdeth = rdeth\<lparr>rd_een := cpu_to_be32 (RDETH_EEN_MASK AND een)\<rparr>"

record rxe_deth =
  de_qkey :: "32 word"
  de_sqp :: "32 word"

definition DETH_SQP_MASK :: "32 word" where "DETH_SQP_MASK = 0x00ffffff"

definition deth_qkey :: "rxe_deth \<Rightarrow> 32 word" where
  "deth_qkey deth = be32_to_cpu (de_qkey deth)"

definition deth_set_qkey :: "32 word \<Rightarrow> rxe_deth \<Rightarrow> rxe_deth" where
  "deth_set_qkey v deth = deth\<lparr>de_qkey := cpu_to_be32 v\<rparr>"

definition deth_sqp :: "rxe_deth \<Rightarrow> 32 word" where
  "deth_sqp deth = DETH_SQP_MASK AND be32_to_cpu (de_sqp deth)"

definition deth_set_sqp :: "32 word \<Rightarrow> rxe_deth \<Rightarrow> rxe_deth" where
  "deth_set_sqp sqp deth = deth\<lparr>de_sqp := cpu_to_be32 (DETH_SQP_MASK AND sqp)\<rparr>"

record rxe_reth =
  re_va :: "64 word"
  re_rkey :: "32 word"
  re_len :: "32 word"

definition reth_va :: "rxe_reth \<Rightarrow> 64 word" where
  "reth_va reth = be64_to_cpu (re_va reth)"

definition reth_set_va :: "64 word \<Rightarrow> rxe_reth \<Rightarrow> rxe_reth" where
  "reth_set_va v reth = reth\<lparr>re_va := cpu_to_be64 v\<rparr>"

definition reth_rkey :: "rxe_reth \<Rightarrow> 32 word" where
  "reth_rkey reth = be32_to_cpu (re_rkey reth)"

definition reth_set_rkey :: "32 word \<Rightarrow> rxe_reth \<Rightarrow> rxe_reth" where
  "reth_set_rkey v reth = reth\<lparr>re_rkey := cpu_to_be32 v\<rparr>"

definition reth_len :: "rxe_reth \<Rightarrow> 32 word" where
  "reth_len reth = be32_to_cpu (re_len reth)"

definition reth_set_len :: "32 word \<Rightarrow> rxe_reth \<Rightarrow> rxe_reth" where
  "reth_set_len v reth = reth\<lparr>re_len := cpu_to_be32 v\<rparr>"

record rxe_atmeth =
  at_va :: "64 word"
  at_rkey :: "32 word"
  at_swap_add :: "64 word"
  at_comp :: "64 word"

definition atmeth_va :: "rxe_atmeth \<Rightarrow> 64 word" where
  "atmeth_va atmeth = be64_to_cpu (at_va atmeth)"

definition atmeth_set_va :: "64 word \<Rightarrow> rxe_atmeth \<Rightarrow> rxe_atmeth" where
  "atmeth_set_va v atmeth = atmeth\<lparr>at_va := cpu_to_be64 v\<rparr>"

definition atmeth_rkey :: "rxe_atmeth \<Rightarrow> 32 word" where
  "atmeth_rkey atmeth = be32_to_cpu (at_rkey atmeth)"

definition atmeth_set_rkey :: "32 word \<Rightarrow> rxe_atmeth \<Rightarrow> rxe_atmeth" where
  "atmeth_set_rkey v atmeth = atmeth\<lparr>at_rkey := cpu_to_be32 v\<rparr>"

definition atmeth_swap_add :: "rxe_atmeth \<Rightarrow> 64 word" where
  "atmeth_swap_add atmeth = be64_to_cpu (at_swap_add atmeth)"

definition atmeth_set_swap_add :: "64 word \<Rightarrow> rxe_atmeth \<Rightarrow> rxe_atmeth" where
  "atmeth_set_swap_add v atmeth = atmeth\<lparr>at_swap_add := cpu_to_be64 v\<rparr>"

definition atmeth_comp :: "rxe_atmeth \<Rightarrow> 64 word" where
  "atmeth_comp atmeth = be64_to_cpu (at_comp atmeth)"

definition atmeth_set_comp :: "64 word \<Rightarrow> rxe_atmeth \<Rightarrow> rxe_atmeth" where
  "atmeth_set_comp v atmeth = atmeth\<lparr>at_comp := cpu_to_be64 v\<rparr>"

record rxe_aeth =
  ae_smsn :: "32 word"

definition AETH_SYN_MASK :: "32 word" where "AETH_SYN_MASK = 0xff000000"

definition AETH_MSN_MASK :: "32 word" where "AETH_MSN_MASK = 0x00ffffff"

definition aeth_syn :: "rxe_aeth \<Rightarrow> 8 word" where
  "aeth_syn aeth = ucast (drop_bit 24 (AETH_SYN_MASK AND be32_to_cpu (ae_smsn aeth)))"

definition aeth_set_syn :: "8 word \<Rightarrow> rxe_aeth \<Rightarrow> rxe_aeth" where
  "aeth_set_syn syn aeth =
     (let smsn = be32_to_cpu (ae_smsn aeth)
      in aeth\<lparr>ae_smsn := cpu_to_be32 ((AETH_SYN_MASK AND push_bit 24 (ucast syn)) OR (NOT AETH_SYN_MASK AND smsn))\<rparr>)"

definition aeth_msn :: "rxe_aeth \<Rightarrow> 32 word" where
  "aeth_msn aeth = AETH_MSN_MASK AND be32_to_cpu (ae_smsn aeth)"

definition aeth_set_msn :: "32 word \<Rightarrow> rxe_aeth \<Rightarrow> rxe_aeth" where
  "aeth_set_msn v aeth =
     (let smsn = be32_to_cpu (ae_smsn aeth)
      in aeth\<lparr>ae_smsn := cpu_to_be32 ((AETH_MSN_MASK AND v) OR (NOT AETH_MSN_MASK AND smsn))\<rparr>)"

record rxe_atmack =
  ak_orig :: "64 word"

definition atmack_orig :: "rxe_atmack \<Rightarrow> 64 word" where
  "atmack_orig atmack = be64_to_cpu (ak_orig atmack)"

definition atmack_set_orig :: "64 word \<Rightarrow> rxe_atmack \<Rightarrow> rxe_atmack" where
  "atmack_set_orig v atmack = atmack\<lparr>ak_orig := cpu_to_be64 v\<rparr>"

record rxe_immdt =
  im_imm :: "32 word"

definition immdt_imm :: "rxe_immdt \<Rightarrow> 32 word" where
  "immdt_imm immdt = im_imm immdt"

definition immdt_set_imm :: "32 word \<Rightarrow> rxe_immdt \<Rightarrow> rxe_immdt" where
  "immdt_set_imm v immdt = immdt\<lparr>im_imm := v\<rparr>"

record rxe_ieth =
  ie_rkey :: "32 word"

definition ieth_rkey :: "rxe_ieth \<Rightarrow> 32 word" where
  "ieth_rkey ieth = be32_to_cpu (ie_rkey ieth)"

definition ieth_set_rkey :: "32 word \<Rightarrow> rxe_ieth \<Rightarrow> rxe_ieth" where
  "ieth_set_rkey v ieth = ieth\<lparr>ie_rkey := cpu_to_be32 v\<rparr>"

section \<open>Headers as sets of fields\<close>

text \<open>
  What the accessors of a header promise: a field that is written is read back as far as the field holds it, and the other
  fields keep their value. Then after any sequence of writes every field has the last value written to it.
\<close>

locale header_fields =
  fixes get :: "'f \<Rightarrow> 's \<Rightarrow> 64 word"
    and put :: "'f \<Rightarrow> 64 word \<Rightarrow> 's \<Rightarrow> 's"
    and held :: "'f \<Rightarrow> 64 word \<Rightarrow> 64 word"
  assumes get_put: "get f (put g v s) = (if f = g then held f v else get f s)"
begin

lemma get_puts:
  "get f (fold (\<lambda>(g, v). put g v) fvs s) = (case map_of (rev fvs) f of None \<Rightarrow> get f s | Some v \<Rightarrow> held f v)"
proof (induction fvs arbitrary: s)
  case (Cons a fvs)
  then show ?case by (cases a) (simp add: get_put map_add_def split: option.split)
qed simp

end

datatype bth_field = F_OPCODE | F_SE | F_MIG | F_PAD | F_TVER | F_PKEY | F_QPN | F_FECN | F_BECN | F_ACK | F_PSN

fun bth_get :: "bth_field \<Rightarrow> rxe_bth \<Rightarrow> 64 word" where
  "bth_get F_OPCODE b = ucast (bth_opcode b)"
| "bth_get F_SE b = ucast (bth_se b)"
| "bth_get F_MIG b = ucast (bth_mig b)"
| "bth_get F_PAD b = ucast (bth_pad_count b)"
| "bth_get F_TVER b = ucast (bth_tver b)"
| "bth_get F_PKEY b = ucast (bth_pkey b)"
| "bth_get F_QPN b = ucast (bth_qpn b)"
| "bth_get F_FECN b = ucast (bth_fecn b)"
| "bth_get F_BECN b = ucast (bth_becn b)"
| "bth_get F_ACK b = ucast (bth_ack b)"
| "bth_get F_PSN b = ucast (bth_psn b)"

fun bth_put :: "bth_field \<Rightarrow> 64 word \<Rightarrow> rxe_bth \<Rightarrow> rxe_bth" where
  "bth_put F_OPCODE v b = bth_set_opcode (ucast v) b"
| "bth_put F_SE v b = bth_set_se (ucast v) b"
| "bth_put F_MIG v b = bth_set_mig (ucast v) b"
| "bth_put F_PAD v b = bth_set_pad (ucast v) b"
| "bth_put F_TVER v b = bth_set_tver (ucast v) b"
| "bth_put F_PKEY v b = bth_set_pkey (ucast v) b"
| "bth_put F_QPN v b = bth_set_qpn (ucast v) b"
| "bth_put F_FECN v b = bth_set_fecn (ucast v) b"
| "bth_put F_BECN v b = bth_set_becn (ucast v) b"
| "bth_put F_ACK v b = bth_set_ack (ucast v) b"
| "bth_put F_PSN v b = bth_set_psn (ucast v) b"

text \<open>What a field holds of a value: flags hold whether it is nonzero in the width of the parameter, numbers their low bits.\<close>

fun bth_held :: "bth_field \<Rightarrow> 64 word \<Rightarrow> 64 word" where
  "bth_held F_OPCODE v = take_bit 8 v"
| "bth_held F_SE v = of_bool (take_bit 32 v \<noteq> 0)"
| "bth_held F_MIG v = of_bool (take_bit 8 v \<noteq> 0)"
| "bth_held F_PAD v = take_bit 2 v"
| "bth_held F_TVER v = take_bit 4 v"
| "bth_held F_PKEY v = take_bit 16 v"
| "bth_held F_QPN v = take_bit 24 v"
| "bth_held F_FECN v = of_bool (take_bit 32 v \<noteq> 0)"
| "bth_held F_BECN v = of_bool (take_bit 32 v \<noteq> 0)"
| "bth_held F_ACK v = of_bool (take_bit 32 v \<noteq> 0)"
| "bth_held F_PSN v = take_bit 24 v"

lemmas bth_masks = BTH_SE_MASK_def BTH_MIG_MASK_def BTH_PAD_MASK_def BTH_TVER_MASK_def BTH_FECN_MASK_def BTH_BECN_MASK_def
  BTH_RESV6A_MASK_def BTH_QPN_MASK_def BTH_ACK_MASK_def BTH_RESV7_MASK_def BTH_PSN_MASK_def

lemma mask_words:
  "(0x00ffffff :: 32 word) = mask 24" "(0x0f :: 8 word) = mask 4" "(0x80 :: 8 word) = 2 ^ 7" "(0x40 :: 8 word) = 2 ^ 6"
  "(0x30 :: 8 word) = push_bit 4 (mask 2)" "(0x80000000 :: 32 word) = 2 ^ 31" "(0x40000000 :: 32 word) = 2 ^ 30"
  "(0x3f000000 :: 32 word) = push_bit 24 (mask 6)" "(0x7f000000 :: 32 word) = push_bit 24 (mask 7)"
  "(0xff000000 :: 32 word) = push_bit 24 (mask 8)"
  by (simp_all add: mask_eq_exp_minus_1 push_bit_eq_mult)

lemma test_be32: "0 \<noteq> cpu_to_be32 (2 ^ n) AND x \<longleftrightarrow> bit (be32_to_cpu x) n"
proof -
  have "0 \<noteq> cpu_to_be32 (2 ^ n) AND x \<longleftrightarrow> be32_to_cpu (cpu_to_be32 (2 ^ n) AND x) \<noteq> be32_to_cpu 0" by (simp only: be32_eq_iff) auto
  also have "\<dots> \<longleftrightarrow> bit (be32_to_cpu x) n"
    using and_exp_eq_0_iff_not_bit [of "be32_to_cpu x" n] by (simp add: be32_hom and.commute)
  finally show ?thesis .
qed

lemma test_bit: "0 \<noteq> 2 ^ n AND x \<longleftrightarrow> bit x n" for x :: "'a::len word"
  using and_exp_eq_0_iff_not_bit [of x n] by (auto simp: and.commute)

lemma bth_flag_gets:
  "bth_se b = of_bool (bit (rb_flags b) 7)" "bth_mig b = of_bool (bit (rb_flags b) 6)"
  "bth_fecn b = of_bool (bit (be32_to_cpu (rb_qpn b)) 31)" "bth_becn b = of_bool (bit (be32_to_cpu (rb_qpn b)) 30)"
  "bth_ack b = of_bool (bit (be32_to_cpu (rb_apsn b)) 31)"
  by (simp_all only: bth_se_def bth_mig_def bth_fecn_def bth_becn_def bth_ack_def bth_masks mask_words test_be32 test_bit)

lemma bth_number_gets:
  "bit (bth_pad_count b) n \<longleftrightarrow> n < 2 \<and> bit (rb_flags b) (n + 4)" "bit (bth_tver b) n \<longleftrightarrow> n < 4 \<and> bit (rb_flags b) n"
  "bit (bth_qpn b) n \<longleftrightarrow> n < 24 \<and> bit (be32_to_cpu (rb_qpn b)) n" "bit (bth_psn b) n \<longleftrightarrow> n < 24 \<and> bit (be32_to_cpu (rb_apsn b)) n"
  by (auto simp: bth_pad_count_def bth_tver_def bth_qpn_def bth_psn_def bth_masks mask_words bit_simps add.commute)

text \<open>The words of the header after a write, bit by bit in the order of the processor.\<close>

lemma bit_merge: "bit ((mask k AND v) OR (NOT (mask k) AND x)) n \<longleftrightarrow> (if n < k then bit v n else bit x n)" for x :: "'a::len word"
  by (auto simp: bit_simps dest: bit_imp_le_length)

lemma bit_set_flag: "m < LENGTH('a) \<Longrightarrow> bit (x OR 2 ^ m) n \<longleftrightarrow> n = m \<or> bit x n" for x :: "'a::len word"
  by (auto simp: bit_simps dest: bit_imp_le_length)

lemma bit_clear_flag: "bit (x AND NOT (2 ^ m)) n \<longleftrightarrow> n \<noteq> m \<and> bit x n" for x :: "'a::len word"
  by (auto simp: bit_simps dest: bit_imp_le_length)

lemma bth_merges:
  "bit ((BTH_QPN_MASK AND v) OR (NOT BTH_QPN_MASK AND x)) n \<longleftrightarrow> (if n < 24 then bit v n else bit x n)"
  "bit ((BTH_PSN_MASK AND v) OR (NOT BTH_PSN_MASK AND x)) n \<longleftrightarrow> (if n < 24 then bit v n else bit x n)"
  "bit ((BTH_TVER_MASK AND u) OR (NOT BTH_TVER_MASK AND y)) n \<longleftrightarrow> (if n < 4 then bit u n else bit y n)"
  by (simp_all only: bth_masks mask_words bit_merge)

lemma bth_pad_merge:
  "bit ((BTH_PAD_MASK AND push_bit 4 u) OR (NOT BTH_PAD_MASK AND x)) n \<longleftrightarrow> (if 4 \<le> n \<and> n < 6 then bit u (n - 4) else bit x n)"
  unfolding bth_masks mask_words by (auto simp: bit_simps dest: bit_imp_le_length)

lemma bth_flag_ops:
  "bit (x OR BTH_SE_MASK) n \<longleftrightarrow> n = 7 \<or> bit x n" "bit (x AND NOT BTH_SE_MASK) n \<longleftrightarrow> n \<noteq> 7 \<and> bit x n"
  "bit (x OR BTH_MIG_MASK) n \<longleftrightarrow> n = 6 \<or> bit x n" "bit (x AND NOT BTH_MIG_MASK) n \<longleftrightarrow> n \<noteq> 6 \<and> bit x n"
  "bit (y OR BTH_FECN_MASK) n \<longleftrightarrow> n = 31 \<or> bit y n" "bit (y AND NOT BTH_FECN_MASK) n \<longleftrightarrow> n \<noteq> 31 \<and> bit y n"
  "bit (y OR BTH_BECN_MASK) n \<longleftrightarrow> n = 30 \<or> bit y n" "bit (y AND NOT BTH_BECN_MASK) n \<longleftrightarrow> n \<noteq> 30 \<and> bit y n"
  "bit (y OR BTH_ACK_MASK) n \<longleftrightarrow> n = 31 \<or> bit y n" "bit (y AND NOT BTH_ACK_MASK) n \<longleftrightarrow> n \<noteq> 31 \<and> bit y n"
  unfolding bth_masks mask_words by (rule bit_set_flag bit_clear_flag; simp)+

lemma bth_flags_put:
  "bit (rb_flags (bth_set_se v b)) n \<longleftrightarrow> (if n = 7 then v \<noteq> 0 else bit (rb_flags b) n)"
  "bit (rb_flags (bth_set_mig u b)) n \<longleftrightarrow> (if n = 6 then u \<noteq> 0 else bit (rb_flags b) n)"
  "bit (rb_flags (bth_set_pad u b)) n \<longleftrightarrow> (if 4 \<le> n \<and> n < 6 then bit u (n - 4) else bit (rb_flags b) n)"
  "bit (rb_flags (bth_set_tver u b)) n \<longleftrightarrow> (if n < 4 then bit u n else bit (rb_flags b) n)"
  by (simp_all add: bth_set_se_def bth_set_mig_def bth_set_pad_def bth_set_tver_def bth_merges bth_pad_merge bth_flag_ops)

lemma bth_qpn_put:
  "bit (be32_to_cpu (rb_qpn (bth_set_qpn v b))) n \<longleftrightarrow> (if n < 24 then bit v n else bit (be32_to_cpu (rb_qpn b)) n)"
  "bit (be32_to_cpu (rb_qpn (bth_set_fecn v b))) n \<longleftrightarrow> (if n = 31 then v \<noteq> 0 else bit (be32_to_cpu (rb_qpn b)) n)"
  "bit (be32_to_cpu (rb_qpn (bth_set_becn v b))) n \<longleftrightarrow> (if n = 30 then v \<noteq> 0 else bit (be32_to_cpu (rb_qpn b)) n)"
  by (simp_all add: bth_set_qpn_def bth_set_fecn_def bth_set_becn_def Let_def be32_hom bth_merges bth_flag_ops)

lemma bth_apsn_put:
  "bit (be32_to_cpu (rb_apsn (bth_set_psn v b))) n \<longleftrightarrow> (if n < 24 then bit v n else bit (be32_to_cpu (rb_apsn b)) n)"
  "bit (be32_to_cpu (rb_apsn (bth_set_ack v b))) n \<longleftrightarrow> (if n = 31 then v \<noteq> 0 else bit (be32_to_cpu (rb_apsn b)) n)"
  by (simp_all add: bth_set_psn_def bth_set_ack_def Let_def be32_hom bth_merges bth_flag_ops)

lemma bth_frames:
  "rb_opcode (bth_set_se v b) = rb_opcode b" "rb_opcode (bth_set_mig u b) = rb_opcode b" "rb_opcode (bth_set_pad u b) = rb_opcode b" "rb_opcode (bth_set_tver u b) = rb_opcode b" "rb_opcode (bth_set_pkey p b) = rb_opcode b" "rb_opcode (bth_set_qpn v b) = rb_opcode b" "rb_opcode (bth_set_fecn v b) = rb_opcode b" "rb_opcode (bth_set_becn v b) = rb_opcode b" "rb_opcode (bth_set_psn v b) = rb_opcode b" "rb_opcode (bth_set_ack v b) = rb_opcode b"
  "rb_flags (bth_set_opcode u b) = rb_flags b" "rb_flags (bth_set_pkey p b) = rb_flags b" "rb_flags (bth_set_qpn v b) = rb_flags b" "rb_flags (bth_set_fecn v b) = rb_flags b" "rb_flags (bth_set_becn v b) = rb_flags b" "rb_flags (bth_set_psn v b) = rb_flags b" "rb_flags (bth_set_ack v b) = rb_flags b"
  "rb_pkey (bth_set_se v b) = rb_pkey b" "rb_pkey (bth_set_mig u b) = rb_pkey b" "rb_pkey (bth_set_pad u b) = rb_pkey b" "rb_pkey (bth_set_tver u b) = rb_pkey b" "rb_pkey (bth_set_opcode u b) = rb_pkey b" "rb_pkey (bth_set_qpn v b) = rb_pkey b" "rb_pkey (bth_set_fecn v b) = rb_pkey b" "rb_pkey (bth_set_becn v b) = rb_pkey b" "rb_pkey (bth_set_psn v b) = rb_pkey b" "rb_pkey (bth_set_ack v b) = rb_pkey b"
  "rb_qpn (bth_set_se v b) = rb_qpn b" "rb_qpn (bth_set_mig u b) = rb_qpn b" "rb_qpn (bth_set_pad u b) = rb_qpn b" "rb_qpn (bth_set_tver u b) = rb_qpn b" "rb_qpn (bth_set_opcode u b) = rb_qpn b" "rb_qpn (bth_set_pkey p b) = rb_qpn b" "rb_qpn (bth_set_psn v b) = rb_qpn b" "rb_qpn (bth_set_ack v b) = rb_qpn b"
  "rb_apsn (bth_set_se v b) = rb_apsn b" "rb_apsn (bth_set_mig u b) = rb_apsn b" "rb_apsn (bth_set_pad u b) = rb_apsn b" "rb_apsn (bth_set_tver u b) = rb_apsn b" "rb_apsn (bth_set_opcode u b) = rb_apsn b" "rb_apsn (bth_set_pkey p b) = rb_apsn b" "rb_apsn (bth_set_qpn v b) = rb_apsn b" "rb_apsn (bth_set_fecn v b) = rb_apsn b" "rb_apsn (bth_set_becn v b) = rb_apsn b"
  by (simp_all add: Let_def bth_set_se_def bth_set_mig_def bth_set_pad_def bth_set_tver_def bth_set_opcode_def bth_set_pkey_def bth_set_qpn_def bth_set_fecn_def bth_set_becn_def bth_set_psn_def bth_set_ack_def)

lemma ucast_zero:
  "(ucast v :: 32 word) = 0 \<longleftrightarrow> take_bit 32 v = 0" "(ucast v :: 8 word) = 0 \<longleftrightarrow> take_bit 8 v = 0" for v :: "64 word"
  by (auto simp: bit_eq_iff bit_simps)

lemma ucast_trunc:
  "ucast (ucast v :: 8 word) = take_bit 8 v" "ucast (ucast v :: 16 word) = take_bit 16 v" "ucast (ucast v :: 32 word) = take_bit 32 v"
  for v :: "64 word"
  by (rule bit_word_eqI; auto simp: bit_simps)+

lemma bth_gets_ext:
  "(\<And>n. \<lbrakk>4 \<le> n; n < 6\<rbrakk> \<Longrightarrow> bit (rb_flags b) n = bit (rb_flags c) n) \<Longrightarrow> bth_pad_count b = bth_pad_count c"
  "(\<And>n. n < 4 \<Longrightarrow> bit (rb_flags b) n = bit (rb_flags c) n) \<Longrightarrow> bth_tver b = bth_tver c"
  "(\<And>n. n < 24 \<Longrightarrow> bit (be32_to_cpu (rb_qpn b)) n = bit (be32_to_cpu (rb_qpn c)) n) \<Longrightarrow> bth_qpn b = bth_qpn c"
  "(\<And>n. n < 24 \<Longrightarrow> bit (be32_to_cpu (rb_apsn b)) n = bit (be32_to_cpu (rb_apsn c)) n) \<Longrightarrow> bth_psn b = bth_psn c"
  by (rule bit_word_eqI; auto simp: bth_number_gets)+

lemmas bth_puts = bth_flags_put bth_qpn_put bth_apsn_put bth_frames

lemma bth_number_other:
  "g \<noteq> F_PAD \<Longrightarrow> bth_pad_count (bth_put g v b) = bth_pad_count b"
  "g \<noteq> F_TVER \<Longrightarrow> bth_tver (bth_put g v b) = bth_tver b"
  "g \<noteq> F_QPN \<Longrightarrow> bth_qpn (bth_put g v b) = bth_qpn b"
  "g \<noteq> F_PSN \<Longrightarrow> bth_psn (bth_put g v b) = bth_psn b"
  by (cases g; auto simp: bth_puts intro!: bth_gets_ext)+

lemma bth_number_same:
  "ucast (bth_pad_count (bth_put F_PAD v b)) = take_bit 2 v" "ucast (bth_tver (bth_put F_TVER v b)) = take_bit 4 v"
  "ucast (bth_qpn (bth_put F_QPN v b)) = take_bit 24 v" "ucast (bth_psn (bth_put F_PSN v b)) = take_bit 24 v"
  by (rule bit_word_eqI; auto simp: bit_simps bth_number_gets bth_puts)+

interpretation bth: header_fields bth_get bth_put bth_held
proof
  fix f g v b
  show "bth_get f (bth_put g v b) = (if f = g then bth_held f v else bth_get f b)"
  proof (cases "f \<in> {F_PAD, F_TVER, F_QPN, F_PSN}")
    case True
    then show ?thesis using bth_number_other [of g v b] bth_number_same [of v b] by auto
  next
    case False
    then show ?thesis
      by (cases f; cases g) (simp_all add: bth_flag_gets bth_puts bth_opcode_def bth_set_opcode_def bth_pkey_def bth_set_pkey_def
          ucast_zero ucast_trunc)
  qed
qed

section \<open>Opcodes of the Base Transport Header\<close>

text \<open>
  The constants of \<open>src/nica/hls/ib_pack.h\<close>: an opcode is the sum of the code of a transport and the code of an operation
  (the macro \<open>IB_OPCODE\<close>), and the enumeration lists the sums that are opcodes.
\<close>

datatype ib_transport = IB_RC | IB_UC | IB_RD | IB_UD | IB_CNP | IB_MSP

fun ib_transport_code :: "ib_transport \<Rightarrow> 8 word" where
  "ib_transport_code IB_RC = 0x00"
| "ib_transport_code IB_UC = 0x20"
| "ib_transport_code IB_RD = 0x40"
| "ib_transport_code IB_UD = 0x60"
| "ib_transport_code IB_CNP = 0x80"
| "ib_transport_code IB_MSP = 0xe0"

datatype ib_op =
    SEND_FIRST | SEND_MIDDLE | SEND_LAST | SEND_LAST_WITH_IMMEDIATE | SEND_ONLY | 
  SEND_ONLY_WITH_IMMEDIATE | RDMA_WRITE_FIRST | RDMA_WRITE_MIDDLE | RDMA_WRITE_LAST | RDMA_WRITE_LAST_WITH_IMMEDIATE | 
  RDMA_WRITE_ONLY | RDMA_WRITE_ONLY_WITH_IMMEDIATE | RDMA_READ_REQUEST | RDMA_READ_RESPONSE_FIRST | RDMA_READ_RESPONSE_MIDDLE | 
  RDMA_READ_RESPONSE_LAST | RDMA_READ_RESPONSE_ONLY | ACKNOWLEDGE | ATOMIC_ACKNOWLEDGE | COMPARE_SWAP | 
  FETCH_ADD | SEND_LAST_WITH_INVALIDATE | SEND_ONLY_WITH_INVALIDATE

fun ib_op_code :: "ib_op \<Rightarrow> 8 word" where
  "ib_op_code SEND_FIRST = 0x00"
| "ib_op_code SEND_MIDDLE = 0x01"
| "ib_op_code SEND_LAST = 0x02"
| "ib_op_code SEND_LAST_WITH_IMMEDIATE = 0x03"
| "ib_op_code SEND_ONLY = 0x04"
| "ib_op_code SEND_ONLY_WITH_IMMEDIATE = 0x05"
| "ib_op_code RDMA_WRITE_FIRST = 0x06"
| "ib_op_code RDMA_WRITE_MIDDLE = 0x07"
| "ib_op_code RDMA_WRITE_LAST = 0x08"
| "ib_op_code RDMA_WRITE_LAST_WITH_IMMEDIATE = 0x09"
| "ib_op_code RDMA_WRITE_ONLY = 0x0a"
| "ib_op_code RDMA_WRITE_ONLY_WITH_IMMEDIATE = 0x0b"
| "ib_op_code RDMA_READ_REQUEST = 0x0c"
| "ib_op_code RDMA_READ_RESPONSE_FIRST = 0x0d"
| "ib_op_code RDMA_READ_RESPONSE_MIDDLE = 0x0e"
| "ib_op_code RDMA_READ_RESPONSE_LAST = 0x0f"
| "ib_op_code RDMA_READ_RESPONSE_ONLY = 0x10"
| "ib_op_code ACKNOWLEDGE = 0x11"
| "ib_op_code ATOMIC_ACKNOWLEDGE = 0x12"
| "ib_op_code COMPARE_SWAP = 0x13"
| "ib_op_code FETCH_ADD = 0x14"
| "ib_op_code SEND_LAST_WITH_INVALIDATE = 0x16"
| "ib_op_code SEND_ONLY_WITH_INVALIDATE = 0x17"

definition ib_opcode :: "ib_transport \<Rightarrow> ib_op \<Rightarrow> 8 word" where
  "ib_opcode transport op = ib_transport_code transport + ib_op_code op"

definition ib_opcodes :: "(ib_transport \<times> ib_op) list" where
  "ib_opcodes =
     map (Pair IB_RC) [SEND_FIRST, SEND_MIDDLE, SEND_LAST, SEND_LAST_WITH_IMMEDIATE, 
       SEND_ONLY, SEND_ONLY_WITH_IMMEDIATE, RDMA_WRITE_FIRST, RDMA_WRITE_MIDDLE, 
       RDMA_WRITE_LAST, RDMA_WRITE_LAST_WITH_IMMEDIATE, RDMA_WRITE_ONLY, RDMA_WRITE_ONLY_WITH_IMMEDIATE, 
       RDMA_READ_REQUEST, RDMA_READ_RESPONSE_FIRST, RDMA_READ_RESPONSE_MIDDLE, RDMA_READ_RESPONSE_LAST, 
       RDMA_READ_RESPONSE_ONLY, ACKNOWLEDGE, ATOMIC_ACKNOWLEDGE, COMPARE_SWAP, 
       FETCH_ADD, SEND_LAST_WITH_INVALIDATE, SEND_ONLY_WITH_INVALIDATE] @
     map (Pair IB_UC) [SEND_FIRST, SEND_MIDDLE, SEND_LAST, SEND_LAST_WITH_IMMEDIATE, 
       SEND_ONLY, SEND_ONLY_WITH_IMMEDIATE, RDMA_WRITE_FIRST, RDMA_WRITE_MIDDLE, 
       RDMA_WRITE_LAST, RDMA_WRITE_LAST_WITH_IMMEDIATE, RDMA_WRITE_ONLY, RDMA_WRITE_ONLY_WITH_IMMEDIATE] @
     map (Pair IB_RD) [SEND_FIRST, SEND_MIDDLE, SEND_LAST, SEND_LAST_WITH_IMMEDIATE, 
       SEND_ONLY, SEND_ONLY_WITH_IMMEDIATE, RDMA_WRITE_FIRST, RDMA_WRITE_MIDDLE, 
       RDMA_WRITE_LAST, RDMA_WRITE_LAST_WITH_IMMEDIATE, RDMA_WRITE_ONLY, RDMA_WRITE_ONLY_WITH_IMMEDIATE, 
       RDMA_READ_REQUEST, RDMA_READ_RESPONSE_FIRST, RDMA_READ_RESPONSE_MIDDLE, RDMA_READ_RESPONSE_LAST, 
       RDMA_READ_RESPONSE_ONLY, ACKNOWLEDGE, ATOMIC_ACKNOWLEDGE, COMPARE_SWAP, 
       FETCH_ADD] @
     map (Pair IB_UD) [SEND_ONLY, SEND_ONLY_WITH_IMMEDIATE]"

lemma ib_opcode_parts:
  "ib_opcode t op AND 0xe0 = ib_transport_code t" "ib_opcode t op AND 0x1f = ib_op_code op"
  by (cases t; cases op; simp add: ib_opcode_def)+

lemma ib_opcode_inject: "ib_opcode t op = ib_opcode t' op' \<longleftrightarrow> t = t' \<and> op = op'"
proof -
  have "t = t'" if "ib_transport_code t = ib_transport_code t'" using that by (cases t; cases t') simp_all
  moreover have "op = op'" if "ib_op_code op = ib_op_code op'" using that by (cases op; cases op') simp_all
  ultimately show ?thesis using ib_opcode_parts by metis
qed

lemma ib_opcodes_distinct: "distinct (map (\<lambda>(t, op). ib_opcode t op) ib_opcodes)"
proof -
  have "distinct ib_opcodes" by (simp add: ib_opcodes_def)
  moreover have "inj (\<lambda>(t, op). ib_opcode t op)" by (auto simp: inj_on_def ib_opcode_inject)
  ultimately show ?thesis unfolding distinct_map by (blast intro: inj_on_subset)
qed

lemma uc_send_only: "IB_OPCODE_UC_SEND_ONLY = ib_opcode IB_UC SEND_ONLY" "(IB_UC, SEND_ONLY) \<in> set ib_opcodes"
  by (simp_all add: IB_OPCODE_UC_SEND_ONLY_def ib_opcode_def ib_opcodes_def)

section \<open>Fields of the extended headers\<close>

datatype deth_field = F_QKEY | F_SQP

fun deth_get :: "deth_field \<Rightarrow> rxe_deth \<Rightarrow> 64 word" where
  "deth_get F_QKEY x = ucast (deth_qkey x)"
| "deth_get F_SQP x = ucast (deth_sqp x)"

fun deth_put :: "deth_field \<Rightarrow> 64 word \<Rightarrow> rxe_deth \<Rightarrow> rxe_deth" where
  "deth_put F_QKEY v x = deth_set_qkey (ucast v) x"
| "deth_put F_SQP v x = deth_set_sqp (ucast v) x"

fun deth_held :: "deth_field \<Rightarrow> 64 word \<Rightarrow> 64 word" where
  "deth_held F_QKEY v = take_bit 32 v"
| "deth_held F_SQP v = take_bit 24 v"

datatype reth_field = F_VA | F_RKEY | F_LEN

fun reth_get :: "reth_field \<Rightarrow> rxe_reth \<Rightarrow> 64 word" where
  "reth_get F_VA x = reth_va x"
| "reth_get F_RKEY x = ucast (reth_rkey x)"
| "reth_get F_LEN x = ucast (reth_len x)"

fun reth_put :: "reth_field \<Rightarrow> 64 word \<Rightarrow> rxe_reth \<Rightarrow> rxe_reth" where
  "reth_put F_VA v x = reth_set_va v x"
| "reth_put F_RKEY v x = reth_set_rkey (ucast v) x"
| "reth_put F_LEN v x = reth_set_len (ucast v) x"

fun reth_held :: "reth_field \<Rightarrow> 64 word \<Rightarrow> 64 word" where
  "reth_held F_VA v = v"
| "reth_held F_RKEY v = take_bit 32 v"
| "reth_held F_LEN v = take_bit 32 v"

datatype atmeth_field = F_ATM_VA | F_ATM_RKEY | F_SWAP_ADD | F_COMP

fun atmeth_get :: "atmeth_field \<Rightarrow> rxe_atmeth \<Rightarrow> 64 word" where
  "atmeth_get F_ATM_VA x = atmeth_va x"
| "atmeth_get F_ATM_RKEY x = ucast (atmeth_rkey x)"
| "atmeth_get F_SWAP_ADD x = atmeth_swap_add x"
| "atmeth_get F_COMP x = atmeth_comp x"

fun atmeth_put :: "atmeth_field \<Rightarrow> 64 word \<Rightarrow> rxe_atmeth \<Rightarrow> rxe_atmeth" where
  "atmeth_put F_ATM_VA v x = atmeth_set_va v x"
| "atmeth_put F_ATM_RKEY v x = atmeth_set_rkey (ucast v) x"
| "atmeth_put F_SWAP_ADD v x = atmeth_set_swap_add v x"
| "atmeth_put F_COMP v x = atmeth_set_comp v x"

fun atmeth_held :: "atmeth_field \<Rightarrow> 64 word \<Rightarrow> 64 word" where
  "atmeth_held F_ATM_VA v = v"
| "atmeth_held F_ATM_RKEY v = take_bit 32 v"
| "atmeth_held F_SWAP_ADD v = v"
| "atmeth_held F_COMP v = v"

datatype aeth_field = F_SYN | F_MSN

fun aeth_get :: "aeth_field \<Rightarrow> rxe_aeth \<Rightarrow> 64 word" where
  "aeth_get F_SYN x = ucast (aeth_syn x)"
| "aeth_get F_MSN x = ucast (aeth_msn x)"

fun aeth_put :: "aeth_field \<Rightarrow> 64 word \<Rightarrow> rxe_aeth \<Rightarrow> rxe_aeth" where
  "aeth_put F_SYN v x = aeth_set_syn (ucast v) x"
| "aeth_put F_MSN v x = aeth_set_msn (ucast v) x"

fun aeth_held :: "aeth_field \<Rightarrow> 64 word \<Rightarrow> 64 word" where
  "aeth_held F_SYN v = take_bit 8 v"
| "aeth_held F_MSN v = take_bit 24 v"

lemma mask_24: "ucast (0x00ffffff AND be32_to_cpu (cpu_to_be32 (0x00ffffff AND ucast v))) = (take_bit 24 v :: 64 word)" for v :: "64 word"
  unfolding mask_words by (rule bit_word_eqI) (auto simp: bit_simps)

interpretation deth: header_fields deth_get deth_put deth_held
proof
  fix f g v x
  show "deth_get f (deth_put g v x) = (if f = g then deth_held f v else deth_get f x)"
    using mask_24 [of v]
    by (cases f; cases g) (simp_all add: deth_qkey_def deth_set_qkey_def deth_sqp_def deth_set_sqp_def DETH_SQP_MASK_def ucast_trunc)
qed

interpretation reth: header_fields reth_get reth_put reth_held
proof
  fix f g v x
  show "reth_get f (reth_put g v x) = (if f = g then reth_held f v else reth_get f x)"
    by (cases f; cases g) (simp_all add: reth_va_def reth_set_va_def reth_rkey_def reth_set_rkey_def reth_len_def reth_set_len_def ucast_trunc)
qed

interpretation atmeth: header_fields atmeth_get atmeth_put atmeth_held
proof
  fix f g v x
  show "atmeth_get f (atmeth_put g v x) = (if f = g then atmeth_held f v else atmeth_get f x)"
    by (cases f; cases g) (simp_all add: atmeth_va_def atmeth_set_va_def atmeth_rkey_def atmeth_set_rkey_def atmeth_swap_add_def
        atmeth_set_swap_add_def atmeth_comp_def atmeth_set_comp_def ucast_trunc)
qed

lemma aeth_masks: "bit AETH_MSN_MASK n \<longleftrightarrow> n < 24" "bit AETH_SYN_MASK n \<longleftrightarrow> 24 \<le> n \<and> n < 32"
  unfolding AETH_MSN_MASK_def AETH_SYN_MASK_def mask_words by (auto simp: bit_simps)

lemma aeth_gets:
  "bit (aeth_syn x) n \<longleftrightarrow> n < 8 \<and> bit (be32_to_cpu (ae_smsn x)) (24 + n)" "bit (aeth_msn x) n \<longleftrightarrow> n < 24 \<and> bit (be32_to_cpu (ae_smsn x)) n"
  unfolding aeth_syn_def aeth_msn_def AETH_MSN_MASK_def AETH_SYN_MASK_def mask_words by (auto simp: bit_simps)

interpretation aeth: header_fields aeth_get aeth_put aeth_held
proof
  fix f g v x
  have "bit (aeth_get f (aeth_put g v x)) n \<longleftrightarrow> bit (if f = g then aeth_held f v else aeth_get f x) n" if "n < 64" for n
    by (cases f; cases g) (auto simp: bit_simps aeth_gets aeth_set_syn_def aeth_set_msn_def Let_def aeth_masks)
  then show "aeth_get f (aeth_put g v x) = (if f = g then aeth_held f v else aeth_get f x)"
    by (intro bit_word_eqI) simp
qed

text \<open>
  Two accessors do not keep to this. \<open>__bth_set_resv6a\<close>, meant to clear the reserved bits, overwrites the whole word, and \<open>__rdeth_een\<close>
  returns eight of the 24 bits that \<open>__rdeth_set_een\<close> stores.
\<close>

lemma resv6a_overwrites: "bth_resv6a (bth_set_resv6a b) = 0" "bth_qpn (bth_set_resv6a b) = 0x00ffffff"
  "bth_fecn (bth_set_resv6a b) = 1" "bth_becn (bth_set_resv6a b) = 1"
  by (simp_all add: bth_resv6a_def bth_qpn_def bth_flag_gets bth_set_resv6a_def bth_masks)

lemma een_truncated: "ucast (rdeth_een (rdeth_set_een (ucast v) x)) = take_bit 8 v" for v :: "64 word"
  unfolding rdeth_een_def rdeth_set_een_def RDETH_EEN_MASK_def mask_words by (rule bit_word_eqI) (auto simp: bit_simps)

section \<open>Properties\<close>

text \<open>
  C33: The accessors of the transport headers keep fields apart. Write any sequence of fields of a Base Transport Header or of one of the extended
  headers with several fields (datagram, RDMA, atomic, acknowledge), fields repeated or not, in any order: each getter then returns the last value written
  to its field, cut to what the field holds, and the old value if none was written, although flags, pad count and version share a byte, and the queue
  pair and sequence numbers share their big-endian words with flags.
\<close>

theorem header_fields_independent:
  "bth_get f1 (fold (\<lambda>(g, v). bth_put g v) w1 b) = (case map_of (rev w1) f1 of None \<Rightarrow> bth_get f1 b | Some v \<Rightarrow> bth_held f1 v) \<and>
   deth_get f2 (fold (\<lambda>(g, v). deth_put g v) w2 d) = (case map_of (rev w2) f2 of None \<Rightarrow> deth_get f2 d | Some v \<Rightarrow> deth_held f2 v) \<and>
   reth_get f3 (fold (\<lambda>(g, v). reth_put g v) w3 r) = (case map_of (rev w3) f3 of None \<Rightarrow> reth_get f3 r | Some v \<Rightarrow> reth_held f3 v) \<and>
   atmeth_get f4 (fold (\<lambda>(g, v). atmeth_put g v) w4 a) = (case map_of (rev w4) f4 of None \<Rightarrow> atmeth_get f4 a | Some v \<Rightarrow> atmeth_held f4 v) \<and>
   aeth_get f5 (fold (\<lambda>(g, v). aeth_put g v) w5 e) = (case map_of (rev w5) f5 of None \<Rightarrow> aeth_get f5 e | Some v \<Rightarrow> aeth_held f5 v)"
  by (intro conjI bth.get_puts deth.get_puts reth.get_puts atmeth.get_puts aeth.get_puts)

text \<open>The first twelve bytes of a word on the wire as the header they are in the memory of a little-endian processor.\<close>

definition bth_in_memory :: "256 word \<Rightarrow> rxe_bth" where
  "bth_in_memory w = \<lparr>rb_opcode = ap_range 255 248 w, rb_flags = ap_range 247 240 w, rb_pkey = be16_to_cpu (ap_range 239 224 w),
     rb_qpn = be32_to_cpu (ap_range 223 192 w), rb_apsn = be32_to_cpu (ap_range 191 160 w)\<rparr>"

text \<open>
  C32: The host reads what a custom ring sends. The header word that \<open>gen_bth\<close> builds for a packet of a ring, read from memory with the accessors of the
  transport headers, has the opcode of an unreliable connected send with a single packet, the pad count of the payload, the default partition key, and the queue
  pair and packet sequence number of the ring; its event, migration, version, congestion and acknowledge bits are zero.
\<close>

theorem ring_header_read_back:
  "let b = bth_in_memory (ad_data (fst (gen_bth kb context l)))
   in bth_opcode b = ib_opcode IB_UC SEND_ONLY \<and> bth_pad_count b = ucast (bth_pad l) \<and> bth_pkey b = 0xffff \<and>
      bth_qpn b = ucast (rc_dest_qpn context) \<and> bth_psn b = ucast (rc_psn context) \<and>
      bth_se b = 0 \<and> bth_mig b = 0 \<and> bth_tver b = 0 \<and> bth_fecn b = 0 \<and> bth_becn b = 0 \<and> bth_ack b = 0"
proof -
  define b where "b = bth_in_memory (ad_data (fst (gen_bth kb context l)))"
  have qpn: "ap_range 223 192 (word_cat 0 (word_cat q (r :: 192 word) :: 216 word) :: 224 word) = (ucast q :: 32 word)"
    for q :: "24 word" and r
    by (rule bit_word_eqI) (auto simp: bit_ap_range bit_word_cat_iff bit_simps dest: bit_imp_le_length)
  have cat: "word_cat (0 :: 8 word) (x :: 216 word) = (ucast x :: 224 word)" for x
    by (rule bit_word_eqI) (auto simp: bit_word_cat_iff bit_simps dest: bit_imp_le_length)
  have words: "rb_opcode b = IB_OPCODE_UC_SEND_ONLY" "rb_flags b = push_bit 4 (ucast (bth_pad l))" "rb_pkey b = be16_to_cpu 0xffff"
    "be32_to_cpu (rb_qpn b) = ucast (rc_dest_qpn context)" "be32_to_cpu (rb_apsn b) = ucast (rc_psn context)"
    using qpn by (auto simp: b_def bth_in_memory_def gen_bth_def Let_def range_simps cat)
  have "bth_pad l = take_bit 2 (- l)" by (simp add: bth_pad_def take_bit_eq_mask mask_eq_exp_minus_1)
  then have pad: "bit (bth_pad l) n \<Longrightarrow> n < 2" for n by (simp add: bit_take_bit_iff)
  show ?thesis
    unfolding Let_def b_def [symmetric]
    by (auto simp: words bth_opcode_def uc_send_only bth_pkey_def bth_flag_gets bth_number_gets bit_simps
        intro!: bit_word_eqI dest!: pad bit_imp_le_length [of "rc_dest_qpn context"] bit_imp_le_length [of "rc_psn context"])
qed

end
