(* ===== verification/Libnica.thy ===== *)
theory Libnica
  imports Nica_Prelude
begin

unbundle bit_operations_syntax

text \<open>
  The client library \<open>src/libnica/nica.cpp\<close>, through which a host program creates ikernels, attaches sockets to them, accesses their registers and
  keeps custom rings. It talks to the manager over a stream socket with the messages of \<open>src/libnica/nicamgr.h\<close>.

  The connection is a record of the bytes that the manager has sent, of what the library has sent, and of \<open>errno\<close>. A read takes exactly as many bytes as it is
  asked for, or raises \<open>Eof\<close> when the manager closes before. An operation is a function on the connection that ends with a value or an error:
  the exception of a read, a failed \<open>assert\<close>, \<open>exit\<close> or \<open>abort\<close>, or the use of a null pointer. Structures that the source leaves uninitialised are parameters. The
  manager, the kernel (\<open>sendmsg\<close>, \<open>/sys\<close>) and the verbs library are outside this model: what they answer is an argument.
\<close>

section \<open>Messages\<close>

definition le16 :: "16 word \<Rightarrow> 8 word list" where
  "le16 w = [ucast w, ucast (drop_bit 8 w)]"

definition le32 :: "32 word \<Rightarrow> 8 word list" where
  "le32 w = [ucast w, ucast (drop_bit 8 w), ucast (drop_bit 16 w), ucast (drop_bit 24 w)]"

definition of_le16 :: "8 word list \<Rightarrow> 16 word" where
  "of_le16 bs = ucast (bs ! 0) OR push_bit 8 (ucast (bs ! 1))"

definition of_le32 :: "8 word list \<Rightarrow> 32 word" where
  "of_le32 bs = ucast (bs ! 0) OR push_bit 8 (ucast (bs ! 1)) OR push_bit 16 (ucast (bs ! 2)) OR push_bit 24 (ucast (bs ! 3))"

record nicamgr_header =
  mh_opcode :: "16 word"
  mh_length :: "16 word"
  mh_flags :: "16 word"
  mh_status :: "16 word"

definition header_bytes :: "nicamgr_header \<Rightarrow> 8 word list" where
  "header_bytes h = le16 (mh_opcode h) @ le16 (mh_length h) @ le16 (mh_flags h) @ le16 (mh_status h)"

definition header_of_bytes :: "8 word list \<Rightarrow> nicamgr_header" where
  "header_of_bytes bs = \<lparr>mh_opcode = of_le16 bs, mh_length = of_le16 (drop 2 bs), mh_flags = of_le16 (drop 4 bs), mh_status = of_le16 (drop 6 bs)\<rparr>"

datatype nicamgr_opcode =
    NICA_IK_CREATE | NICA_IK_DESTROY | NICA_IK_RPC | NICA_IK_ATTACH | NICA_IK_DETACH | NICA_CR_CREATE | NICA_CR_DESTROY
  | NICA_CR_UPDATE_CREDITS | NICA_IK_CREATE_ATTRS

fun opcode_number :: "nicamgr_opcode \<Rightarrow> 16 word" where
  "opcode_number NICA_IK_CREATE = 1"
| "opcode_number NICA_IK_DESTROY = 2"
| "opcode_number NICA_IK_RPC = 3"
| "opcode_number NICA_IK_ATTACH = 4"
| "opcode_number NICA_IK_DETACH = 5"
| "opcode_number NICA_CR_CREATE = 6"
| "opcode_number NICA_CR_DESTROY = 7"
| "opcode_number NICA_CR_UPDATE_CREDITS = 8"
| "opcode_number NICA_IK_CREATE_ATTRS = 9"

definition NICA_MANAGER_FLAG_REQUEST :: "16 word" where
  "NICA_MANAGER_FLAG_REQUEST = 1"

text \<open>The requests, as the bytes of their structures on a little-endian machine. The responses are a value of 32 bits, or two for \<open>ik_create_attrs\<close> and \<open>ik_attach\<close>.\<close>

definition nica_req_ik_create_attrs :: "32 word \<Rightarrow> 8 word list \<Rightarrow> 8 word list \<Rightarrow> 32 word \<Rightarrow> 8 word list" where
  [simp]: "nica_req_ik_create_attrs sz netdev uuid log_dram_size = le32 sz @ netdev @ uuid @ le32 log_dram_size"

definition nica_req_ik_destroy :: "32 word \<Rightarrow> 8 word list" where
  [simp]: "nica_req_ik_destroy ik = le32 ik"

definition nica_req_ik_attach :: "32 word \<Rightarrow> 8 word list" where
  [simp]: "nica_req_ik_attach ik = le32 ik"

definition nica_req_ik_rpc :: "32 word \<Rightarrow> 32 word \<Rightarrow> 32 word \<Rightarrow> bool \<Rightarrow> 8 word list" where
  [simp]: "nica_req_ik_rpc ik address v write = le32 ik @ le32 address @ le32 v @ le32 (of_bool write)"

definition nica_req_cr_create :: "32 word \<Rightarrow> 32 word \<Rightarrow> 8 word list" where
  [simp]: "nica_req_cr_create ik qp_num = le32 ik @ le32 qp_num"

definition nica_req_cr_destroy :: "32 word \<Rightarrow> 8 word list" where
  [simp]: "nica_req_cr_destroy cr = le32 cr"

definition nica_req_cr_update_credits :: "32 word \<Rightarrow> 16 word \<Rightarrow> 8 word list" where
  [simp]: "nica_req_cr_update_credits cr credits = le32 cr @ le32 (ucast credits)"

section \<open>The connection\<close>

datatype tx_item = Bytes "8 word list" | Passed_fd int

record nica_conn =
  nc_rx :: "8 word list"
  nc_tx :: "tx_item list"
  nc_errno :: "16 word"

datatype lib_error = Eof | Assertion | Exit | Null_pointer

type_synonym 'a io = "nica_conn \<Rightarrow> lib_error + 'a \<times> nica_conn"

definition io_return :: "'a \<Rightarrow> 'a io" where
  "io_return x s = Inr (x, s)"

definition io_bind :: "'a io \<Rightarrow> ('a \<Rightarrow> 'b io) \<Rightarrow> 'b io" where
  "io_bind m f s = (case m s of Inl e \<Rightarrow> Inl e | Inr (x, s') \<Rightarrow> f x s')"

definition sock_read :: "nat \<Rightarrow> 8 word list io" where
  "sock_read n s = (if length (nc_rx s) < n then Inl Eof else Inr (take n (nc_rx s), s\<lparr>nc_rx := drop n (nc_rx s)\<rparr>))"

definition sock_write :: "8 word list \<Rightarrow> unit io" where
  "sock_write bs s = Inr ((), s\<lparr>nc_tx := nc_tx s @ [Bytes bs]\<rparr>)"

definition io_assert :: "bool \<Rightarrow> unit io" where
  "io_assert b s = (if b then Inr ((), s) else Inl Assertion)"

definition set_errno :: "16 word \<Rightarrow> unit io" where
  "set_errno e s = Inr ((), s\<lparr>nc_errno := e\<rparr>)"

lemmas io_defs = io_return_def io_bind_def sock_read_def sock_write_def io_assert_def set_errno_def

text \<open>
  \<open>global_state::call\<close>: it returns its result and the response, \<open>None\<close> when the response structure of the caller is left as it was.
\<close>

definition nica_call :: "nicamgr_opcode \<Rightarrow> 8 word list \<Rightarrow> nat \<Rightarrow> int io option \<Rightarrow> (int \<times> 8 word list option) io" where
  "nica_call opcode req resp_size callback =
     io_bind (sock_write (header_bytes \<lparr>mh_opcode = opcode_number opcode, mh_length = of_nat (length req),
         mh_flags = NICA_MANAGER_FLAG_REQUEST, mh_status = 0\<rparr>)) (\<lambda>_.
     io_bind (sock_write req) (\<lambda>_.
     io_bind (case callback of None \<Rightarrow> io_return 0 | Some cb \<Rightarrow> cb) (\<lambda>ret.
     if ret \<noteq> 0 then io_return (ret, None)
     else
       io_bind (sock_read 8) (\<lambda>b.
       let hdr = header_of_bytes b
       in io_bind (io_assert (opcode_number opcode = mh_opcode hdr)) (\<lambda>_.
          io_bind (io_assert (mh_flags hdr AND NICA_MANAGER_FLAG_REQUEST = 0)) (\<lambda>_.
          if mh_status hdr \<noteq> 0 then
            io_bind (sock_read (unat (mh_length hdr))) (\<lambda>_.
            io_bind (set_errno (mh_status hdr)) (\<lambda>_. io_return (- 1, None)))
          else
            io_bind (io_assert (resp_size = unat (mh_length hdr))) (\<lambda>_.
            io_bind (sock_read resp_size) (\<lambda>resp. io_return (0, Some resp)))))))))"

section \<open>Ikernels\<close>

record host_ikernel =
  ik_uuid :: "8 word list"
  ik_handle :: "32 word"
  ik_netdev :: "8 word list"

record ik_attrs =
  ia_size :: "32 word"
  ia_log_dram_size :: "32 word"

definition IFNAMSIZ :: nat where "IFNAMSIZ = 16"

definition strncpy :: "nat \<Rightarrow> 8 word list \<Rightarrow> 8 word list" where
  "strncpy n src = take n (src @ replicate n 0)"

text \<open>The request of \<open>ik_create_attrs\<close> starts with a size that is never set and ends with the memory size, which is set if the attributes have one.\<close>

definition ik_create_attrs :: "32 word \<Rightarrow> 32 word \<Rightarrow> 8 word list \<Rightarrow> 8 word list \<Rightarrow> ik_attrs \<Rightarrow> host_ikernel option io" where
  "ik_create_attrs junk_size junk_dram netdev uuid attrs =
     (let log_dram_size = (if ia_size attrs \<ge> 4 + 4 then ia_log_dram_size attrs else junk_dram);
          req = nica_req_ik_create_attrs junk_size (strncpy IFNAMSIZ netdev) uuid log_dram_size
      in io_bind (nica_call NICA_IK_CREATE_ATTRS req 8 None) (\<lambda>(ret, resp).
         io_return (case resp of
           Some r \<Rightarrow> if ret \<noteq> 0 then None else Some \<lparr>ik_uuid = uuid, ik_handle = of_le32 (drop 4 r), ik_netdev = netdev\<rparr>
         | None \<Rightarrow> None)))"

definition ik_create :: "32 word \<Rightarrow> 8 word list \<Rightarrow> 8 word list \<Rightarrow> host_ikernel option io" where
  "ik_create junk_size netdev uuid = ik_create_attrs junk_size 0 netdev uuid \<lparr>ia_size = 8, ia_log_dram_size = 0\<rparr>"

definition ik_destroy :: "host_ikernel \<Rightarrow> int io" where
  "ik_destroy ik = io_bind (nica_call NICA_IK_DESTROY (nica_req_ik_destroy (ik_handle ik)) 4 None) (\<lambda>(ret, _). io_return ret)"

text \<open>\<open>sent\<close> says whether \<open>sendmsg\<close> succeeds.\<close>

definition send_fd :: "bool \<Rightarrow> int \<Rightarrow> int io" where
  "send_fd sent fd s = (if sent then Inr (0, s\<lparr>nc_tx := nc_tx s @ [Passed_fd fd]\<rparr>) else Inr (- 1, s))"

definition attach_callback :: "bool \<Rightarrow> int \<Rightarrow> int io" where
  "attach_callback sent socket =
     io_bind (sock_read 8) (\<lambda>b.
     let hdr = header_of_bytes b
     in io_bind (io_assert (opcode_number NICA_IK_ATTACH = mh_opcode hdr)) (\<lambda>_.
        io_bind (io_assert (mh_length hdr = 4)) (\<lambda>_.
        io_bind (sock_read 4) (\<lambda>_.
        if mh_status hdr \<noteq> 0 then io_return (int (unat (mh_status hdr))) else send_fd sent socket))))"

text \<open>The flow identifiers are what \<open>ik_attach\<close> stores through its pointers, if they are not null; \<open>junk\<close> is the uninitialised response.\<close>

definition ik_attach :: "8 word list \<Rightarrow> bool \<Rightarrow> int \<Rightarrow> host_ikernel \<Rightarrow> (int \<times> (32 word \<times> 32 word) option) io" where
  "ik_attach junk sent socket ik =
     io_bind (nica_call NICA_IK_ATTACH (nica_req_ik_attach (ik_handle ik)) 8 (Some (attach_callback sent socket))) (\<lambda>(ret, resp).
     if ret < 0 then io_return (ret, None)
     else (let r = (case resp of None \<Rightarrow> junk | Some r \<Rightarrow> r) in io_return (0, Some (of_le32 r, of_le32 (drop 4 r)))))"

definition ik_detach :: "bool \<Rightarrow> int \<Rightarrow> host_ikernel \<Rightarrow> int io" where
  "ik_detach sent socket ik =
     io_bind (nica_call NICA_IK_DETACH (nica_req_ik_attach (ik_handle ik)) 8 (Some (send_fd sent socket))) (\<lambda>(ret, _). io_return ret)"

definition ik_rpc :: "host_ikernel \<Rightarrow> 32 word \<Rightarrow> 32 word \<Rightarrow> bool \<Rightarrow> (int \<times> 32 word) io" where
  "ik_rpc ik address value write =
     io_bind (nica_call NICA_IK_RPC (nica_req_ik_rpc (ik_handle ik) address value write) 4 None) (\<lambda>(ret, resp).
     io_return (ret, case resp of Some r \<Rightarrow> if ret = 0 \<and> \<not> write then of_le32 r else value | None \<Rightarrow> value))"

definition ik_write :: "host_ikernel \<Rightarrow> 32 word \<Rightarrow> 32 word \<Rightarrow> int io" where
  "ik_write ik address value = io_bind (ik_rpc ik address value True) (\<lambda>(ret, _). io_return ret)"

definition ik_read :: "host_ikernel \<Rightarrow> 32 word \<Rightarrow> 32 word \<Rightarrow> (int \<times> 32 word) io" where
  "ik_read ik address value = ik_rpc ik address value False"

section \<open>Custom rings\<close>

text \<open>
  \<open>get_gid_index\<close> looks for the first address of the device that is an IPv4 address of RoCE version 2. \<open>query\<close> answers \<open>ibv_query_gid\<close> with the subnet
  prefix and the interface identifier, \<open>gid_type\<close> the read of the type from \<open>/sys\<close>; \<open>None\<close> is a failure.
\<close>

definition to_lower :: "char \<Rightarrow> char" where
  "to_lower c = (let n = of_char c :: nat in if 65 \<le> n \<and> n \<le> 90 then char_of (n + 32) else c)"

definition strncasecmp_eq :: "string \<Rightarrow> string \<Rightarrow> nat \<Rightarrow> bool" where
  "strncasecmp_eq a b n \<longleftrightarrow> map to_lower (take n a) = map to_lower (take n b)"

definition ipv4_gid :: "64 word \<times> 64 word \<Rightarrow> bool" where
  "ipv4_gid g \<longleftrightarrow> fst g = 0 \<and> snd g AND 0xffffffff = 0xffff0000"

fun get_gid_from :: "(nat \<Rightarrow> (64 word \<times> 64 word) option) \<Rightarrow> (nat \<Rightarrow> string option) \<Rightarrow> nat list \<Rightarrow> lib_error + int" where
  "get_gid_from query gid_type [] = Inr (- 1)"
| "get_gid_from query gid_type (i # is) =
     (case query i of
        None \<Rightarrow> Inl Exit
      | Some gid \<Rightarrow>
          if \<not> ipv4_gid gid then get_gid_from query gid_type is
          else (case gid_type i of
                  None \<Rightarrow> Inr (- 1)
                | Some t \<Rightarrow>
                    if \<not> strncasecmp_eq t ''RoCE v2'' (length t) then get_gid_from query gid_type is
                    else Inr (int i)))"

definition get_gid_index :: "(nat \<Rightarrow> (64 word \<times> 64 word) option) \<Rightarrow> (nat \<Rightarrow> string option) \<Rightarrow> lib_error + int" where
  "get_gid_index query gid_type = get_gid_from query gid_type [0..<0xffff]"

text \<open>\<open>ibv_open_device_by_name\<close> over the list of devices, each with whether it can be opened, or no list.\<close>

fun open_first :: "string \<Rightarrow> (string \<times> bool) list \<Rightarrow> bool" where
  "open_first name [] = False"
| "open_first name ((cur, ok) # ds) = (if name = cur then ok else open_first name ds)"

definition ibv_open_device_by_name :: "(string \<times> bool) list option \<Rightarrow> string \<Rightarrow> lib_error + bool" where
  "ibv_open_device_by_name devices name = (case devices of None \<Rightarrow> Inl Exit | Some ds \<Rightarrow> Inr (open_first name ds))"

definition ib_device_from_netdev :: "(string \<Rightarrow> string list) \<Rightarrow> string \<Rightarrow> lib_error + string" where
  "ib_device_from_netdev dir netdev = (case dir netdev of [] \<Rightarrow> Inl Exit | d # _ \<Rightarrow> Inr d)"

text \<open>The changes of state that the constructor asks of the queue pair, with the attributes it passes.\<close>

datatype qp_attr =
    To_init (pkey_index: nat) (init_port: nat) (access_flags: nat)
  | To_rtr (path_mtu: nat) (dest_qp_num: nat) (rq_psn: nat) (sl: nat) (src_path_bits: nat) (ah_port: nat) (is_global: nat)
      (dgid: "8 word list") (sgid_index: int) (flow_label: nat) (hop_limit: nat) (traffic_class: nat)
  | To_rts (sq_psn: nat)

record verbs =
  vb_devices :: "(string \<times> bool) list option"
  vb_alloc_pd :: bool
  vb_create_cq :: "nat \<Rightarrow> bool"
  vb_create_qp :: "nat \<Rightarrow> 32 word option"
  vb_query_port :: bool
  vb_modify_qp :: "qp_attr \<Rightarrow> bool"
  vb_query_gid :: "nat \<Rightarrow> (64 word \<times> 64 word) option"
  vb_gid_type :: "nat \<Rightarrow> string option"

record host_ring =
  ch_credits :: "16 word"
  ch_msn :: "16 word"
  ch_msn_diff :: "16 word"
  ch_handle :: "32 word"
  ch_qp_num :: "32 word"

definition PORT_NUM :: nat where "PORT_NUM = 1"
definition MAX_CR_SIZE :: nat where "MAX_CR_SIZE = 32 * 1024"
definition IBV_MTU_1024 :: nat where "IBV_MTU_1024 = 3"
definition fpga_gid :: "8 word list" where "fpga_gid = replicate 10 0 @ [0xff, 0xff, 0x0a, 0, 0, 1]"

definition custom_ring_new :: "verbs \<Rightarrow> 32 word \<Rightarrow> string \<Rightarrow> nat \<Rightarrow> lib_error + host_ring" where
  "custom_ring_new vb junk device_name max_cr_size =
     (case ibv_open_device_by_name (vb_devices vb) device_name of
        Inl e \<Rightarrow> Inl e
      | Inr context \<Rightarrow>
          if \<not> context \<or> \<not> vb_alloc_pd vb \<or> \<not> vb_create_cq vb max_cr_size then Inl Exit
          else (case vb_create_qp vb max_cr_size of
              None \<Rightarrow> Inl Exit
            | Some qp \<Rightarrow>
                if \<not> vb_query_port vb \<or> \<not> vb_modify_qp vb (To_init 0 PORT_NUM 0) then Inl Exit
                else (case get_gid_index (vb_query_gid vb) (vb_gid_type vb) of
                    Inl e \<Rightarrow> Inl e
                  | Inr gid \<Rightarrow>
                      if \<not> vb_modify_qp vb (To_rtr IBV_MTU_1024 0 0 0 0 PORT_NUM 1 fpga_gid gid 0 1 0) \<or> \<not> vb_modify_qp vb (To_rts 0) then Inl Exit
                      else Inr \<lparr>ch_credits = 0, ch_msn = 0, ch_msn_diff = 0, ch_handle = junk, ch_qp_num = qp\<rparr>)))"

definition custom_ring_create :: "verbs \<Rightarrow> (string \<Rightarrow> string list) \<Rightarrow> 32 word \<Rightarrow> host_ikernel \<Rightarrow> nat \<Rightarrow> host_ring option io" where
  "custom_ring_create vb dir junk ik max_cr_size s =
     (if max_cr_size > MAX_CR_SIZE then Inl Exit
      else (case ib_device_from_netdev dir (map (\<lambda>b. char_of (unat b)) (ik_netdev ik)) of
          Inl e \<Rightarrow> Inl e
        | Inr device_name \<Rightarrow>
            (case custom_ring_new vb junk device_name max_cr_size of
               Inl e \<Rightarrow> Inl e
             | Inr cr \<Rightarrow>
                 io_bind (nica_call NICA_CR_CREATE (nica_req_cr_create (ik_handle ik) (ch_qp_num cr)) 4 None) (\<lambda>(ret, resp).
                 io_return (case resp of
                   Some r \<Rightarrow> if ret \<noteq> 0 then None else Some (cr\<lparr>ch_handle := of_le32 r\<rparr>)
                 | None \<Rightarrow> None)) s)))"

definition custom_ring_destroy :: "host_ring \<Rightarrow> int io" where
  "custom_ring_destroy cr = io_bind (nica_call NICA_CR_DESTROY (nica_req_cr_destroy (ch_handle cr)) 4 None) (\<lambda>(ret, _). io_return ret)"

definition custom_ring_handle :: "host_ring \<Rightarrow> 32 word" where
  "custom_ring_handle cr = ch_handle cr"

text \<open>\<open>posted\<close> is the result of \<open>ibv_post_recv\<close>.\<close>

definition custom_ring_post_recv_attr :: "int \<Rightarrow> nat \<Rightarrow> bool \<Rightarrow> host_ring \<Rightarrow> (int \<times> host_ring) io" where
  "custom_ring_post_recv_attr posted num_of_entries update_credits cr s =
     (if posted \<noteq> 0 then Inl Exit
      else (let cr1 = cr\<lparr>ch_credits := ch_credits cr + of_nat num_of_entries\<rparr>
            in if update_credits then
                 (let cr2 = cr1\<lparr>ch_credits := ch_credits cr1 + ch_msn_diff cr1, ch_msn_diff := 0\<rparr>
                  in io_bind (nica_call NICA_CR_UPDATE_CREDITS (nica_req_cr_update_credits (ch_handle cr2) (ch_credits cr2)) 4 None)
                       (\<lambda>(ret, _). io_return (ret, cr2)) s)
               else Inr ((posted, cr1), s)))"

definition custom_ring_post_recv :: "int \<Rightarrow> 'w list \<Rightarrow> host_ring \<Rightarrow> (int \<times> host_ring) io" where
  "custom_ring_post_recv posted wrs cr = custom_ring_post_recv_attr posted (length wrs) True cr"

text \<open>\<open>polled\<close> is the result of \<open>ibv_poll_cq\<close>; the ring is a pointer that may be null.\<close>

definition custom_ring_poll_cq :: "int \<Rightarrow> host_ring option \<Rightarrow> lib_error + int" where
  "custom_ring_poll_cq polled cr = (case cr of None \<Rightarrow> Inl Exit | Some _ \<Rightarrow> Inr polled)"

section \<open>Replies of the manager\<close>

lemma length_le [simp]: "length (le16 w) = 2" "length (le32 v) = 4"
  by (simp_all add: le16_def le32_def)

lemma of_le16 [simp]: "of_le16 (le16 w @ bs) = w"
  by (rule bit_word_eqI) (auto simp: of_le16_def le16_def bit_simps)

lemma of_le32 [simp]: "of_le32 (le32 w @ bs) = w" "of_le32 (le32 w) = w"
proof -
  have "bit (of_le32 (le32 w @ bs)) n \<longleftrightarrow> bit w n" if "n < 32" for n bs
  proof -
    have "n < 8 \<or> 8 \<le> n \<and> n < 16 \<or> 16 \<le> n \<and> n < 24 \<or> 24 \<le> n" by linarith
    then show ?thesis using that by (elim disjE) (auto simp: of_le32_def le32_def bit_simps)
  qed
  then show *: "of_le32 (le32 w @ bs) = w" for bs by (intro bit_word_eqI) simp
  show "of_le32 (le32 w) = w" using * [of "[]"] by simp
qed

lemma le32_of_le32: "length bs \<ge> 4 \<Longrightarrow> le32 (of_le32 bs) = take 4 bs"
proof -
  assume "length bs \<ge> 4"
  then obtain a b c d r where bs: "bs = a # b # c # d # r" by (auto simp: Suc_le_length_iff numeral_eq_Suc)
  have "ucast (of_le32 bs) = a" "ucast (drop_bit 8 (of_le32 bs)) = b" "ucast (drop_bit 16 (of_le32 bs)) = c" "ucast (drop_bit 24 (of_le32 bs)) = d"
    by (rule bit_word_eqI; auto simp: bs of_le32_def bit_simps dest: bit_imp_le_length)+
  then show ?thesis by (simp add: le32_def bs)
qed

lemma of_le16_alone [simp]: "of_le16 (le16 w) = w"
  using of_le16 [of w "[]"] by simp

lemma header_roundtrip [simp]: "header_of_bytes (header_bytes h @ bs) = h" "header_of_bytes (header_bytes h) = h" "length (header_bytes h) = 8"
  by (simp_all add: header_of_bytes_def header_bytes_def)

definition reply :: "nicamgr_opcode \<Rightarrow> 16 word \<Rightarrow> 8 word list \<Rightarrow> 8 word list" where
  "reply opcode status payload =
     header_bytes \<lparr>mh_opcode = opcode_number opcode, mh_length = of_nat (length payload), mh_flags = 0, mh_status = status\<rparr> @ payload"

definition request :: "nicamgr_opcode \<Rightarrow> 8 word list \<Rightarrow> tx_item list" where
  "request opcode req =
     [Bytes (header_bytes \<lparr>mh_opcode = opcode_number opcode, mh_length = of_nat (length req), mh_flags = NICA_MANAGER_FLAG_REQUEST, mh_status = 0\<rparr>),
      Bytes req]"

lemma call_ok:
  assumes "nc_rx s = reply opcode 0 payload @ rest" "length payload = n" "n < 65536"
  shows "nica_call opcode req n None s = Inr ((0, Some payload), s\<lparr>nc_rx := rest, nc_tx := nc_tx s @ request opcode req\<rparr>)"
  using assms by (simp add: nica_call_def io_defs reply_def request_def Let_def unat_of_nat take_bit_nat_eq_self)

lemma call_refused:
  assumes "nc_rx s = reply opcode status payload @ rest" "status \<noteq> 0" "length payload < 65536"
  shows "nica_call opcode req n None s =
    Inr ((- 1, None), s\<lparr>nc_rx := rest, nc_tx := nc_tx s @ request opcode req, nc_errno := status\<rparr>)"
  using assms by (simp add: nica_call_def io_defs reply_def request_def Let_def unat_of_nat take_bit_nat_eq_self)

lemma call_replied:
  assumes "nc_rx s = reply opcode status payload @ rest" "length payload = n" "n < 65536"
  shows "\<exists>ret s'. nica_call opcode req n None s = Inr (ret, s') \<and> nc_rx s' = rest \<and> nc_tx s' = nc_tx s @ request opcode req"
  using call_ok [of s opcode payload rest n req] call_refused [of s opcode status payload rest req n] assms by (cases "status = 0") simp_all

text \<open>After the callback a call goes on as a call without one whose request is already out.\<close>

lemma call_callback:
  assumes "cb (s\<lparr>nc_tx := nc_tx s @ request opcode req\<rparr>) = Inr (ret, s')"
  shows "nica_call opcode req n (Some cb) s =
    (if ret \<noteq> 0 then Inr ((ret, None), s')
     else (case nica_call opcode [] n None (s'\<lparr>nc_tx := []\<rparr>) of
             Inl e \<Rightarrow> Inl e | Inr (r, s'') \<Rightarrow> Inr (r, s''\<lparr>nc_tx := nc_tx s'\<rparr>)))"
  using assms by (auto simp: nica_call_def io_defs request_def Let_def split: if_splits)

lemma ik_rpc_reply:
  assumes "nc_rx s = reply NICA_IK_RPC status (le32 v) @ rest"
  shows "ik_rpc ik address value write s =
    Inr (if status \<noteq> 0 then (- 1, value) else (0, if write then value else v),
      s\<lparr>nc_rx := rest,
        nc_tx := nc_tx s @ request NICA_IK_RPC (le32 (ik_handle ik) @ le32 address @ le32 value @ le32 (of_bool write)),
        nc_errno := if status \<noteq> 0 then status else nc_errno s\<rparr>)"
proof (cases "status = 0")
  case True
  with assms have "nc_rx s = reply NICA_IK_RPC 0 (le32 v) @ rest" by simp
  note call = call_ok [OF this, of 4, simplified]
  show ?thesis using True by (auto simp: ik_rpc_def io_bind_def io_return_def call)
next
  case False
  note call = call_refused [OF assms False, simplified]
  show ?thesis using False by (auto simp: ik_rpc_def io_bind_def io_return_def call)
qed

section \<open>Properties\<close>

text \<open>A sequence of register accesses on one connection.\<close>

fun rpc_run :: "host_ikernel \<Rightarrow> (32 word \<times> 32 word \<times> bool) list \<Rightarrow> (int \<times> 32 word) list io" where
  "rpc_run ik [] = io_return []"
| "rpc_run ik ((address, value, write) # accs) =
     io_bind (ik_rpc ik address value write) (\<lambda>r. io_bind (rpc_run ik accs) (\<lambda>rs. io_return (r # rs)))"

definition rpc_result :: "32 word \<times> 32 word \<times> bool \<Rightarrow> 16 word \<times> 32 word \<Rightarrow> int \<times> 32 word" where
  "rpc_result acc rep = (case (acc, rep) of ((_, value, write), (status, v)) \<Rightarrow>
     if status \<noteq> 0 then (- 1, value) else (0, if write then value else v))"

text \<open>
  C11: Register accesses stay in step with the manager. If the manager answers each request with a response of the documented form, success or error, then
  a sequence of reads and writes of an ikernel's registers returns the answers in order: zero and the value read, or -1
  with \<open>errno\<close> the status. It sends exactly one request per access and leaves exactly the bytes that follow the answers, so that an error does not disturb the accesses after it.
\<close>

theorem rpc_session_in_step:
  assumes "length replies = length accs"
    and "nc_rx s = concat (map (\<lambda>(status, v). reply NICA_IK_RPC status (le32 v)) replies) @ rest"
  shows "rpc_run ik accs s =
    Inr (map2 rpc_result accs replies,
      s\<lparr>nc_rx := rest,
        nc_tx := nc_tx s @ concat (map (\<lambda>(address, value, write).
          request NICA_IK_RPC (le32 (ik_handle ik) @ le32 address @ le32 value @ le32 (of_bool write))) accs),
        nc_errno := fold (\<lambda>(status, _) e. if status \<noteq> 0 then status else e) replies (nc_errno s)\<rparr>)"
  using assms
proof (induction accs replies arbitrary: s rule: list_induct2')
  case (4 acc accs rep replies)
  obtain address v0 w0 where acc: "acc = (address, v0, w0)" by (cases acc)
  obtain status v where rep: "rep = (status, v)" by (cases rep)
  have "nc_rx s = reply NICA_IK_RPC status (le32 v) @ concat (map (\<lambda>(status, v). reply NICA_IK_RPC status (le32 v)) replies) @ rest"
    using 4(3) rep by simp
  note first = ik_rpc_reply [OF this, of ik address v0 w0]
  show ?case
    using 4(2) by (simp add: acc rep io_bind_def io_return_def first 4(1) rpc_result_def)
qed (simp_all add: io_return_def)

lemma rpc_session_in_step_witness:
  "\<exists>s'. rpc_run \<lparr>ik_uuid = [], ik_handle = 7, ik_netdev = []\<rparr> [(1, 5, True), (2, 0, False)]
      \<lparr>nc_rx = reply NICA_IK_RPC 22 (le32 0) @ reply NICA_IK_RPC 0 (le32 42), nc_tx = [], nc_errno = 0\<rparr> =
    Inr ([(- 1, 5), (0, 42)], s') \<and> nc_errno s' = 22 \<and> nc_rx s' = []"
  using rpc_session_in_step [of "[(22, 0), (0, 42)]" "[(1, 5, True), (2, 0, False)]"
      "\<lparr>nc_rx = reply NICA_IK_RPC 22 (le32 0) @ reply NICA_IK_RPC 0 (le32 42), nc_tx = [], nc_errno = 0\<rparr>" "[]"
      "\<lparr>ik_uuid = [], ik_handle = 7, ik_netdev = []\<rparr>"]
  by (simp add: rpc_result_def)

text \<open>The message with which the manager asks for the file descriptor.\<close>

lemma attach_callback_ready:
  assumes "nc_rx s = reply NICA_IK_ATTACH status (le32 r) @ rest"
  shows "attach_callback ok fd s =
    (if status \<noteq> 0 then Inr (int (unat status), s\<lparr>nc_rx := rest\<rparr>)
     else if ok then Inr (0, s\<lparr>nc_rx := rest, nc_tx := nc_tx s @ [Passed_fd fd]\<rparr>)
     else Inr (- 1, s\<lparr>nc_rx := rest\<rparr>))"
  using assms by (simp add: attach_callback_def send_fd_def io_defs reply_def Let_def)

lemma attach_call:
  assumes "nc_rx s = reply NICA_IK_ATTACH 0 (le32 r) @ rest"
  shows "nica_call NICA_IK_ATTACH (le32 (ik_handle ik)) 8 (Some (attach_callback True fd)) s =
    (case nica_call NICA_IK_ATTACH [] 8 None (s\<lparr>nc_rx := rest, nc_tx := []\<rparr>) of
       Inl e \<Rightarrow> Inl e
     | Inr (x, s') \<Rightarrow> Inr (x, s'\<lparr>nc_tx := nc_tx s @ request NICA_IK_ATTACH (le32 (ik_handle ik)) @ [Passed_fd fd]\<rparr>))"
proof -
  let ?tx = "nc_tx s @ request NICA_IK_ATTACH (le32 (ik_handle ik))"
  have "nc_rx (s\<lparr>nc_tx := ?tx\<rparr>) = reply NICA_IK_ATTACH 0 (le32 r) @ rest" using assms by simp
  from attach_callback_ready [OF this, of True fd]
  have "attach_callback True fd (s\<lparr>nc_tx := ?tx\<rparr>) = Inr (0, s\<lparr>nc_rx := rest, nc_tx := ?tx @ [Passed_fd fd]\<rparr>)" by simp
  from call_callback [of "attach_callback True fd" s NICA_IK_ATTACH "le32 (ik_handle ik)", OF this, of 8] show ?thesis by (auto split: sum.split)
qed

lemma attach_accepted:
  assumes "nc_rx s = reply NICA_IK_ATTACH 0 (le32 r) @ reply NICA_IK_ATTACH 0 (le32 h2n @ le32 n2h) @ rest"
  shows "ik_attach junk True fd ik s = Inr ((0, Some (h2n, n2h)),
    s\<lparr>nc_rx := rest, nc_tx := nc_tx s @ request NICA_IK_ATTACH (le32 (ik_handle ik)) @ [Passed_fd fd]\<rparr>)"
proof -
  let ?s = "s\<lparr>nc_rx := reply NICA_IK_ATTACH 0 (le32 h2n @ le32 n2h) @ rest, nc_tx := []\<rparr>"
  have "nica_call NICA_IK_ATTACH [] 8 None ?s = Inr ((0, Some (le32 h2n @ le32 n2h)), s\<lparr>nc_rx := rest, nc_tx := request NICA_IK_ATTACH []\<rparr>)"
    using call_ok [of ?s NICA_IK_ATTACH "le32 h2n @ le32 n2h" rest 8 "[]"] by simp
  then show ?thesis using attach_call [OF assms, of ik fd] by (simp add: ik_attach_def io_bind_def io_return_def)
qed

lemma attach_error:
  assumes "nc_rx s = reply NICA_IK_ATTACH 0 (le32 r) @ reply NICA_IK_ATTACH status (le32 v) @ rest" "status \<noteq> 0"
  shows "ik_attach junk True fd ik s = Inr ((- 1, None),
    s\<lparr>nc_rx := rest, nc_tx := nc_tx s @ request NICA_IK_ATTACH (le32 (ik_handle ik)) @ [Passed_fd fd], nc_errno := status\<rparr>)"
proof -
  let ?s = "s\<lparr>nc_rx := reply NICA_IK_ATTACH status (le32 v) @ rest, nc_tx := []\<rparr>"
  have "nica_call NICA_IK_ATTACH [] 8 None ?s =
      Inr ((- 1, None), s\<lparr>nc_rx := rest, nc_tx := request NICA_IK_ATTACH [], nc_errno := status\<rparr>)"
    using call_refused [of ?s NICA_IK_ATTACH status "le32 v" rest "[]" 8] assms(2) by simp
  then show ?thesis using attach_call [OF assms(1), of ik fd] by (simp add: ik_attach_def io_bind_def io_return_def)
qed

lemma attach_not_sent:
  assumes "nc_rx s = reply NICA_IK_ATTACH 0 (le32 r) @ rest"
  shows "ik_attach junk False fd ik s =
    Inr ((- 1, None), s\<lparr>nc_rx := rest, nc_tx := nc_tx s @ request NICA_IK_ATTACH (le32 (ik_handle ik))\<rparr>)"
proof -
  let ?s = "s\<lparr>nc_tx := nc_tx s @ request NICA_IK_ATTACH (le32 (ik_handle ik))\<rparr>"
  have "nc_rx ?s = reply NICA_IK_ATTACH 0 (le32 r) @ rest" using assms by simp
  from attach_callback_ready [OF this, of False fd]
  have "attach_callback False fd ?s = Inr (- 1, ?s\<lparr>nc_rx := rest\<rparr>)" by simp
  from call_callback [of "attach_callback False fd" s NICA_IK_ATTACH "le32 (ik_handle ik)", OF this, of 8] show ?thesis by (simp add: ik_attach_def io_bind_def io_return_def)
qed

lemma attach_refused:
  assumes "nc_rx s = reply NICA_IK_ATTACH status (le32 r) @ rest" "status \<noteq> 0"
  shows "ik_attach junk ok fd ik s = Inr ((0, Some (of_le32 junk, of_le32 (drop 4 junk))),
    s\<lparr>nc_rx := rest, nc_tx := nc_tx s @ request NICA_IK_ATTACH (le32 (ik_handle ik))\<rparr>)"
proof -
  let ?s = "s\<lparr>nc_tx := nc_tx s @ request NICA_IK_ATTACH (le32 (ik_handle ik))\<rparr>"
  have "nc_rx ?s = reply NICA_IK_ATTACH status (le32 r) @ rest" using assms(1) by simp
  from attach_callback_ready [OF this, of ok fd] assms(2)
  have "attach_callback ok fd ?s = Inr (int (unat status), ?s\<lparr>nc_rx := rest\<rparr>)" by simp
  from call_callback [of "attach_callback ok fd" s NICA_IK_ATTACH "le32 (ik_handle ik)", OF this, of 8] show ?thesis
    using assms(2) by (auto simp: ik_attach_def io_bind_def io_return_def unsigned_eq_0_iff)
qed



text \<open>
  \<open>ik_detach\<close> does not wait for the message with which the manager asks for the descriptor, and expects a response of eight bytes, where both
  \<open>nicamgr.h\<close> and the manager have four. It takes that message for the response and fails its assertion on the length.
\<close>

lemma ik_detach_fails:
  assumes "nc_rx s = reply NICA_IK_DETACH 0 (le32 v) @ rest"
  shows "ik_detach True fd ik s = Inl Assertion"
  using assms by (simp add: ik_detach_def nica_call_def send_fd_def io_defs reply_def Let_def)

section \<open>Credits\<close>

text \<open>Receive buffers posted in batches.\<close>

fun post_run :: "nat list \<Rightarrow> host_ring \<Rightarrow> host_ring io" where
  "post_run [] cr = io_return cr"
| "post_run (n # ns) cr = io_bind (custom_ring_post_recv 0 (replicate n ()) cr) (\<lambda>(_, cr'). post_run ns cr')"

fun announced :: "16 word \<Rightarrow> nat list \<Rightarrow> 16 word list" where
  "announced c [] = []"
| "announced c (n # ns) = (c + of_nat n) # announced (c + of_nat n) ns"

text \<open>
  The credits of a custom ring count the receive buffers. However the buffers are posted in batches, after each batch the library announces to the
  manager the number of buffers posted since the ring was created, modulo \<open>2 ^ 16\<close>, and the ring keeps the same number; an update that the manager refuses loses no buffer, since the next
  update announces the total.
\<close>

lemma credits_count_buffers:
  assumes "length statuses = length ns"
    and "nc_rx s = concat (map (\<lambda>status. reply NICA_CR_UPDATE_CREDITS status (le32 0)) statuses) @ rest" "ch_msn_diff cr = 0"
  shows "\<exists>s'. post_run ns cr s = Inr (cr\<lparr>ch_credits := ch_credits cr + of_nat (sum_list ns)\<rparr>, s') \<and> nc_rx s' = rest \<and>
    nc_tx s' = nc_tx s @ concat (map (\<lambda>c. request NICA_CR_UPDATE_CREDITS (le32 (ch_handle cr) @ le32 (ucast c))) (announced (ch_credits cr) ns))"
  using assms
proof (induction ns statuses arbitrary: s cr rule: list_induct2')
  case (4 n ns status statuses)
  let ?cr = "cr\<lparr>ch_credits := ch_credits cr + of_nat n\<rparr>"
  let ?req = "le32 (ch_handle cr) @ le32 (ucast (ch_credits cr + of_nat n))"
  have rx: "nc_rx s = reply NICA_CR_UPDATE_CREDITS status (le32 0) @ concat (map (\<lambda>status. reply NICA_CR_UPDATE_CREDITS status (le32 0)) statuses) @ rest"
    using 4(3) by simp
  have "\<exists>ret s1. nica_call NICA_CR_UPDATE_CREDITS ?req 4 None s = Inr (ret, s1) \<and>
      nc_rx s1 = concat (map (\<lambda>status. reply NICA_CR_UPDATE_CREDITS status (le32 0)) statuses) @ rest \<and>
      nc_tx s1 = nc_tx s @ request NICA_CR_UPDATE_CREDITS ?req"
    by (rule call_replied [OF rx]) simp_all
  then obtain ret s1 where call: "nica_call NICA_CR_UPDATE_CREDITS ?req 4 None s = Inr (ret, s1)"
    and s1: "nc_rx s1 = concat (map (\<lambda>status. reply NICA_CR_UPDATE_CREDITS status (le32 0)) statuses) @ rest"
      "nc_tx s1 = nc_tx s @ request NICA_CR_UPDATE_CREDITS ?req" by blast
  have post: "custom_ring_post_recv 0 (replicate n ()) cr s = Inr ((fst ret, ?cr), s1)"
    using 4(4) by (simp add: custom_ring_post_recv_def custom_ring_post_recv_attr_def Let_def io_bind_def io_return_def call split: prod.split)
  from 4(1) [OF _ s1(1), of ?cr] 4(2,4) show ?case
    by (auto simp: io_bind_def post s1(2) add.assoc)
qed (simp_all add: io_return_def)

text \<open>The index that is chosen is the first that is an IPv4 address of the right type.\<close>

definition gid_matches :: "(nat \<Rightarrow> (64 word \<times> 64 word) option) \<Rightarrow> (nat \<Rightarrow> string option) \<Rightarrow> nat \<Rightarrow> bool" where
  "gid_matches query gid_type i \<longleftrightarrow>
     (case (query i, gid_type i) of (Some g, Some t) \<Rightarrow> ipv4_gid g \<and> strncasecmp_eq t ''RoCE v2'' (length t) | _ \<Rightarrow> False)"

lemma get_gid_first:
  "get_gid_from query gid_type xs = Inr (int i) \<Longrightarrow>
   i \<in> set xs \<and> gid_matches query gid_type i \<and> (\<forall>j \<in> set (takeWhile (\<lambda>j. j \<noteq> i) xs). \<not> gid_matches query gid_type j)"
  by (induction xs) (auto simp: gid_matches_def split: option.splits if_splits)

end
