(* ===== verification/Stat_Server.thy ===== *)
theory Stat_Server
  imports Libnica Rxe_Hdr Threshold
begin

text \<open>
  The statistics server \<open>src/software/StatisticsUdpServer.cpp\<close>, the host side of the threshold ikernel: it sets the ikernel up through the client library, and
  counts the values that reach the host, either as UDP datagrams or through a custom ring, whose receive buffers it posts, polls and posts again.

  The receive buffers are the list that the ring writes to; what a poll sees in them is part of the state, so that the device writes to them between polls. What the system and the
  verbs library answer is in \<open>host_env\<close> and in the arguments of the operations.
\<close>

definition NUM_RECEIVE_WR :: nat where "NUM_RECEIVE_WR = 1024"

definition THRESHOLD_UUID :: "8 word list" where
  "THRESHOLD_UUID = [0x2b, 0x49, 0xfe, 0xc3, 0xd3, 0x0c, 0x46, 0x4d, 0xa6, 0xa1, 0x17, 0x1f, 0x9e, 0x44, 0x43, 0xf1]"

record stat_server =
  ss_max :: "32 word"
  ss_min :: "32 word"
  ss_sum :: "32 word"
  ss_count :: "32 word"
  ss_threshold_count :: "32 word"
  ss_threshold :: "32 word"
  use_custom_ring :: bool
  ss_ik :: "host_ikernel option"
  receive_buffer :: "64 word list"
  ss_cr :: "host_ring option"
  consumer_index :: "32 word"
  producer_index :: "32 word"
  posted_receive_buffers :: "32 word"
  outstanding_recv_wrs :: "32 word"
  ss_data :: "8 word list"

section \<open>Values\<close>

definition ntohl :: "32 word \<Rightarrow> 32 word" where
  "ntohl x = be32_to_cpu x"

definition read_uint :: "stat_server \<Rightarrow> 32 word \<times> stat_server" where
  "read_uint st =
     (if use_custom_ring st then
        (ucast (receive_buffer st ! (unat (consumer_index st) mod NUM_RECEIVE_WR)), st\<lparr>consumer_index := consumer_index st + 1\<rparr>)
      else (ntohl (of_le32 (drop 14 (ss_data st))), st))"

definition stat_process :: "nat \<Rightarrow> stat_server \<Rightarrow> lib_error + stat_server" where
  "stat_process l st =
     (if \<not> l \<ge> 4 then Inl Assertion
      else (let (new_data, st1) = read_uint st
            in Inr (st1\<lparr>ss_count := ss_count st1 + 1, ss_sum := ss_sum st1 + new_data,
                 ss_max := max (ss_max st1) new_data, ss_min := min (ss_min st1) new_data,
                 ss_threshold_count := (if new_data \<ge> ss_threshold st1 then ss_threshold_count st1 + 1 else ss_threshold_count st1)\<rparr>)))"

text \<open>
  Without a ring the server waits for datagrams: this is what the base class \<open>UdpServer\<close> does when one, or an error, has come in, before it waits for the next.
  A datagram is copied to the start of the buffer, whose other bytes stay.
\<close>

definition udp_received :: "(nat \<Rightarrow> 's \<Rightarrow> lib_error + 's) \<Rightarrow> bool \<Rightarrow> nat \<Rightarrow> 's \<Rightarrow> lib_error + 's" where
  "udp_received process ec bytes_recvd st = (if \<not> ec \<and> bytes_recvd > 0 then process bytes_recvd st else Inr st)"

definition stat_datagram :: "8 word list \<Rightarrow> stat_server \<Rightarrow> lib_error + stat_server" where
  "stat_datagram bs st = udp_received stat_process False (length bs) (st\<lparr>ss_data := bs @ drop (length bs) (ss_data st)\<rparr>)"

lemma short_datagram_fatal: "0 < length bs \<Longrightarrow> length bs < 4 \<Longrightarrow> stat_datagram bs st = Inl Assertion"
  by (simp add: stat_datagram_def udp_received_def stat_process_def)

lemma short_datagram_stale:
  assumes "4 \<le> length bs" "length bs \<le> 14" "18 \<le> length (ss_data st)" "\<not> use_custom_ring st"
  shows "\<exists>st'. stat_datagram bs st = Inr st' \<and> ss_sum st' = ss_sum st + ntohl (of_le32 (drop 14 (ss_data st)))"
  using assms by (auto simp: stat_datagram_def udp_received_def stat_process_def read_uint_def)

section \<open>The custom ring\<close>

text \<open>The work requests that \<open>post_recv\<close> builds: an identifier, which counts the buffers posted so far, and the slot of the buffer.\<close>

definition build_wrs :: "32 word \<Rightarrow> nat \<Rightarrow> (64 word \<times> nat) list" where
  "build_wrs first n = map (\<lambda>i. let wr_id = first + of_nat i in (ucast wr_id, unat wr_id mod NUM_RECEIVE_WR)) [0..<n]"

definition stat_post_recv :: "int \<Rightarrow> nat \<Rightarrow> stat_server \<Rightarrow> (int \<times> stat_server) io" where
  "stat_post_recv posted num_entries st s =
     (case ss_cr st of
        None \<Rightarrow> Inl Null_pointer
      | Some cr \<Rightarrow>
          (let wrs = build_wrs (posted_receive_buffers st) num_entries;
               st1 = st\<lparr>posted_receive_buffers := posted_receive_buffers st + of_nat num_entries\<rparr>
           in io_bind (custom_ring_post_recv posted wrs cr) (\<lambda>(ret, cr').
              (let st2 = st1\<lparr>ss_cr := Some cr'\<rparr>
               in if ret \<noteq> 0 then io_return (- 1, st2)
                  else io_return (0, st2\<lparr>outstanding_recv_wrs := outstanding_recv_wrs st2 + of_nat num_entries\<rparr>))) s))"

record completion =
  wc_success :: bool
  wc_wr_id :: "64 word"

fun take_completions :: "completion list \<Rightarrow> stat_server \<Rightarrow> lib_error + stat_server" where
  "take_completions [] st = Inr st"
| "take_completions (wc # wcs) st =
     (if \<not> wc_success wc then Inl Exit
      else take_completions wcs (st\<lparr>producer_index := ucast (wc_wr_id wc)\<rparr>))"

text \<open>The loop that processes buffers up to the producer index; it returns nothing if it runs forever.\<close>

partial_function (option) drain :: "stat_server \<Rightarrow> (lib_error + stat_server) option" where
  "drain st =
     (if producer_index st = consumer_index st then Some (Inr st)
      else (case stat_process 4 st of Inl e \<Rightarrow> Some (Inl e) | Inr st' \<Rightarrow> drain st'))"

text \<open>
  One round of \<open>do_receive\<close> with the ring: \<open>polled\<close> is the answer of the poll, an error or at most sixteen completions, \<open>posted\<close> that of
  posting buffers. The flag says whether the server polls again.
\<close>

definition ring_receive :: "completion list option \<Rightarrow> int \<Rightarrow> stat_server \<Rightarrow> nica_conn \<Rightarrow> (lib_error + (bool \<times> stat_server) \<times> nica_conn) option" where
  "ring_receive polled posted st s =
     (if ss_cr st = None then Some (Inl Exit)
      else case polled of
        None \<Rightarrow> Some (Inr ((False, st), s))
      | Some wcs \<Rightarrow>
          (case take_completions wcs (st\<lparr>outstanding_recv_wrs := outstanding_recv_wrs st - of_nat (length wcs)\<rparr>) of
             Inl e \<Rightarrow> Some (Inl e)
           | Inr st1 \<Rightarrow>
               (case drain st1 of
                  None \<Rightarrow> None
                | Some (Inl e) \<Rightarrow> Some (Inl e)
                | Some (Inr st2) \<Rightarrow>
                    Some (if outstanding_recv_wrs st2 < of_nat (NUM_RECEIVE_WR div 2)
                      then io_bind (stat_post_recv posted (NUM_RECEIVE_WR div 2) st2) (\<lambda>(_, st3). io_return (True, st3)) s
                      else Inr ((True, st2), s)))))"

section \<open>Setting up\<close>

record host_env =
  he_junk_size :: "32 word"
  he_junk_resp :: "8 word list"
  he_junk_handle :: "32 word"
  he_fd_sent :: bool
  he_verbs :: verbs
  he_dir :: "string \<Rightarrow> string list"
  he_reg_mr :: bool
  he_posted :: int

definition stat_init :: "32 word \<Rightarrow> bool \<Rightarrow> 8 word list \<Rightarrow> stat_server" where
  "stat_init threshold use_ring data =
     \<lparr>ss_max = 0, ss_min = 0, ss_sum = 0, ss_count = 0, ss_threshold_count = 0, ss_threshold = threshold, use_custom_ring = use_ring,
      ss_ik = None, receive_buffer = [], ss_cr = None, consumer_index = 0, producer_index = 0, posted_receive_buffers = 0,
      outstanding_recv_wrs = 0, ss_data = data\<rparr>"

fun clear_registers :: "host_ikernel \<Rightarrow> 32 word list \<Rightarrow> int io" where
  "clear_registers ik [] = io_return 0"
| "clear_registers ik (a # as) = io_bind (ik_write ik a 0) (\<lambda>ret. if ret \<noteq> 0 then io_return ret else clear_registers ik as)"

text \<open>The ring of the server: \<open>None\<close> when the constructor returns early.\<close>

definition setup_ring :: "host_env \<Rightarrow> host_ikernel \<Rightarrow> stat_server \<Rightarrow> (stat_server \<times> int option) io" where
  "setup_ring env ik st =
     io_bind (custom_ring_create (he_verbs env) (he_dir env) (he_junk_handle env) ik NUM_RECEIVE_WR) (\<lambda>cr.
     case cr of
       None \<Rightarrow> (\<lambda>s. Inl Null_pointer)
     | Some cr \<Rightarrow>
         (let st1 = st\<lparr>ss_cr := Some cr, receive_buffer := replicate NUM_RECEIVE_WR 0\<rparr>
          in if \<not> he_reg_mr env then io_return (st1, None)
             else io_bind (stat_post_recv (he_posted env) NUM_RECEIVE_WR st1) (\<lambda>(ret, st2).
               if ret \<noteq> 0 then io_return (st2, None)
               else io_bind (ik_write ik THRESHOLD_RING_ID (custom_ring_handle cr)) (\<lambda>ret. io_return (st2, Some ret)))))"

definition stat_server_new :: "host_env \<Rightarrow> 8 word list \<Rightarrow> int \<Rightarrow> 32 word \<Rightarrow> bool \<Rightarrow> 8 word list \<Rightarrow> stat_server io" where
  "stat_server_new env netdev fd threshold use_ring data =
     (let st = stat_init threshold use_ring data
      in io_bind (ik_create (he_junk_size env) netdev THRESHOLD_UUID) (\<lambda>ik_opt.
         case ik_opt of
           None \<Rightarrow> io_return st
         | Some ik \<Rightarrow>
             (let st1 = st\<lparr>ss_ik := Some ik\<rparr>
              in io_bind (ik_write ik THRESHOLD_VALUE threshold) (\<lambda>_.
                 io_bind (ik_attach (he_junk_resp env) (he_fd_sent env) fd ik) (\<lambda>(ret, _).
                 if ret < 0 then io_return st1
                 else
                   io_bind (if use_ring then setup_ring env ik st1
                            else io_bind (ik_write ik THRESHOLD_RING_ID 0) (\<lambda>ret. io_return (st1, Some ret))) (\<lambda>(st2, ret).
                   case ret of
                     None \<Rightarrow> io_return st2
                   | Some ret \<Rightarrow>
                       if ret \<noteq> 0 then io_return st2
                       else io_bind (clear_registers ik [THRESHOLD_COUNT, THRESHOLD_DROPPED, THRESHOLD_MIN, THRESHOLD_MAX, THRESHOLD_SUM_LO,
                              THRESHOLD_DROPPED_BACKPRESSURE]) (\<lambda>_. io_return st2)))))))"

text \<open>The destructor, and the report of the registers, which returns the number of dropped packets.\<close>

definition stat_server_delete :: "stat_server \<Rightarrow> unit io" where
  "stat_server_delete st =
     io_bind (case ss_cr st of None \<Rightarrow> io_return 0 | Some cr \<Rightarrow> custom_ring_destroy cr) (\<lambda>_.
     io_bind (case ss_ik st of None \<Rightarrow> io_return 0 | Some ik \<Rightarrow> ik_destroy ik) (\<lambda>_. io_return ()))"

definition get_dropped_count :: "stat_server \<Rightarrow> (32 word) io" where
  "get_dropped_count st =
     (case ss_ik st of
        None \<Rightarrow> (\<lambda>s. Inl Null_pointer)
      | Some ik \<Rightarrow>
          io_bind (ik_read ik THRESHOLD_COUNT 0) (\<lambda>_.
          io_bind (ik_read ik THRESHOLD_VALUE 0) (\<lambda>_.
          io_bind (ik_read ik THRESHOLD_DROPPED 0) (\<lambda>(_, hw_dropped).
          io_bind (ik_read ik THRESHOLD_MIN 0) (\<lambda>_.
          io_bind (ik_read ik THRESHOLD_MAX 0) (\<lambda>_.
          io_bind (ik_read ik THRESHOLD_SUM_LO 0) (\<lambda>_.
          io_bind (ik_read ik THRESHOLD_DROPPED_BACKPRESSURE 0) (\<lambda>_. io_return hw_dropped))))))))"

section \<open>Counting\<close>

definition add_value :: "32 word \<Rightarrow> stat_server \<Rightarrow> stat_server" where
  "add_value v st = st\<lparr>ss_count := ss_count st + 1, ss_sum := ss_sum st + v, ss_max := max (ss_max st) v, ss_min := min (ss_min st) v,
     ss_threshold_count := (if v \<ge> ss_threshold st then ss_threshold_count st + 1 else ss_threshold_count st)\<rparr>"

text \<open>The value of the buffer with the given identifier.\<close>

definition buffer_value :: "64 word list \<Rightarrow> 32 word \<Rightarrow> 32 word" where
  "buffer_value buf i = ucast (buf ! (unat i mod NUM_RECEIVE_WR))"

lemma stat_process_ring:
  "use_custom_ring st \<Longrightarrow>
   stat_process 4 st = Inr (add_value (buffer_value (receive_buffer st) (consumer_index st)) (st\<lparr>consumer_index := consumer_index st + 1\<rparr>))"
  by (simp add: stat_process_def read_uint_def add_value_def buffer_value_def)

lemma add_value_sel [simp]:
  "use_custom_ring (add_value v st) = use_custom_ring st" "receive_buffer (add_value v st) = receive_buffer st"
  "consumer_index (add_value v st) = consumer_index st" "producer_index (add_value v st) = producer_index st"
  "posted_receive_buffers (add_value v st) = posted_receive_buffers st" "outstanding_recv_wrs (add_value v st) = outstanding_recv_wrs st"
  "ss_cr (add_value v st) = ss_cr st"
  by (simp_all add: add_value_def)

lemma add_values_sel [simp]:
  "use_custom_ring (fold add_value vs st) = use_custom_ring st" "receive_buffer (fold add_value vs st) = receive_buffer st"
  "consumer_index (fold add_value vs st) = consumer_index st" "producer_index (fold add_value vs st) = producer_index st"
  "posted_receive_buffers (fold add_value vs st) = posted_receive_buffers st"
  "outstanding_recv_wrs (fold add_value vs st) = outstanding_recv_wrs st" "ss_cr (fold add_value vs st) = ss_cr st"
  by (induction vs arbitrary: st) simp_all

lemma add_value_consumer [simp]: "add_value v (st\<lparr>consumer_index := c\<rparr>) = (add_value v st)\<lparr>consumer_index := c\<rparr>"
  by (simp add: add_value_def)

lemma add_values_consumer [simp]:
  "fold add_value vs (st\<lparr>consumer_index := c\<rparr>) = (fold add_value vs st)\<lparr>consumer_index := c\<rparr>"
  by (induction vs arbitrary: st) simp_all

text \<open>With a ring the loop ends, after exactly the buffers between the two indices, in order, also when the indices wrap around.\<close>

lemma drain_values:
  "\<lbrakk>use_custom_ring st; producer_index st = consumer_index st + of_nat n; n < 2 ^ 32\<rbrakk> \<Longrightarrow>
   drain st = Some (Inr ((fold add_value (map (\<lambda>i. buffer_value (receive_buffer st) (consumer_index st + of_nat i)) [0..<n]) st)
     \<lparr>consumer_index := producer_index st\<rparr>))"
proof (induction n arbitrary: st)
  case 0
  then show ?case by (simp add: drain.simps)
next
  case (Suc n)
  let ?v = "buffer_value (receive_buffer st) (consumer_index st)"
  let ?st = "add_value ?v (st\<lparr>consumer_index := consumer_index st + 1\<rparr>)"
  have "of_nat (Suc n) \<noteq> (0 :: 32 word)" using Suc(4) by (auto simp: word_of_nat_eq_0_iff simp del: of_nat_Suc dest: dvd_imp_le)
  then have "drain st = drain ?st" using Suc(2,3) stat_process_ring [OF Suc(2)] by (subst drain.simps) simp
  also have "\<dots> = Some (Inr ((fold add_value (map (\<lambda>i. buffer_value (receive_buffer st) (consumer_index st + 1 + of_nat i)) [0..<n]) ?st)
      \<lparr>consumer_index := producer_index st\<rparr>))"
    using Suc by (subst Suc(1)) (simp_all add: algebra_simps)
  also have "map (\<lambda>i. buffer_value (receive_buffer st) (consumer_index st + 1 + of_nat i)) [0..<n] =
      map (\<lambda>i. buffer_value (receive_buffer st) (consumer_index st + of_nat i)) (map Suc [0..<n])"
    by (simp add: algebra_simps)
  finally show ?case
    by (simp add: upt_conv_Cons map_Suc_upt del: upt_Suc)
qed

section \<open>Rounds\<close>

definition stats :: "stat_server \<Rightarrow> 32 word \<times> 32 word \<times> 32 word \<times> 32 word \<times> 32 word \<times> 32 word" where
  "stats st = (ss_count st, ss_sum st, ss_max st, ss_min st, ss_threshold_count st, ss_threshold st)"

lemma stats_add: "stats a = stats b \<Longrightarrow> stats (fold add_value vs a) = stats (fold add_value vs b)"
  by (induction vs arbitrary: a b) (auto simp: stats_def add_value_def)

text \<open>The completions of the \<open>k\<close> buffers after the first \<open>r\<close>: a queue pair completes receives in the order in which they were posted.\<close>

definition completions :: "nat \<Rightarrow> nat \<Rightarrow> completion list" where
  "completions r k = map (\<lambda>i. \<lparr>wc_success = True, wc_wr_id = ucast (of_nat (r + i) :: 32 word)\<rparr>) [0..<k]"

lemma take_all:
  "list_all wc_success wcs \<Longrightarrow>
   take_completions wcs st = Inr (if wcs = [] then st else st\<lparr>producer_index := ucast (wc_wr_id (last wcs))\<rparr>)"
  by (induction wcs arbitrary: st) auto

lemma ucast_64_32: "ucast (ucast x :: 64 word) = x" for x :: "32 word"
  by (rule bit_word_eqI) (simp add: bit_simps)

lemma take_some:
  "take_completions (completions r k) st = Inr (if k = 0 then st else st\<lparr>producer_index := of_nat (r + k - 1)\<rparr>)"
proof -
  have "list_all wc_success (completions r k)" by (simp add: completions_def list.pred_map comp_def list_all_iff)
  moreover have "k \<noteq> 0 \<Longrightarrow> ucast (wc_wr_id (last (completions r k))) = (of_nat (r + k - 1) :: 32 word)"
    by (simp add: completions_def last_map ucast_64_32 algebra_simps)
  ultimately show ?thesis by (auto simp: take_all completions_def)
qed

lemma post_recv_ok:
  assumes "nc_rx s = reply NICA_CR_UPDATE_CREDITS 0 (le32 0) @ rest"
  shows "\<exists>cr' s'. custom_ring_post_recv 0 wrs cr s = Inr ((0, cr'), s') \<and> nc_rx s' = rest"
  using call_ok [OF assms, of 4] by (simp add: custom_ring_post_recv_def custom_ring_post_recv_attr_def Let_def io_bind_def io_return_def)

text \<open>
  The server after \<open>r\<close> completions: what it has posted is what has completed and what is outstanding, at least half of the buffers are outstanding,
  and it is one buffer behind the completions.
\<close>

definition stat_ok :: "nat \<Rightarrow> stat_server \<Rightarrow> bool" where
  "stat_ok r st \<longleftrightarrow> use_custom_ring st \<and> ss_cr st \<noteq> None \<and> producer_index st = of_nat (r - 1) \<and> consumer_index st = producer_index st \<and>
     posted_receive_buffers st = of_nat r + outstanding_recv_wrs st \<and>
     512 \<le> unat (outstanding_recv_wrs st) \<and> unat (outstanding_recv_wrs st) \<le> (if r = 0 then 1024 else 1023)"

text \<open>No slot is posted again before it is read: the buffers from the first unread one to the last posted one fit into the slots.\<close>

lemma stat_ok_slots: "stat_ok r st \<Longrightarrow> unat (posted_receive_buffers st - consumer_index st) \<le> NUM_RECEIVE_WR"
proof -
  assume ok: "stat_ok r st"
  show ?thesis
  proof (cases r)
    case 0
    with ok show ?thesis by (simp add: stat_ok_def NUM_RECEIVE_WR_def)
  next
    case (Suc n)
    then have "posted_receive_buffers st - consumer_index st = 1 + outstanding_recv_wrs st" using ok by (simp add: stat_ok_def)
    moreover have "unat (1 + outstanding_recv_wrs st) \<le> Suc (unat (outstanding_recv_wrs st))" by (simp add: unat_word_ariths)
    ultimately show ?thesis using ok Suc by (simp add: stat_ok_def NUM_RECEIVE_WR_def)
  qed
qed

lemma ring_round:
  assumes "stat_ok r st" "k \<le> 16" "nc_rx s = reply NICA_CR_UPDATE_CREDITS 0 (le32 0) @ rest"
  shows "\<exists>st' s'. ring_receive (Some (completions r k)) 0 (st\<lparr>receive_buffer := buf\<rparr>) s = Some (Inr ((True, st'), s')) \<and>
    stat_ok (r + k) st' \<and> nc_rx s' \<in> {nc_rx s, rest} \<and>
    stats st' = stats (fold add_value (map (\<lambda>i. buffer_value buf (of_nat (r - 1 + i))) [0..<r + k - 1 - (r - 1)]) st)"
proof -
  define p q n where "p = r + k - 1" and "q = r - 1" and "n = p - q"
  let ?st = "st\<lparr>receive_buffer := buf\<rparr>" and ?o = "outstanding_recv_wrs st - of_nat k"
  let ?st1 = "?st\<lparr>outstanding_recv_wrs := ?o, producer_index := of_nat p\<rparr>"
  note ok = assms(1) [unfolded stat_ok_def]
  have idx: "producer_index st = of_nat q" "consumer_index st = of_nat q" using ok by (simp_all add: q_def)
  have n: "(of_nat p :: 32 word) = of_nat q + of_nat n" "n < 2 ^ 32"
  proof -
    have "p = q + n" "n \<le> 16" using assms(2) by (auto simp: p_def q_def n_def)
    then show "(of_nat p :: 32 word) = of_nat q + of_nat n" "n < 2 ^ 32" by simp_all
  qed
  have o: "unat ?o = unat (outstanding_recv_wrs st) - k"
    using ok assms(2) by (subst unat_sub) (simp_all add: word_le_nat_alt unat_of_nat take_bit_nat_eq_self)
  let ?vs = "map (\<lambda>i. buffer_value buf (of_nat (q + i))) [0..<n]"
  let ?st2 = "(fold add_value ?vs ?st1)\<lparr>consumer_index := of_nat p\<rparr>"
  have take: "take_completions (completions r k) (?st\<lparr>outstanding_recv_wrs := ?o\<rparr>) = Inr ?st1"
    using idx by (cases "k = 0") (auto simp: take_some p_def q_def)
  have drain: "drain ?st1 = Some (Inr ?st2)"
    using drain_values [of ?st1 n] ok n idx by simp
  have stats: "stats ?st2 = stats (fold add_value ?vs st)"
    using stats_add [of "?st1" st ?vs] by (simp add: stats_def)
  have len: "length (completions r k) = k" by (simp add: completions_def)
  obtain cr where cr: "ss_cr st = Some cr" using ok by blast
  show ?thesis
  proof (cases "?o < 512")
    case False
    then have "512 \<le> unat ?o" by (simp add: word_less_nat_alt)
    then have "stat_ok (r + k) ?st2" using ok o by (auto simp: stat_ok_def p_def split: if_splits)
    moreover have "ring_receive (Some (completions r k)) 0 ?st s = Some (Inr ((True, ?st2), s))"
      using False by (simp add: ring_receive_def cr len take drain NUM_RECEIVE_WR_def)
    ultimately show ?thesis using stats unfolding p_def q_def n_def by blast
  next
    case True
    obtain cr' s' where post: "custom_ring_post_recv 0 (build_wrs (posted_receive_buffers st) 512) cr s = Inr ((0, cr'), s')" "nc_rx s' = rest"
      using post_recv_ok [OF assms(3)] by blast
    let ?st3 = "?st2\<lparr>posted_receive_buffers := posted_receive_buffers st + 512, ss_cr := Some cr', outstanding_recv_wrs := ?o + 512\<rparr>"
    have "stat_post_recv 0 512 ?st2 s = Inr ((0, ?st3), s')"
      using cr post(1) by (simp add: stat_post_recv_def Let_def io_bind_def io_return_def)
    then have "ring_receive (Some (completions r k)) 0 ?st s = Some (Inr ((True, ?st3), s'))"
      using True by (simp add: ring_receive_def cr len take drain NUM_RECEIVE_WR_def io_bind_def io_return_def)
    moreover have "unat (?o + 512) = unat ?o + 512"
      using True by (subst unat_add_lem [THEN iffD1]) (simp_all add: word_less_nat_alt)
    then have "stat_ok (r + k) ?st3"
      using ok o True assms(2) by (auto simp: stat_ok_def p_def word_less_nat_alt split: if_splits)
    moreover have "stats ?st3 = stats ?st2" by (simp add: stats_def)
    ultimately show ?thesis using stats post(2) unfolding p_def q_def n_def by auto
  qed
qed

text \<open>
  A sequence of rounds: before each the device fills buffers, and the poll then reports the next completions. The values that are read are those of the
  buffers before the last one completed, as they are in that round.
\<close>

fun ring_rounds :: "(64 word list \<times> nat) list \<Rightarrow> nat \<Rightarrow> stat_server \<Rightarrow> nica_conn \<Rightarrow> (lib_error + stat_server \<times> nica_conn) option" where
  "ring_rounds [] r st s = Some (Inr (st, s))"
| "ring_rounds ((buf, k) # rounds) r st s =
     (case ring_receive (Some (completions r k)) 0 (st\<lparr>receive_buffer := buf\<rparr>) s of
        Some (Inr ((_, st'), s')) \<Rightarrow> ring_rounds rounds (r + k) st' s'
      | Some (Inl e) \<Rightarrow> Some (Inl e)
      | None \<Rightarrow> None)"

fun values_read :: "(64 word list \<times> nat) list \<Rightarrow> nat \<Rightarrow> 32 word list" where
  "values_read [] r = []"
| "values_read ((buf, k) # rounds) r =
     map (\<lambda>i. buffer_value buf (of_nat (r - 1 + i))) [0..<r + k - 1 - (r - 1)] @ values_read rounds (r + k)"

text \<open>
  C10: The statistics server counts each value once and in order. After any number of rounds in which polls report up to sixteen completions each, in the order
  of posting, and the manager accepts the new credits, every round has ended, and the server's statistics are those of the values in the buffers with consecutive identifiers, each taken
  in the round after which it is behind the last completion; the last completed buffer waits for the next completion. In between, buffers are posted again so that at least
  half of them are outstanding, no slot is posted before its value has been read, and this also holds across the wrap-around of the 32 bit indices.
\<close>

theorem ring_values_counted:
  assumes "stat_ok r st" "list_all (\<lambda>(buf, k). k \<le> 16) rounds" "length rounds \<le> m"
    and "nc_rx s = concat (replicate m (reply NICA_CR_UPDATE_CREDITS 0 (le32 0)))"
  shows "\<exists>st' s'. ring_rounds rounds r st s = Some (Inr (st', s')) \<and> stats st' = stats (fold add_value (values_read rounds r) st) \<and>
    stat_ok (r + sum_list (map snd rounds)) st' \<and> unat (posted_receive_buffers st' - consumer_index st') \<le> NUM_RECEIVE_WR"
  using assms
proof (induction rounds arbitrary: r st s m)
  case Nil
  then show ?case using stat_ok_slots by auto
next
  case (Cons a rounds)
  obtain buf k where a: "a = (buf, k)" by (cases a)
  obtain m' where m: "m = Suc m'" using Cons(4) by (cases m) simp_all
  have rx: "nc_rx s = reply NICA_CR_UPDATE_CREDITS 0 (le32 0) @ concat (replicate m' (reply NICA_CR_UPDATE_CREDITS 0 (le32 0)))"
    using Cons(5) m by simp
  obtain st1 s1 where one: "ring_receive (Some (completions r k)) 0 (st\<lparr>receive_buffer := buf\<rparr>) s = Some (Inr ((True, st1), s1))"
    "stat_ok (r + k) st1" "nc_rx s1 \<in> {nc_rx s, concat (replicate m' (reply NICA_CR_UPDATE_CREDITS 0 (le32 0)))}"
    "stats st1 = stats (fold add_value (map (\<lambda>i. buffer_value buf (of_nat (r - 1 + i))) [0..<r + k - 1 - (r - 1)]) st)"
    using ring_round [OF Cons(2) _ rx, of k buf] Cons(3) a by auto
  have "\<exists>j \<ge> length rounds. nc_rx s1 = concat (replicate j (reply NICA_CR_UPDATE_CREDITS 0 (le32 0)))"
    using one(3) Cons(4,5) m by (metis Suc_leD Suc_le_mono insert_iff length_Cons singletonD)
  then obtain j where "length rounds \<le> j" "nc_rx s1 = concat (replicate j (reply NICA_CR_UPDATE_CREDITS 0 (le32 0)))" by blast
  from Cons(1) [OF one(2) _ this] Cons(3)
  obtain st' s' where "ring_rounds rounds (r + k) st1 s1 = Some (Inr (st', s'))" "stats st' = stats (fold add_value (values_read rounds (r + k)) st1)"
    "stat_ok (r + k + sum_list (map snd rounds)) st'" "unat (posted_receive_buffers st' - consumer_index st') \<le> NUM_RECEIVE_WR" by auto
  then show ?case using one(1) stats_add [OF one(4)] by (simp add: a add.assoc)
qed

definition demo_server :: stat_server where
  "demo_server = (stat_init 5 True [])\<lparr>ss_cr := Some \<lparr>ch_credits = 1024, ch_msn = 0, ch_msn_diff = 0, ch_handle = 1, ch_qp_num = 9\<rparr>,
     posted_receive_buffers := 1024, outstanding_recv_wrs := 1024\<rparr>"

lemma ring_values_counted_witness:
  "\<exists>st' s'. ring_rounds [(replicate 1024 7, 3)] 0 demo_server
      \<lparr>nc_rx = reply NICA_CR_UPDATE_CREDITS 0 (le32 0), nc_tx = [], nc_errno = 0\<rparr> = Some (Inr (st', s')) \<and>
    stats st' = (2, 14, 7, 0, 2, 5)"
proof -
  have "stat_ok 0 demo_server" by (simp add: stat_ok_def demo_server_def stat_init_def)
  moreover have "values_read [(replicate 1024 7, 3)] 0 = [7, 7]"
    by (simp add: buffer_value_def NUM_RECEIVE_WR_def numeral_3_eq_3)
  ultimately show ?thesis
    using ring_values_counted [of 0 demo_server "[(replicate 1024 7, 3)]" 1
        "\<lparr>nc_rx = reply NICA_CR_UPDATE_CREDITS 0 (le32 0), nc_tx = [], nc_errno = 0\<rparr>"]
    by (auto simp: stats_def add_value_def demo_server_def stat_init_def)
qed

text \<open>The constructor brings the server into the state from which the rounds start.\<close>

lemma setup_posts_all:
  assumes "nc_rx s = reply NICA_CR_UPDATE_CREDITS 0 (le32 0) @ rest" "ss_cr st = Some cr" "use_custom_ring st"
    "producer_index st = 0" "consumer_index st = 0" "posted_receive_buffers st = 0" "outstanding_recv_wrs st = 0"
  shows "\<exists>st' s'. stat_post_recv 0 NUM_RECEIVE_WR st s = Inr ((0, st'), s') \<and> stat_ok 0 st'"
proof -
  obtain cr' s' where post: "custom_ring_post_recv 0 (build_wrs 0 NUM_RECEIVE_WR) cr s = Inr ((0, cr'), s')"
    using post_recv_ok [OF assms(1)] by blast
  then show ?thesis
    using assms(2-) by (simp add: stat_post_recv_def Let_def io_bind_def io_return_def stat_ok_def NUM_RECEIVE_WR_def)
qed

text \<open>The minimum is never anything but zero, where the constructor starts it.\<close>

lemma min_stays_zero: "ss_min st = 0 \<Longrightarrow> ss_min (fold add_value vs st) = 0"
  by (induction vs arbitrary: st) (simp_all add: add_value_def)

end
