(* ===== verification/Host_Servers.thy ===== *)
theory Host_Servers
  imports Stat_Server Cms
begin

text \<open>
  The host sides of the echo and count-min sketch ikernels, \<open>src/software/EchoUdpServer.cpp\<close> and \<open>src/software/CmsUdpServer.cpp\<close>. What an
  operation does to the ikernel goes through the client library. The Fibonacci heap of Boost is a record of operations; random hash parameters are arguments.
\<close>

section \<open>Echo\<close>

record echo_server =
  es_count :: "32 word"
  es_data :: "8 word list"
  es_ik :: "host_ikernel option"

definition htonl :: "32 word \<Rightarrow> 32 word" where
  "htonl x = cpu_to_be32 x"

definition echo_server_new :: "host_env \<Rightarrow> 8 word list \<Rightarrow> 8 word list \<Rightarrow> int \<Rightarrow> 8 word list \<Rightarrow> echo_server io" where
  "echo_server_new env netdev uuid fd data =
     io_bind (ik_create (he_junk_size env) netdev uuid) (\<lambda>ik_opt.
     let st = \<lparr>es_count = 0, es_data = data, es_ik = ik_opt\<rparr>
     in case ik_opt of
          None \<Rightarrow> io_return st
        | Some ik \<Rightarrow> io_bind (ik_attach (he_junk_resp env) (he_fd_sent env) fd ik) (\<lambda>_. io_return st))"

definition echo_read_int :: "echo_server \<Rightarrow> 32 word" where
  "echo_read_int st = ntohl (of_le32 (es_data st))"

text \<open>The datagram that is sent back, and the new state.\<close>

definition echo_process :: "nat \<Rightarrow> echo_server \<Rightarrow> lib_error + 8 word list \<times> echo_server" where
  "echo_process l st =
     (if \<not> l \<ge> 4 then Inl Assertion
      else Inr (le32 (htonl (echo_read_int st)), st\<lparr>es_count := es_count st + 1\<rparr>))"

lemma echo_returns_data: "\<lbrakk>4 \<le> l; 4 \<le> length (es_data st)\<rbrakk> \<Longrightarrow> echo_process l st = Inr (take 4 (es_data st), st\<lparr>es_count := es_count st + 1\<rparr>)"
  by (simp add: echo_process_def echo_read_int_def htonl_def ntohl_def le32_of_le32)

section \<open>Heavy hitters\<close>

record ('h, 'n) fib_ops =
  fh_size :: "'h \<Rightarrow> nat"
  fh_top :: "'h \<Rightarrow> 32 word \<times> 32 word"
  fh_pop :: "'h \<Rightarrow> 'h"
  fh_push :: "32 word \<times> 32 word \<Rightarrow> 'h \<Rightarrow> 'n \<times> 'h"
  fh_increment :: "'n \<Rightarrow> 'h \<Rightarrow> 'h"
  fh_increase :: "'n \<Rightarrow> 'h \<Rightarrow> 'h"

record ('h, 'n) cms_server =
  cs_ik :: "host_ikernel option"
  cs_sketch :: CountMinSketch
  cs_k :: "32 word"
  cs_topK :: 'h
  cs_index :: "32 word \<Rightarrow> 'n option"
  cs_data :: "8 word list"

definition TOPK_DEFAULT :: "32 word" where "TOPK_DEFAULT = 256"

definition CMS_UUID :: "8 word list" where
  "CMS_UUID = [0xe8, 0x05, 0xb0, 0xd0, 0x79, 0xba, 0x4c, 0x5d, 0xb9, 0x75, 0x45, 0x31, 0x6e, 0x45, 0x26, 0x72]"

fun write_hashes :: "host_ikernel \<Rightarrow> (nat \<times> nat \<Rightarrow> 32 word) \<Rightarrow> (nat \<times> nat) list \<Rightarrow> unit io" where
  "write_hashes ik rnd [] = io_return ()"
| "write_hashes ik rnd ((i, j) # ijs) =
     io_bind (ik_write ik (of_nat (2 * i + j) + HASHES_BASE) (rnd (i, j))) (\<lambda>_. write_hashes ik rnd ijs)"

definition read_k_value :: "host_ikernel \<Rightarrow> 32 word \<Rightarrow> (32 word) io" where
  "read_k_value ik k = io_bind (ik_read ik READ_K_VALUE k) (\<lambda>(_, v). io_return v)"

text \<open>The constructor; the member \<open>_k\<close> is uninitialised until it is set or read, \<open>junk_k\<close>.\<close>

definition cms_server_new ::
  "host_env \<Rightarrow> 8 word list \<Rightarrow> int \<Rightarrow> 32 word list list \<Rightarrow> (nat \<times> nat \<Rightarrow> 32 word) \<Rightarrow> 32 word \<Rightarrow> 'h \<Rightarrow> 8 word list \<Rightarrow> (('h, 'n) cms_server) io" where
  "cms_server_new env netdev fd hashes rnd junk_k empty_heap data =
     (let sk = setHashes hashes (sketch_new hashes)
      in io_bind (ik_create (he_junk_size env) netdev CMS_UUID) (\<lambda>ik_opt.
         let st = \<lparr>cs_ik = ik_opt, cs_sketch = sk, cs_k = junk_k, cs_topK = empty_heap, cs_index = Map.empty, cs_data = data\<rparr>
         in case ik_opt of
              None \<Rightarrow> io_return (st\<lparr>cs_k := TOPK_DEFAULT\<rparr>)
            | Some ik \<Rightarrow>
                io_bind (write_hashes ik rnd [(0, 0), (0, 1), (1, 0), (1, 1), (2, 0), (2, 1)]) (\<lambda>_.
                io_bind (read_k_value ik junk_k) (\<lambda>k.
                io_bind (ik_attach (he_junk_resp env) (he_fd_sent env) fd ik) (\<lambda>_. io_return (st\<lparr>cs_k := k\<rparr>))))))"

definition cms_read_int :: "('h, 'n) cms_server \<Rightarrow> 32 word" where
  "cms_read_int st = ntohl (of_le32 (drop 14 (cs_data st)))"

definition cms_process :: "('h, 'n) fib_ops \<Rightarrow> nat \<Rightarrow> ('h, 'n) cms_server \<Rightarrow> lib_error + ('h, 'n) cms_server" where
  "cms_process ops l st =
     (if \<not> l \<ge> 4 then Inl Assertion
      else (let new_data = cms_read_int st;
                st1 = st\<lparr>cs_sketch := cms_update new_data 1 (cs_sketch st)\<rparr>
            in case cs_index st1 new_data of
                 Some handle \<Rightarrow> Inr (st1\<lparr>cs_topK := fh_increase ops handle (fh_increment ops handle (cs_topK st1))\<rparr>)
               | None \<Rightarrow>
                   (let estimatedCount = estimate new_data (cs_sketch st1)
                    in if fh_size ops (cs_topK st1) \<ge> unat (cs_k st1) \<and> snd (fh_top ops (cs_topK st1)) > estimatedCount then Inr st1
                       else
                         (let st2 = (if fh_size ops (cs_topK st1) \<ge> unat (cs_k st1)
                                     then st1\<lparr>cs_index := (cs_index st1)(fst (fh_top ops (cs_topK st1)) := None),
                                              cs_topK := fh_pop ops (cs_topK st1)\<rparr>
                                     else st1);
                              (handle, topK) = fh_push ops (new_data, estimatedCount) (cs_topK st2)
                          in Inr (st2\<lparr>cs_topK := topK, cs_index := (cs_index st2)(new_data := Some handle)\<rparr>)))))"

text \<open>The heap is emptied from its top; the loop does not return if the heap never gets empty.\<close>

partial_function (option) get_host_topK :: "('h, 'n) fib_ops \<Rightarrow> 32 word list \<Rightarrow> 'h \<Rightarrow> (32 word list \<times> 'h) option" where
  "get_host_topK ops topKValues h =
     (if fh_size ops h = 0 then Some (topKValues, h)
      else get_host_topK ops (topKValues @ [fst (fh_top ops h), snd (fh_top ops h)]) (fh_pop ops h))"

fun read_cells :: "host_ikernel \<Rightarrow> nat \<Rightarrow> (32 word list) io" where
  "read_cells ik 0 = io_return []"
| "read_cells ik (Suc n) =
     io_bind (ik_read ik TOPK_READ_NEXT_VALUE 0) (\<lambda>(ret, hw_cell).
     io_bind (read_cells ik n) (\<lambda>cells. io_return (if ret \<noteq> 0 then cells else hw_cell # cells)))"

definition get_topK :: "bool \<Rightarrow> int \<Rightarrow> ('h, 'n) cms_server \<Rightarrow> (32 word list) io" where
  "get_topK fd_sent fd st =
     (case cs_ik st of
        None \<Rightarrow> io_return []
      | Some ik \<Rightarrow>
          io_bind (ik_detach fd_sent fd ik) (\<lambda>_.
          io_bind (ik_write ik READ_TOP_K 0) (\<lambda>_. read_cells ik (unat (2 * cs_k st)))))"

text \<open>What is used of the heap here: its size counts pushes and pops.\<close>

definition heap_counts :: "('h, 'n) fib_ops \<Rightarrow> bool" where
  "heap_counts ops \<longleftrightarrow> (\<forall>h. fh_size ops (fh_pop ops h) = fh_size ops h - 1) \<and> (\<forall>x h. fh_size ops (snd (fh_push ops x h)) = Suc (fh_size ops h)) \<and>
     (\<forall>n h. fh_size ops (fh_increment ops n h) = fh_size ops h) \<and> (\<forall>n h. fh_size ops (fh_increase ops n h) = fh_size ops h)"

lemma cms_process_bounded:
  assumes "heap_counts ops" "0 < unat (cs_k st)" "fh_size ops (cs_topK st) \<le> unat (cs_k st)" "cms_process ops l st = Inr st'"
  shows "fh_size ops (cs_topK st') \<le> unat (cs_k st') \<and> cs_k st' = cs_k st \<and> cs_sketch st' = cms_update (cms_read_int st) 1 (cs_sketch st)"
proof -
  have pop: "\<And>h. fh_size ops (fh_pop ops h) = fh_size ops h - 1" and push: "\<And>x h n h'. fh_push ops x h = (n, h') \<Longrightarrow> fh_size ops h' = Suc (fh_size ops h)"
    and same: "\<And>n h. fh_size ops (fh_increase ops n (fh_increment ops n h)) = fh_size ops h"
    using assms(1) unfolding heap_counts_def by (auto, metis snd_conv)
  show ?thesis
    using assms(2-) by (auto simp: cms_process_def Let_def pop same dest!: push split: if_splits option.splits prod.splits)
qed

lemma get_host_topK_returns:
  assumes "heap_counts ops"
  shows "\<exists>vs h'. get_host_topK ops sofar h = Some (sofar @ vs, h') \<and> length vs = 2 * fh_size ops h \<and> fh_size ops h' = 0"
proof (induction "fh_size ops h" arbitrary: sofar h)
  case 0
  then show ?case by (simp add: get_host_topK.simps)
next
  case (Suc n)
  have "fh_size ops (fh_pop ops h) = n" using assms Suc(2) by (simp add: heap_counts_def flip: Suc(2))
  from Suc(1) [OF this [symmetric], of "sofar @ [fst (fh_top ops h), snd (fh_top ops h)]"] this Suc(2) [symmetric] show ?case
    by (subst get_host_topK.simps) auto
qed

text \<open>
  With a manager that follows its protocol, reading the heavy hitters of the ikernel never gets past \<open>ik_detach\<close>.
\<close>

lemma get_topK_fails:
  assumes "cs_ik st = Some ik" "nc_rx s = reply NICA_IK_DETACH 0 (le32 v) @ rest"
  shows "get_topK True fd st s = Inl Assertion"
  using assms by (simp add: get_topK_def io_bind_def ik_detach_fails)

end
