(* ===== verification/Emulation.thy ===== *)
theory Emulation
  imports Libnica Mlx Ikernel_Base
begin

unbundle bit_operations_syntax

text \<open>
  The emulation \<open>src/emulation/emu-top.cpp\<close>, which runs the design in software: a register file with the addresses of the hardware, packets of bytes cut into words
  and put together again, and the checksum that the hardware around the design would fill in. \<open>set_data\<close> and \<open>get_data\<close> of \<open>axi_data\<close>, which convert between
  bytes and words, and the registers of the gateways come from \<open>ntl\<close> and are parameters.
\<close>

section \<open>Registers\<close>

text \<open>
  The registers of a gateway are a structure of \<open>ntl\<close>, a value of type \<open>'g\<close> here. The access functions read and write its members: the address and the start bit
  of the command, the latter already shifted to bit 31 (its type decides what the shift gives), the data and the result.
\<close>

record 'g ntl_gateway =
  ng_addr :: "'g \<Rightarrow> 32 word"
  ng_go_shifted :: "'g \<Rightarrow> 32 word"
  ng_data :: "'g \<Rightarrow> 32 word"
  ng_done :: "'g \<Rightarrow> 32 word"
  ng_set_addr :: "32 word \<Rightarrow> 'g \<Rightarrow> 'g"
  ng_set_go :: "32 word \<Rightarrow> 'g \<Rightarrow> 'g"
  ng_set_data :: "32 word \<Rightarrow> 'g \<Rightarrow> 'g"
  ng_set_done :: "32 word \<Rightarrow> 'g \<Rightarrow> 'g"

text \<open>An access takes the register and the value that the pointer refers to, and returns both.\<close>

definition var_access :: "'a \<Rightarrow> ('a \<Rightarrow> 32 word) \<Rightarrow> (32 word \<Rightarrow> 'a) \<Rightarrow> 32 word \<Rightarrow> bool \<Rightarrow> 'a \<times> 32 word" where
  "var_access lhs to_rhs of_rhs rhs rd = (if rd then (lhs, to_rhs lhs) else (of_rhs rhs, rhs))"

definition gateway_access :: "'g ntl_gateway \<Rightarrow> 32 word \<Rightarrow> 32 word \<Rightarrow> bool \<Rightarrow> 'g \<Rightarrow> 32 word \<times> 'g" where
  "gateway_access ng address v rd g =
     (if address = 0x0 then
        (let cmd = ng_addr ng g OR ng_go_shifted ng g;
             (cmd', v') = var_access cmd id id v rd
         in (v', ng_set_go ng (drop_bit 31 cmd') (ng_set_addr ng (cmd' AND 0x7fffffff) g)))
      else if address = 0x8 \<or> address = 0x10 then
        (if rd then (ng_data ng g, g) else (v, ng_set_data ng v g))
      else if address = 0x18 then
        (if rd then (ng_done ng g, g) else (v, ng_set_done ng v g))
      else if address = 0x14 \<or> address = 0x1c then (if rd then 1 else v, g)
      else (v, g))"

record 'g emu_virt_gateway =
  ev_common :: 'g
  ev_ikernel_id :: ikernel_id_t

definition virt_gateway_access :: "'g ntl_gateway \<Rightarrow> 32 word \<Rightarrow> 32 word \<Rightarrow> bool \<Rightarrow> 'g emu_virt_gateway \<Rightarrow> 32 word \<times> 'g emu_virt_gateway" where
  "virt_gateway_access ng address v rd g =
     (if address = 0x20 then
        (let (i, v') = var_access (ev_ikernel_id g) ucast ucast v rd in (v', g\<lparr>ev_ikernel_id := i\<rparr>))
      else (let (v', c) = gateway_access ng address v rd (ev_common g) in (v', g\<lparr>ev_common := c\<rparr>)))"

text \<open>
  The ikernel that a wrapper runs, and its registers. The ports and counters of the wrapper, apart from the credits, are only handed to the ikernel and have no register.
\<close>

datatype ikernel_func = Threshold_top | Passthrough_top | Pktgen_top | Memcached_top

record 'g emu_ikernel =
  ei_func :: "ikernel_func option"
  ei_uuid :: "8 word list"
  ei_gateway :: "'g emu_virt_gateway"
  ei_credit :: credit_update_registers

definition put_le32 :: "nat \<Rightarrow> 32 word \<Rightarrow> 8 word list \<Rightarrow> 8 word list" where
  "put_le32 i v bs = take i bs @ le32 v @ drop (i + 4) bs"

definition credit_word :: "credit_update_registers \<Rightarrow> 32 word" where
  "credit_word c = push_bit 7 (push_bit 16 (of_bool (cu_reset c)) OR ucast (cu_max_msn c)) OR ucast (cu_ring_id c)"

definition credit_of_word :: "32 word \<Rightarrow> credit_update_registers \<Rightarrow> credit_update_registers" where
  "credit_of_word w c = c\<lparr>cu_ring_id := ucast w, cu_max_msn := ucast (drop_bit 7 w), cu_reset := (ucast (drop_bit 16 (drop_bit 7 w)) :: 1 word) \<noteq> 0\<rparr>"

definition ikernel_access :: "'g ntl_gateway \<Rightarrow> 32 word \<Rightarrow> 32 word \<Rightarrow> bool \<Rightarrow> 'g emu_ikernel \<Rightarrow> 32 word \<times> 'g emu_ikernel" where
  "ikernel_access ng address v rd ik =
     (if address \<ge> 0x14 \<and> address \<le> 0x38 then
        (let (v', g) = virt_gateway_access ng (address - 0x14) v rd (ei_gateway ik) in (v', ik\<lparr>ei_gateway := g\<rparr>))
      else if address = 0x0 \<or> address = 0x4 \<or> address = 0x8 \<or> address = 0xc then
        (let (w, v') = var_access (of_le32 (drop (unat address) (ei_uuid ik))) id id v rd
         in (v', ik\<lparr>ei_uuid := put_le32 (unat address) w (ei_uuid ik)\<rparr>))
      else if address = 0x10 then (if rd then 1 else v, ik)
      else if address = 0x50 then
        (let (w, v') = var_access (credit_word (ei_credit ik)) id id v rd
         in (v', ik\<lparr>ei_credit := credit_of_word w (ei_credit ik)\<rparr>))
      else (v, ik))"

record 'g emulation =
  em_ikernels :: "'g emu_ikernel list"
  em_n2h_ft :: 'g
  em_h2n_ft :: 'g
  em_n2h_ring :: 'g
  em_n2h_enable :: bool
  em_h2n_enable :: bool
  em_flow_table_size :: "32 word"

definition of_flag :: "bool \<Rightarrow> 32 word" where "of_flag b = of_bool b"
definition to_flag :: "32 word \<Rightarrow> bool" where "to_flag w \<longleftrightarrow> w \<noteq> 0"

definition emu_access :: "'g ntl_gateway \<Rightarrow> 32 word \<Rightarrow> 32 word \<Rightarrow> bool \<Rightarrow> 'g emulation \<Rightarrow> 32 word \<times> 'g emulation" where
  "emu_access ng address v rd e =
     (if address \<ge> 0x1000 \<and> unat address < 0x1000 * (length (em_ikernels e) + 1) then
        (let i = unat address div 0x1000 - 1;
             (v', ik) = ikernel_access ng (of_nat (unat address - unat address div 0x1000 * 0x1000)) v rd (em_ikernels e ! i)
         in (v', e\<lparr>em_ikernels := (em_ikernels e)[i := ik]\<rparr>))
      else if address \<ge> 0x18 \<and> address \<le> 0x34 then
        (let (v', g) = gateway_access ng (address - 0x18) v rd (em_n2h_ft e) in (v', e\<lparr>em_n2h_ft := g\<rparr>))
      else if address \<ge> 0x418 \<and> address \<le> 0x434 then
        (let (v', g) = gateway_access ng (address - 0x418) v rd (em_h2n_ft e) in (v', e\<lparr>em_h2n_ft := g\<rparr>))
      else if address \<ge> 0x78 \<and> address \<le> 0x94 then
        (let (v', g) = gateway_access ng (address - 0x78) v rd (em_n2h_ring e) in (v', e\<lparr>em_n2h_ring := g\<rparr>))
      else if address = 0x10 then
        (let (b, v') = var_access (em_n2h_enable e) of_flag to_flag v rd in (v', e\<lparr>em_n2h_enable := b\<rparr>))
      else if address = 0x410 then
        (let (b, v') = var_access (em_h2n_enable e) of_flag to_flag v rd in (v', e\<lparr>em_h2n_enable := b\<rparr>))
      else if address = 0x800 then
        (let (w, v') = var_access (em_flow_table_size e) id id v rd in (v', e\<lparr>em_flow_table_size := w\<rparr>))
      else (v, e))"

definition emu_reg_read :: "'g ntl_gateway \<Rightarrow> 32 word \<Rightarrow> 32 word \<Rightarrow> 'g emulation \<Rightarrow> 32 word \<times> 'g emulation" where
  "emu_reg_read ng address v e = emu_access ng address v True e"

definition emu_reg_write :: "'g ntl_gateway \<Rightarrow> 32 word \<Rightarrow> 32 word \<Rightarrow> 'g emulation \<Rightarrow> 'g emulation" where
  "emu_reg_write ng address v e = snd (emu_access ng address v False e)"

section \<open>Start\<close>

text \<open>
  The wrappers are created from the environment: \<open>NUM_IKERNELS\<close> is their number, one if it is not set, and \<open>IKERNEL0\<close> and so on name the ikernels. The number goes
  through \<open>std::stoi\<close>, which skips white space, accepts a sign and ignores what follows the digits, and then becomes unsigned. \<open>max_ikernels\<close>
  is the \<open>NUM_IKERNELS\<close> of the build. The UUID of a new wrapper is uninitialised.
\<close>

datatype emu_error = Invalid_argument | Out_of_range | Std_exception

definition is_space :: "char \<Rightarrow> bool" where
  "is_space c \<longleftrightarrow> (of_char c :: nat) \<in> {9, 10, 11, 12, 13, 32}"

definition is_digit :: "char \<Rightarrow> bool" where
  "is_digit c \<longleftrightarrow> 48 \<le> (of_char c :: nat) \<and> (of_char c :: nat) \<le> 57"

definition digits_value :: "string \<Rightarrow> int" where
  "digits_value ds = foldl (\<lambda>n c. 10 * n + (int (of_char c) - 48)) 0 ds"

definition stoi :: "string \<Rightarrow> emu_error + int" where
  "stoi str =
     (let t = dropWhile is_space str;
          (sign, u) = (case t of c # cs \<Rightarrow> if c = CHR ''-'' then (- 1, cs) else if c = CHR ''+'' then (1, cs) else (1, t) | [] \<Rightarrow> (1, t));
          ds = takeWhile is_digit u;
          n = sign * digits_value ds
      in if ds = [] then Inl Invalid_argument
         else if n < - (2 ^ 31) \<or> n \<ge> 2 ^ 31 then Inl Out_of_range
         else Inr n)"

fun to_string :: "nat \<Rightarrow> string" where
  "to_string n = (if n < 10 then [char_of (48 + n)] else to_string (n div 10) @ [char_of (48 + n mod 10)])"

declare to_string.simps [simp del]

definition emu_ikernel_init :: "(string \<Rightarrow> string option) \<Rightarrow> nat \<Rightarrow> 'g emu_ikernel \<Rightarrow> emu_error + 'g emu_ikernel" where
  "emu_ikernel_init getenv i ik =
     (let ikernel_str = (case getenv (''IKERNEL'' @ to_string i) of None \<Rightarrow> ''threshold'' | Some name \<Rightarrow> name)
      in if ikernel_str = ''threshold'' then Inr (ik\<lparr>ei_func := Some Threshold_top\<rparr>)
         else if ikernel_str = ''passthrough'' then Inr (ik\<lparr>ei_func := Some Passthrough_top\<rparr>)
         else if ikernel_str = ''pktgen'' then Inr (ik\<lparr>ei_func := Some Pktgen_top\<rparr>)
         else if ikernel_str = ''memcached'' then Inr (ik\<lparr>ei_func := Some Memcached_top\<rparr>)
         else Inl Std_exception)"

definition emu_ikernel_new :: "'g \<Rightarrow> 8 word list \<Rightarrow> 'g emu_ikernel" where
  "emu_ikernel_new g junk =
     \<lparr>ei_func = None, ei_uuid = junk, ei_gateway = \<lparr>ev_common = g, ev_ikernel_id = 0\<rparr>, ei_credit = \<lparr>cu_ring_id = 0, cu_max_msn = 0, cu_reset = False\<rparr>\<rparr>"

fun init_each :: "(string \<Rightarrow> string option) \<Rightarrow> nat \<Rightarrow> 'g emu_ikernel list \<Rightarrow> emu_error + 'g emu_ikernel list" where
  "init_each getenv i [] = Inr []"
| "init_each getenv i (ik # iks) =
     (case emu_ikernel_init getenv i ik of
        Inl e \<Rightarrow> Inl e
      | Inr ik' \<Rightarrow> (case init_each getenv (i + 1) iks of Inl e \<Rightarrow> Inl e | Inr iks' \<Rightarrow> Inr (ik' # iks')))"

definition init_ikernels ::
  "nat \<Rightarrow> (string \<Rightarrow> string option) \<Rightarrow> 'g \<Rightarrow> (nat \<Rightarrow> 8 word list) \<Rightarrow> emu_error + 'g emu_ikernel list" where
  "init_ikernels max_ikernels getenv g junk =
     (case stoi (case getenv ''NUM_IKERNELS'' of None \<Rightarrow> ''1'' | Some n \<Rightarrow> n) of
        Inl e \<Rightarrow> Inl e
      | Inr n \<Rightarrow>
          (let num_ikernels = unat (word_of_int n :: 64 word)
           in if num_ikernels > max_ikernels then Inl Std_exception
              else init_each getenv 0 (map (\<lambda>i. emu_ikernel_new g (junk i)) [0..<num_ikernels])))"

section \<open>Packets\<close>

definition send_flit :: "(8 word list \<Rightarrow> nat \<Rightarrow> 256 word \<times> 32 word) \<Rightarrow> 8 word list \<Rightarrow> nat \<Rightarrow> axi_data" where
  "send_flit set_data pkt i =
     (let cur_len = min (length pkt - i) 32; (d, k) = set_data (take cur_len (drop i pkt)) cur_len
      in \<lparr>ad_data = d, ad_keep = k, ad_last = (i + cur_len = length pkt)\<rparr>)"

definition emu_flits :: "(8 word list \<Rightarrow> nat \<Rightarrow> 256 word \<times> 32 word) \<Rightarrow> 8 word list \<Rightarrow> axi_data list" where
  "emu_flits set_data pkt = map (\<lambda>j. send_flit set_data pkt (32 * j)) [0..<(length pkt + 31) div 32]"

datatype emu_interface = Net | Host

definition emu_send_packet ::
  "(8 word list \<Rightarrow> nat \<Rightarrow> 256 word \<times> 32 word) \<Rightarrow> emu_interface \<Rightarrow> 8 word list \<Rightarrow> axi4s list \<times> axi4s list \<Rightarrow> axi4s list \<times> axi4s list" where
  "emu_send_packet set_data dir pkt q =
     (let fs = map (\<lambda>f. axi4s_of_axi_data f 0 1) (emu_flits set_data pkt)
      in if dir = Net then (fst q @ fs, snd q) else (fst q, snd q @ fs))"

text \<open>
  A packet buffer holds the bytes received so far of the packet that is coming in. The bytes that do not fit into its 2048 are dropped.
\<close>

fun buffer_get :: "(axi_data \<Rightarrow> 8 word list) \<Rightarrow> axi_data list \<Rightarrow> 8 word list \<Rightarrow> 8 word list option \<times> 8 word list \<times> axi_data list" where
  "buffer_get get_data [] pkt = (None, pkt, [])"
| "buffer_get get_data (flit # flits) pkt =
     (let pkt1 = (if length pkt < 2048 - 32 then pkt @ get_data flit else pkt)
      in if ad_last flit then (Some pkt1, [], flits) else buffer_get get_data flits pkt1)"

section \<open>Checksum\<close>

definition emu_ntohl :: "8 word list \<Rightarrow> 32 word" where
  "emu_ntohl data = ucast (data ! 3) OR push_bit 8 (ucast (data ! 2)) OR push_bit 16 (ucast (data ! 1)) OR push_bit 24 (ucast (data ! 0))"

definition emu_htons :: "16 word \<Rightarrow> 16 word" where
  "emu_htons n = push_bit 8 (n AND 0xff) OR drop_bit 8 (n AND 0xff00)"

text \<open>The words of the data after the first, which is partial when the data is not aligned: \<open>offset\<close> is the address modulo four.\<close>

fun acc_words :: "8 word list \<Rightarrow> 64 word \<Rightarrow> 64 word" where
  "acc_words (a # b # c # d # data) acc = acc_words data (acc + ucast (emu_ntohl [a, b, c, d]))"
| "acc_words [] acc = acc"
| "acc_words data acc = acc + ucast (emu_ntohl (take 4 (data @ [0, 0, 0, 0])))"

lemma carry_step: "unat ((acc AND 0xffff) + drop_bit 16 acc) = unat acc mod 65536 + unat acc div 65536" for acc :: "64 word"
proof -
  have "acc AND 0xffff = acc mod 65536" using take_bit_eq_mask [of 16 acc] by (simp add: mask_eq_exp_minus_1 take_bit_eq_mod)
  then have a: "unat (acc AND 0xffff) = unat acc mod 65536" by (simp add: unat_mod_distrib)
  have b: "unat (drop_bit 16 acc) = unat acc div 65536" by (simp add: drop_bit_eq_div unat_div_distrib)
  have "unat acc < 2 ^ 64" using unsigned_less [of acc] by simp
  then have "unat acc mod 65536 + unat acc div 65536 < 2 ^ 64" by simp
  then show ?thesis by (subst unat_add_lem [THEN iffD1]) (simp_all add: a b)
qed

lemma carry_less: "drop_bit 16 acc \<noteq> 0 \<Longrightarrow> unat acc mod 65536 + unat acc div 65536 < unat acc" for acc :: "64 word"
proof -
  assume "drop_bit 16 acc \<noteq> 0"
  then have "unat (drop_bit 16 acc) \<noteq> 0" by (simp add: unat_eq_0)
  then have "unat acc div 65536 > 0" by (simp add: drop_bit_eq_div unat_div_distrib)
  moreover have "unat acc = unat acc div 65536 * 65536 + unat acc mod 65536" by simp
  ultimately show ?thesis by linarith
qed

function acc_carries :: "64 word \<Rightarrow> 64 word" where
  "acc_carries acc = (if drop_bit 16 acc \<noteq> 0 then acc_carries ((acc AND 0xffff) + drop_bit 16 acc) else acc)"
  by pat_completeness auto

termination
  by (relation "measure unat") (simp_all add: carry_step carry_less)

declare acc_carries.simps [simp del]

definition emu_ip_checksum :: "nat \<Rightarrow> 8 word list \<Rightarrow> 16 word" where
  "emu_ip_checksum offset data =
     (let cnt = min (4 - offset) (length data);
          acc = (if offset \<noteq> 0 then 0xffff + ucast (emu_ntohl (replicate offset 0 @ take cnt data @ replicate 4 0)) else 0xffff) :: 64 word;
          acc = acc_words (if offset \<noteq> 0 then drop cnt data else data) acc;
          acc = acc_carries ((acc AND 0xffffffff) + drop_bit 32 acc);
          acc = (if odd offset then drop_bit 8 (acc AND 0xff00) OR push_bit 8 (acc AND 0xff) else acc)
      in emu_htons (ucast (NOT acc)))"

text \<open>
  \<open>get_packet\<close> takes the next packet for the network, or else for the host, and fills in the checksum of IPv4 packets. \<open>memory\<close> is what follows the packet in
  the buffer, where the header of a short packet is read. The buffers are aligned, so that the IP header, 14 bytes into them, is at offset 2.
\<close>

definition fill_checksum :: "8 word list \<Rightarrow> 8 word list \<Rightarrow> 8 word list" where
  "fill_checksum memory pkt =
     (if length pkt < 26 \<or> of_le16 (drop 12 pkt) \<noteq> 8 then pkt
      else (let zeroed = pkt[24 := 0, 25 := 0];
                csum = emu_ip_checksum 2 (take 20 (drop 14 (zeroed @ memory)))
            in zeroed[24 := ucast csum, 25 := ucast (drop_bit 8 csum)]))"

record packet_buffers =
  pb_net :: "8 word list"
  pb_host :: "8 word list"
  pb_net_out :: "axi_data list"
  pb_host_out :: "axi_data list"

definition emu_get_packet :: "(axi_data \<Rightarrow> 8 word list) \<Rightarrow> 8 word list \<Rightarrow> packet_buffers \<Rightarrow> (emu_interface \<times> 8 word list) option \<times> packet_buffers" where
  "emu_get_packet get_data memory b =
     (let (r, pkt, out) = buffer_get get_data (pb_net_out b) (pb_net b);
          b1 = b\<lparr>pb_net := pkt, pb_net_out := out\<rparr>
      in case r of
           Some p \<Rightarrow> (Some (Net, fill_checksum memory p), b1)
         | None \<Rightarrow>
             (let (r, pkt, out) = buffer_get get_data (pb_host_out b1) (pb_host b1);
                  b2 = b1\<lparr>pb_host := pkt, pb_host_out := out\<rparr>
              in (map_option (\<lambda>p. (Host, fill_checksum memory p)) r, b2)))"

section \<open>Packets pass unchanged\<close>

text \<open>What is used of the conversions: the bytes put into a word are the bytes got out of it.\<close>

definition data_inverse :: "(8 word list \<Rightarrow> nat \<Rightarrow> 256 word \<times> 32 word) \<Rightarrow> (axi_data \<Rightarrow> 8 word list) \<Rightarrow> bool" where
  "data_inverse set_data get_data \<longleftrightarrow>
     (\<forall>bs l. 0 < length bs \<and> length bs \<le> 32 \<longrightarrow>
        get_data \<lparr>ad_data = fst (set_data bs (length bs)), ad_keep = snd (set_data bs (length bs)), ad_last = l\<rparr> = bs)"

lemma get_flit:
  assumes "data_inverse set_data get_data" "i < length pkt"
  shows "get_data (send_flit set_data pkt i) = take 32 (drop i pkt)"
    and "ad_last (send_flit set_data pkt i) \<longleftrightarrow> length pkt \<le> i + 32"
proof -
  let ?n = "min (length pkt - i) 32"
  have "length (take ?n (drop i pkt)) = ?n" "0 < ?n" using assms(2) by auto
  then show "get_data (send_flit set_data pkt i) = take 32 (drop i pkt)"
    using assms(1) unfolding data_inverse_def
    by (auto simp: send_flit_def Let_def split_beta min_def split: if_splits dest!: spec [of _ "take ?n (drop i pkt)"])
  show "ad_last (send_flit set_data pkt i) \<longleftrightarrow> length pkt \<le> i + 32"
    using assms(2) by (auto simp: send_flit_def Let_def split_beta)
qed

lemma buffer_get_flits:
  assumes "data_inverse set_data get_data" "length pkt \<le> 2016" "32 * j < length pkt"
  shows "buffer_get get_data (map (\<lambda>j. send_flit set_data pkt (32 * j)) [j..<(length pkt + 31) div 32] @ rest) (take (32 * j) pkt) =
    (Some pkt, [], rest)"
  using assms(3)
proof (induction "(length pkt + 31) div 32 - j" arbitrary: j)
  case 0
  then show ?case by simp
next
  case (Suc n)
  have j: "j < (length pkt + 31) div 32" using Suc(2) by simp
  note flit = get_flit [OF assms(1) Suc(3)]
  have len: "length (take (32 * j) pkt) < 2048 - 32" using Suc(3) assms(2) by simp
  have grow: "take (32 * j) pkt @ take 32 (drop (32 * j) pkt) = take (32 * Suc j) pkt"
    by (metis mult_Suc_right add.commute take_add)
  show ?case
  proof (cases "length pkt \<le> 32 * j + 32")
    case True
    then have "(length pkt + 31) div 32 = Suc j" using j by linarith
    then show ?thesis using True flit len grow by (simp add: Let_def)
  next
    case False
    then have "32 * Suc j < length pkt" by simp
    moreover have "n = (length pkt + 31) div 32 - Suc j" using Suc(2) by simp
    ultimately have "buffer_get get_data (map (\<lambda>j. send_flit set_data pkt (32 * j)) [Suc j..<(length pkt + 31) div 32] @ rest) (take (32 * Suc j) pkt) =
        (Some pkt, [], rest)" by (rule Suc(1) [rotated])
    moreover have "buffer_get get_data (send_flit set_data pkt (32 * j) # fs) (take (32 * j) pkt) = buffer_get get_data fs (take (32 * Suc j) pkt)" for fs
      using False flit len grow by simp
    ultimately show ?thesis by (simp only: upt_conv_Cons [OF j] list.map append_Cons)
  qed
qed


text \<open>Conversions with this law: the bytes lie in the word one after the other, and the mask has a bit for each.\<close>

definition word_of_bytes :: "8 word list \<Rightarrow> nat \<Rightarrow> 256 word \<times> 32 word" where
  "word_of_bytes bs n = (word_of_int (horner_sum uint 256 bs), mask n)"

definition bytes_of_word :: "axi_data \<Rightarrow> 8 word list" where
  "bytes_of_word f = map (\<lambda>i. ucast (drop_bit (8 * i) (ad_data f))) (filter (bit (ad_keep f)) [0..<32])"

lemma mask_positions:
  assumes "n \<le> 32"
  shows "filter (bit (mask n :: 32 word)) [0..<32] = [0..<n]"
proof -
  have "filter (bit (mask n :: 32 word)) [0..<n + (32 - n)] = [0..<n]"
    unfolding upt_add_eq_append [OF le0] filter_append using assms by (auto simp: filter_id_conv bit_mask_iff filter_empty_conv)
  then show ?thesis using assms by (simp only: le_add_diff_inverse)
qed

lemma horner_byte:
  fixes bs :: "8 word list"
  assumes "i < length bs" "length bs \<le> 32"
  shows "ucast (drop_bit (8 * i) (word_of_int (horner_sum uint 256 bs) :: 256 word)) = bs ! i"
proof (rule bit_word_eqI)
  fix n assume "n < LENGTH(8)"
  then have n: "n < 8" "8 * i + n < 256" "(8 * i + n) div 8 = i" "(8 * i + n) mod 8 = n" using assms by simp_all
  then have "bit (horner_sum uint 256 bs) (8 * i + n) \<longleftrightarrow> bit (bs ! i) n"
    using bit_horner_sum_uint_exp_iff [of bs "8 * i + n"] assms(1) by simp
  then show "bit (ucast (drop_bit (8 * i) (word_of_int (horner_sum uint 256 bs) :: 256 word)) :: 8 word) n \<longleftrightarrow> bit (bs ! i) n"
    using n by (simp add: bit_unsigned_iff bit_drop_bit_eq bit_word_of_int_iff)
qed

lemma bytes_inverse: "data_inverse word_of_bytes bytes_of_word"
  unfolding data_inverse_def
proof (intro allI impI)
  fix bs :: "8 word list" and l assume len: "0 < length bs \<and> length bs \<le> 32"
  have "bytes_of_word \<lparr>ad_data = fst (word_of_bytes bs (length bs)), ad_keep = snd (word_of_bytes bs (length bs)), ad_last = l\<rparr> =
      map (\<lambda>i. ucast (drop_bit (8 * i) (word_of_int (horner_sum uint 256 bs) :: 256 word))) (filter (bit (mask (length bs) :: 32 word)) [0..<32])"
    by (simp only: bytes_of_word_def word_of_bytes_def axi_data.simps fst_conv snd_conv)
  also have "\<dots> = map (\<lambda>i. bs ! i) [0..<length bs]"
    using len unfolding mask_positions [OF conjunct2 [OF len]] by (intro map_cong) (simp_all add: horner_byte)
  finally show "bytes_of_word \<lparr>ad_data = fst (word_of_bytes bs (length bs)), ad_keep = snd (word_of_bytes bs (length bs)), ad_last = l\<rparr> = bs"
    by (simp only: map_nth)
qed


section \<open>The checksum is valid\<close>

definition be_word :: "8 word \<Rightarrow> 8 word \<Rightarrow> 8 word \<Rightarrow> 8 word \<Rightarrow> nat" where
  "be_word a b c d = 16777216 * unat a + 65536 * unat b + 256 * unat c + unat d"

lemma byte_less: "unat x < 256" for x :: "8 word"
  using unsigned_less [of x] by simp

lemma be_word_less: "be_word a b c d < 2 ^ 32"
  using byte_less [of a] byte_less [of b] byte_less [of c] byte_less [of d] by (simp add: be_word_def)

lemma ucast_ntohl: "(ucast (emu_ntohl (a # b # c # d # xs)) :: 64 word) = of_nat (be_word a b c d)"
proof -
  have "emu_ntohl (a # b # c # d # xs) = ucast d + push_bit 8 (ucast c) + push_bit 16 (ucast b) + push_bit 24 (ucast a)"
    unfolding emu_ntohl_def
    by (subst disjunctive_add_eq_or, (rule bit_word_eqI, auto simp: bit_simps dest: bit_imp_le_length)[1])+
      (simp add: numeral_eq_Suc or.assoc)
  also have "\<dots> = of_nat (be_word a b c d)" by (simp add: push_bit_eq_mult be_word_def algebra_simps)
  finally have "unat (emu_ntohl (a # b # c # d # xs)) = be_word a b c d"
    using be_word_less [of a b c d] by (simp only: unat_of_nat) (simp add: take_bit_nat_eq_self)
  then show ?thesis by (metis of_nat_unat)
qed

lemma carry_split: "n = (n mod 65536 + n div 65536) + 65535 * (n div 65536)" for n :: nat
proof -
  have "n = n mod 65536 + 65536 * (n div 65536)" by simp
  then show ?thesis by linarith
qed

lemma carries_correct:
  "unat (acc_carries a) < 65536 \<and> unat (acc_carries a) mod 65535 = unat a mod 65535 \<and> (unat (acc_carries a) = 0 \<longleftrightarrow> unat a = 0)"
proof (induction a rule: acc_carries.induct)
  case (1 a)
  show ?case
  proof (cases "drop_bit 16 a = 0")
    case True
    then have "unat a < 65536" by (simp add: drop_bit_eq_div unat_div_distrib flip: unat_eq_0)
    with True show ?thesis by (simp add: acc_carries.simps [of a])
  next
    case False
    have split: "unat a = (unat a mod 65536 + unat a div 65536) + 65535 * (unat a div 65536)" by (rule carry_split)
    then have "unat a mod 65535 = (unat a mod 65536 + unat a div 65536) mod 65535" by (metis mod_mult_self2)
    moreover have "unat a mod 65536 + unat a div 65536 = 0 \<longleftrightarrow> unat a = 0" by (metis split add_is_0 div_0 mod_0 mult_0_right)
    ultimately show ?thesis using 1 False by (simp add: acc_carries.simps [of a] carry_step)
  qed
qed

lemma fold_32: "unat ((a AND 0xffffffff) + drop_bit 32 a) = unat a mod 2 ^ 32 + unat a div 2 ^ 32" for a :: "64 word"
proof -
  have "a AND 0xffffffff = a mod 2 ^ 32" using take_bit_eq_mask [of 32 a] by (simp add: mask_eq_exp_minus_1 take_bit_eq_mod)
  then have x: "unat (a AND 0xffffffff) = unat a mod 2 ^ 32" by (simp add: unat_mod_distrib)
  have y: "unat (drop_bit 32 a) = unat a div 2 ^ 32" by (simp add: drop_bit_eq_div unat_div_distrib)
  have "unat a < 2 ^ 64" using unsigned_less [of a] by simp
  then have "unat a mod 2 ^ 32 + unat a div 2 ^ 32 < 2 ^ 64" by simp
  then show ?thesis by (subst unat_add_lem [THEN iffD1]) (simp_all add: x y)
qed

text \<open>The 16 bit words of a header, as the network reads them, and the sum that a receiver forms.\<close>

fun half_sum :: "8 word list \<Rightarrow> nat" where
  "half_sum (a # b # bs) = 256 * unat a + unat b + half_sum bs"
| "half_sum _ = 0"

definition word_sum :: "8 word list \<Rightarrow> nat" where
  "word_sum h = 65535 + be_word 0 0 (h ! 0) (h ! 1) + be_word (h ! 2) (h ! 3) (h ! 4) (h ! 5) + be_word (h ! 6) (h ! 7) (h ! 8) (h ! 9) +
     be_word (h ! 10) (h ! 11) (h ! 12) (h ! 13) + be_word (h ! 14) (h ! 15) (h ! 16) (h ! 17) + be_word (h ! 18) (h ! 19) 0 0"

lemma twenty_elements:
  assumes "length xs = 20"
  obtains a0 a1 a2 a3 a4 a5 a6 a7 a8 a9 b0 b1 b2 b3 b4 b5 b6 b7 b8 b9
    where "xs = [a0, a1, a2, a3, a4, a5, a6, a7, a8, a9, b0, b1, b2, b3, b4, b5, b6, b7, b8, b9]"
  using assms that by (auto simp: length_Suc_conv numeral_eq_Suc)

lemma word_sum_mod:
  assumes "length h = 20"
  shows "word_sum h mod 65535 = half_sum h mod 65535"
proof -
  from assms obtain a0 a1 a2 a3 a4 a5 a6 a7 a8 a9 b0 b1 b2 b3 b4 b5 b6 b7 b8 b9
    where h: "h = [a0, a1, a2, a3, a4, a5, a6, a7, a8, a9, b0, b1, b2, b3, b4, b5, b6, b7, b8, b9]" by (rule twenty_elements)
  have "word_sum h = half_sum h + 65535 * (1 + (256 * unat a2 + unat a3) + (256 * unat a6 + unat a7) + (256 * unat b0 + unat b1) +
      (256 * unat b4 + unat b5) + (256 * unat b8 + unat b9))"
    by (simp add: h word_sum_def be_word_def)
  then show ?thesis by (metis mod_mult_self2)
qed

lemma word_sum_bounds: "65535 \<le> word_sum h" "word_sum h < 2 ^ 64"
proof -
  show "65535 \<le> word_sum h" by (simp add: word_sum_def)
  have "be_word a b c d \<le> 4294967295" for a b c d using be_word_less [of a b c d] by simp
  then have "word_sum h \<le> 65535 + 4294967295 + 4294967295 + 4294967295 + 4294967295 + 4294967295 + 4294967295"
    unfolding word_sum_def by (intro add_mono order_refl)
  then show "word_sum h < 2 ^ 64" by simp
qed

lemma acc_words_header:
  assumes "length h = 20"
  shows "acc_words (drop 2 h) (0xffff + ucast (emu_ntohl (replicate 2 0 @ take 2 h @ replicate 4 0))) = of_nat (word_sum h)"
proof -
  from assms obtain a0 a1 a2 a3 a4 a5 a6 a7 a8 a9 b0 b1 b2 b3 b4 b5 b6 b7 b8 b9
    where h: "h = [a0, a1, a2, a3, a4, a5, a6, a7, a8, a9, b0, b1, b2, b3, b4, b5, b6, b7, b8, b9]" by (rule twenty_elements)
  have "drop 2 h = [a2, a3, a4, a5, a6, a7, a8, a9, b0, b1, b2, b3, b4, b5, b6, b7, b8, b9]" by (simp add: h)
  moreover have "replicate 2 0 @ take 2 h @ replicate 4 0 = 0 # 0 # a0 # a1 # replicate 4 0" by (simp add: h numeral_eq_Suc)
  moreover have "take 4 ([b8, b9] @ [0, 0, 0, 0]) = [b8, b9, 0, 0]" by simp
  ultimately have "acc_words (drop 2 h) (0xffff + ucast (emu_ntohl (replicate 2 0 @ take 2 h @ replicate 4 0))) =
      of_nat 65535 + of_nat (be_word 0 0 a0 a1) + of_nat (be_word a2 a3 a4 a5) + of_nat (be_word a6 a7 a8 a9) + of_nat (be_word b0 b1 b2 b3) +
      of_nat (be_word b4 b5 b6 b7) + of_nat (be_word b8 b9 0 0)"
    by (simp only: acc_words.simps ucast_ntohl of_nat_numeral)
  then show ?thesis by (simp add: h word_sum_def)
qed

text \<open>The accumulator of the header, as one's complement arithmetic has it: not zero, below \<open>2^16\<close>, and the sum of the header modulo \<open>2^16 - 1\<close>.\<close>

definition header_acc :: "8 word list \<Rightarrow> 64 word" where
  "header_acc h = (let acc = of_nat (word_sum h) in acc_carries ((acc AND 0xffffffff) + drop_bit 32 acc))"

lemma header_acc:
  assumes "length h = 20"
  shows "unat (header_acc h) < 65536" "unat (header_acc h) mod 65535 = half_sum h mod 65535"
proof -
  let ?s = "of_nat (word_sum h) :: 64 word"
  have s: "unat ?s = word_sum h" using word_sum_bounds(2) [of h] by (simp add: unat_of_nat take_bit_nat_eq_self)
  note c = carries_correct [of "(?s AND 0xffffffff) + drop_bit 32 ?s"]
  show "unat (header_acc h) < 65536" using c by (simp add: header_acc_def Let_def)
  have "word_sum h = (word_sum h mod 2 ^ 32 + word_sum h div 2 ^ 32) + 65535 * (65537 * (word_sum h div 2 ^ 32))"
    using div_mult_mod_eq [of "word_sum h" "2 ^ 32"] by simp
  then have "(word_sum h mod 2 ^ 32 + word_sum h div 2 ^ 32) mod 65535 = word_sum h mod 65535" by (metis mod_mult_self2)
  moreover have "unat (header_acc h) mod 65535 = (word_sum h mod 2 ^ 32 + word_sum h div 2 ^ 32) mod 65535"
    using c unfolding header_acc_def Let_def by (simp only: fold_32 s)
  ultimately show "unat (header_acc h) mod 65535 = half_sum h mod 65535" using word_sum_mod [OF assms] by simp
qed

lemma low_byte: "0xff = (mask 8 :: 16 word)" and high_byte: "0xff00 = push_bit 8 (mask 8 :: 16 word)"
  by (simp_all add: mask_eq_exp_minus_1)

lemma bytes_of_half: "256 * unat (ucast (drop_bit 8 n) :: 8 word) + unat (ucast n :: 8 word) = unat n" for n :: "16 word"
proof -
  have "unat n < 65536" using unsigned_less [of n] by simp
  then have "unat n div 256 mod 256 = unat n div 256" by simp
  then show ?thesis by (simp add: unsigned_ucast_eq drop_bit_eq_div unat_div_distrib take_bit_eq_mod unat_mod_distrib)
qed

lemma ip_checksum_bytes:
  assumes "length h = 20"
  shows "256 * unat (ucast (emu_ip_checksum 2 h) :: 8 word) + unat (ucast (drop_bit 8 (emu_ip_checksum 2 h)) :: 8 word) = 65535 - unat (header_acc h)"
proof -
  let ?n = "ucast (NOT (header_acc h)) :: 16 word"
  have csum: "emu_ip_checksum 2 h = emu_htons ?n"
    using acc_words_header [OF assms] assms by (simp add: emu_ip_checksum_def header_acc_def Let_def)
  have hi: "ucast (emu_htons ?n) = (ucast (drop_bit 8 ?n) :: 8 word)" and lo: "ucast (drop_bit 8 (emu_htons ?n)) = (ucast ?n :: 8 word)"
    unfolding emu_htons_def low_byte high_byte by (rule bit_word_eqI, auto simp: bit_simps)+
  have "256 * unat (ucast (drop_bit 8 ?n) :: 8 word) + unat (ucast ?n :: 8 word) = unat ?n" by (rule bytes_of_half)
  moreover have "unat ?n = 65535 - unat (header_acc h)"
  proof -
    have "?n = NOT (ucast (header_acc h))" by (rule bit_word_eqI) (simp add: bit_simps)
    moreover have "unat (- 1 :: 16 word) = 65535" unfolding unsigned_minus_1_eq_mask by (simp add: mask_eq_exp_minus_1)
    then have "unat (- 1 - x) = 65535 - unat x" for x :: "16 word" by (subst unat_sub) simp_all
    then have "unat (NOT x) = 65535 - unat x" for x :: "16 word" by (metis not_eq_complement minus_diff_commute)
    ultimately show ?thesis using header_acc(1) [OF assms] by (simp add: unsigned_ucast_eq take_bit_nat_eq_self)
  qed
  ultimately show ?thesis by (simp only: csum hi lo)
qed

lemma ones_complement:
  assumes "r < 65536" "r mod 65535 = n mod 65535"
  shows "(n + (65535 - r)) mod 65535 = (0 :: nat)"
proof -
  have "(n + (65535 - r)) mod 65535 = (r + (65535 - r)) mod 65535" using assms(2) by (metis mod_add_left_eq)
  then show ?thesis using assms(1) by simp
qed

lemma half_sum_update:
  assumes "length h = 20" "h ! 10 = 0" "h ! 11 = 0"
  shows "half_sum (h[10 := x, 11 := y]) = half_sum h + (256 * unat x + unat y)"
proof -
  from assms(1) obtain a0 a1 a2 a3 a4 a5 a6 a7 a8 a9 b0 b1 b2 b3 b4 b5 b6 b7 b8 b9
    where "h = [a0, a1, a2, a3, a4, a5, a6, a7, a8, a9, b0, b1, b2, b3, b4, b5, b6, b7, b8, b9]" by (rule twenty_elements)
  with assms show ?thesis by simp
qed

text \<open>
  C12: The packets that the emulation hands out have valid headers: when an IPv4 packet is long enough to hold its header of twenty bytes, the 16 bit words of the header
  add up to zero in one's complement after \<open>get_packet\<close> has filled in the checksum, which is what a receiver verifies, and nothing but the two bytes
  of the checksum has changed. This covers the unaligned start of the header, the deferred carries and the byte order.
\<close>

theorem checksum_valid:
  assumes "34 \<le> length pkt" "of_le16 (drop 12 pkt) = 8"
  shows "half_sum (take 20 (drop 14 (fill_checksum memory pkt))) mod 65535 = 0 \<and>
    length (fill_checksum memory pkt) = length pkt \<and>
    take 24 (fill_checksum memory pkt) = take 24 pkt \<and> drop 26 (fill_checksum memory pkt) = drop 26 pkt"
proof -
  define z where "z = pkt[24 := 0, 25 := 0]"
  define h where "h = take 20 (drop 14 z)"
  define c where "c = emu_ip_checksum 2 h"
  have len: "length h = 20" "length z = length pkt" using assms(1) by (simp_all add: h_def z_def)
  have zero: "h ! 10 = 0" "h ! 11 = 0" using assms(1) by (simp_all add: h_def z_def)
  have f: "fill_checksum memory pkt = z[24 := ucast c, 25 := ucast (drop_bit 8 c)]"
    using assms len by (simp add: fill_checksum_def Let_def c_def h_def flip: z_def)
  have "take 20 (drop 14 (fill_checksum memory pkt)) = h[10 := ucast c, 11 := ucast (drop_bit 8 c)]"
    unfolding f h_def by (simp add: drop_update_swap take_update_swap)
  then have "half_sum (take 20 (drop 14 (fill_checksum memory pkt))) = half_sum h + (65535 - unat (header_acc h))"
    using half_sum_update [OF len(1) zero] ip_checksum_bytes [OF len(1)] by (simp add: c_def)
  moreover have "(half_sum h + (65535 - unat (header_acc h))) mod 65535 = 0"
    using header_acc [OF len(1)] by (rule ones_complement)
  ultimately show ?thesis using f len(2) by (simp add: z_def)
qed

text \<open>A packet of 34 bytes with the header of the textbook example, 4500 0073 0000 4000 4011 .... c0a8 0001 c0a8 00c7: its checksum is b861.\<close>

definition textbook_packet :: "8 word list" where
  "textbook_packet = replicate 12 0 @ [8, 0, 0x45, 0, 0, 0x73, 0, 0, 0x40, 0, 0x40, 0x11, 0xff, 0xff, 0xc0, 0xa8, 0, 1, 0xc0, 0xa8, 0, 0xc7]"

lemma checksum_valid_witness:
  "half_sum (take 20 (drop 14 (fill_checksum [] textbook_packet))) mod 65535 = 0 \<and>
   drop 24 (fill_checksum [] textbook_packet) = [0xb8, 0x61] @ drop 26 textbook_packet"
proof -
  have "34 \<le> length textbook_packet" "of_le16 (drop 12 textbook_packet) = 8" by (simp_all add: textbook_packet_def of_le16_def)
  from checksum_valid [OF this, of "[]"] have "half_sum (take 20 (drop 14 (fill_checksum [] textbook_packet))) mod 65535 = 0" by blast
  moreover have "drop 24 (fill_checksum [] textbook_packet) = [0xb8, 0x61] @ drop 26 textbook_packet" unfolding textbook_packet_def by code_simp
  ultimately show ?thesis ..
qed

section \<open>Reading a register\<close>

text \<open>What is used of the gateway's structure: storing into a member what was read from it changes nothing.\<close>

definition gateway_lawful :: "'g ntl_gateway \<Rightarrow> bool" where
  "gateway_lawful ng \<longleftrightarrow>
     (\<forall>g. let cmd = ng_addr ng g OR ng_go_shifted ng g in ng_set_go ng (drop_bit 31 cmd) (ng_set_addr ng (cmd AND 0x7fffffff) g) = g)"

lemma gateway_read_pure: "gateway_lawful ng \<Longrightarrow> snd (gateway_access ng address v True g) = g"
  by (simp add: gateway_access_def gateway_lawful_def var_access_def Let_def)

lemma virt_gateway_read_pure: "gateway_lawful ng \<Longrightarrow> snd (virt_gateway_access ng address v True g) = g"
  by (simp add: virt_gateway_access_def var_access_def gateway_read_pure split_beta)

lemma put_le32_read:
  assumes "i + 4 \<le> length bs"
  shows "put_le32 i (of_le32 (drop i bs)) bs = bs"
proof -
  have "le32 (of_le32 (drop i bs)) = take 4 (drop i bs)" using assms by (simp add: le32_of_le32)
  then show ?thesis by (metis put_le32_def append_assoc append_take_drop_id take_add)
qed

lemma credit_read [simp]: "credit_of_word (credit_word c) d = c"
proof -
  let ?w = "credit_word c"
  have "ucast ?w = cu_ring_id c" unfolding credit_word_def by (rule bit_word_eqI) (auto simp: bit_simps)
  moreover have "ucast (drop_bit 7 ?w) = cu_max_msn c" unfolding credit_word_def
    by (rule bit_word_eqI) (auto simp: bit_simps dest: bit_imp_le_length)
  moreover have "(ucast (drop_bit 16 (drop_bit 7 ?w)) :: 1 word) = of_bool (cu_reset c)" unfolding credit_word_def
    by (rule bit_word_eqI) (auto simp: bit_simps dest: bit_imp_le_length)
  ultimately show ?thesis by (intro credit_update_registers.equality) (simp_all add: credit_of_word_def del: drop_bit_drop_bit)
qed

lemma ikernel_read_pure:
  assumes "gateway_lawful ng" "length (ei_uuid ik) = 16"
  shows "snd (ikernel_access ng address v True ik) = ik"
proof -
  have "put_le32 i (of_le32 (drop i (ei_uuid ik))) (ei_uuid ik) = ei_uuid ik" if "i \<le> 12" for i
    using that assms(2) by (simp add: put_le32_read)
  from this [of 0] this [of 4] this [of 8] this [of 12] show ?thesis
    using assms(1) by (auto simp: ikernel_access_def var_access_def virt_gateway_read_pure Let_def split_beta credit_read)
qed

text \<open>Reading stores what it has read.\<close>

lemma register_reads_pure:
  assumes "gateway_lawful ng" "\<forall>ik \<in> set (em_ikernels e). length (ei_uuid ik) = 16"
  shows "snd (emu_reg_read ng address v e) = e"
proof -
  let ?i = "unat address div 0x1000 - 1"
  have "snd (ikernel_access ng a v True (em_ikernels e ! ?i)) = em_ikernels e ! ?i"
    if "address \<ge> 0x1000" "unat address < 0x1000 * (length (em_ikernels e) + 1)" for a
  proof -
    have "unat address \<ge> 0x1000" using that(1) by (simp add: word_le_nat_alt)
    then have "?i < length (em_ikernels e)" using that(2) by (auto simp: less_mult_imp_div_less div_greater_zero_iff)
    then show ?thesis using assms by (simp add: ikernel_read_pure)
  qed
  then show ?thesis
    using assms(1) by (simp add: emu_reg_read_def emu_access_def var_access_def gateway_read_pure Let_def split_beta of_flag_def to_flag_def)
qed

text \<open>A gateway with 31 bits of address, a bit that starts the command and 32 bits of data and result.\<close>

definition word_gateway :: "(31 word \<times> bool \<times> 32 word \<times> 32 word) ntl_gateway" where
  "word_gateway = \<lparr>
     ng_addr = (\<lambda>(a, g, d, r). ucast a), ng_go_shifted = (\<lambda>(a, g, d, r). push_bit 31 (of_bool g)),
     ng_data = (\<lambda>(a, g, d, r). d), ng_done = (\<lambda>(a, g, d, r). r),
     ng_set_addr = (\<lambda>w (a, g, d, r). (ucast w, g, d, r)), ng_set_go = (\<lambda>w (a, g, d, r). (a, w \<noteq> 0, d, r)),
     ng_set_data = (\<lambda>w (a, g, d, r). (a, g, w, r)), ng_set_done = (\<lambda>w (a, g, d, r). (a, g, d, w))\<rparr>"

lemma word_gateway_lawful: "gateway_lawful word_gateway"
proof -
  have m: "(0x7fffffff :: 32 word) = mask 31" by (simp add: mask_eq_exp_minus_1)
  have "ucast (((ucast a :: 32 word) OR push_bit 31 (of_bool g)) AND 0x7fffffff) = a" for a :: "31 word" and g
    unfolding m by (rule bit_word_eqI) (auto simp: bit_simps)
  moreover have "drop_bit 31 (ucast a OR push_bit 31 (of_bool g)) = (of_bool g :: 32 word)" for a :: "31 word" and g
    by (rule bit_word_eqI) (auto simp: bit_simps dest: bit_imp_le_length)
  ultimately show ?thesis by (simp add: gateway_lawful_def word_gateway_def Let_def)
qed

section \<open>Well-formed registers\<close>

lemma init_each_ok:
  "init_each getenv i iks = Inr iks' \<Longrightarrow> length iks' = length iks \<and> map ei_uuid iks' = map ei_uuid iks"
proof (induction iks arbitrary: i iks')
  case (Cons ik iks)
  then obtain ik' is' where "emu_ikernel_init getenv i ik = Inr ik'" "init_each getenv (i + 1) iks = Inr is'" "iks' = ik' # is'"
    by (auto split: sum.splits)
  with Cons(1) show ?case by (fastforce simp: emu_ikernel_init_def Let_def split: option.splits if_splits)
qed simp

lemma init_each_func: "init_each getenv i iks = Inr iks' \<Longrightarrow> x \<in> set iks' \<Longrightarrow> ei_func x \<noteq> None"
proof (induction iks arbitrary: i iks')
  case (Cons ik iks)
  then obtain ik' is' where "emu_ikernel_init getenv i ik = Inr ik'" "init_each getenv (i + 1) iks = Inr is'" "iks' = ik' # is'"
    by (auto split: sum.splits)
  with Cons show ?case by (fastforce simp: emu_ikernel_init_def Let_def split: option.splits if_splits)
qed auto

definition emulation_ok :: "nat \<Rightarrow> 'g emulation \<Rightarrow> bool" where
  "emulation_ok max_ikernels e \<longleftrightarrow>
     length (em_ikernels e) \<le> max_ikernels \<and> list_all (\<lambda>ik. length (ei_uuid ik) = 16 \<and> ei_func ik \<noteq> None) (em_ikernels e)"

lemma init_ok:
  assumes "init_ikernels max_ikernels getenv g junk = Inr (em_ikernels e)" "\<And>i. length (junk i) = 16"
  shows "emulation_ok max_ikernels e"
proof -
  obtain n where n: "n \<le> max_ikernels" "init_each getenv 0 (map (\<lambda>i. emu_ikernel_new g (junk i)) [0..<n]) = Inr (em_ikernels e)"
    using assms(1) by (auto simp: init_ikernels_def Let_def not_less split: sum.splits if_splits)
  have len: "length (em_ikernels e) = n" and uuids: "map ei_uuid (em_ikernels e) = map junk [0..<n]"
    using init_each_ok [OF n(2)] by (auto simp: emu_ikernel_new_def comp_def)
  have "ei_uuid ` set (em_ikernels e) = junk ` {0..<n}" using arg_cong [OF uuids, of set] by simp
  then have "ei_uuid ik \<in> junk ` {0..<n}" if "ik \<in> set (em_ikernels e)" for ik using that by blast
  then have "length (ei_uuid ik) = 16" if "ik \<in> set (em_ikernels e)" for ik using that assms(2) by fastforce
  then show ?thesis
    using n(1) len by (auto dest: init_each_func [OF n(2)] simp: emulation_ok_def list_all_iff)
qed

lemma ikernel_access_uuid:
  "length (ei_uuid ik) = 16 \<Longrightarrow>
   length (ei_uuid (snd (ikernel_access ng address v rd ik))) = 16 \<and> ei_func (snd (ikernel_access ng address v rd ik)) = ei_func ik"
  by (auto simp: ikernel_access_def Let_def split_beta put_le32_def var_access_def)

lemma access_ok:
  assumes "emulation_ok max_ikernels e"
  shows "emulation_ok max_ikernels (snd (emu_access ng address v rd e))"
proof -
  let ?i = "unat address div 0x1000 - 1"
  have "list_all (\<lambda>ik. length (ei_uuid ik) = 16 \<and> ei_func ik \<noteq> None) ((em_ikernels e)[?i := snd (ikernel_access ng a v rd (em_ikernels e ! ?i))])" for a
  proof (cases "?i < length (em_ikernels e)")
    case True
    then have "em_ikernels e ! ?i \<in> set (em_ikernels e)" by simp
    then show ?thesis
      using assms ikernel_access_uuid [of "em_ikernels e ! ?i"] by (auto simp: emulation_ok_def list_all_iff dest!: set_update_subset_insert [THEN subsetD])
  qed (use assms in \<open>simp add: emulation_ok_def list_update_beyond\<close>)
  then show ?thesis using assms by (simp add: emulation_ok_def emu_access_def Let_def split_beta)
qed

lemma accesses_ok: "emulation_ok max_ikernels e \<Longrightarrow> emulation_ok max_ikernels (fold (\<lambda>(a, v, rd) e. snd (emu_access ng a v rd e)) accs e)"
  by (induction accs arbitrary: e) (auto simp: access_ok)


definition demo_emulation :: "(31 word \<times> bool \<times> 32 word \<times> 32 word) emulation" where
  "demo_emulation =
     \<lparr>em_ikernels = [(emu_ikernel_new (1, True, 2, 3) (replicate 16 7))\<lparr>ei_func := Some Pktgen_top\<rparr>],
      em_n2h_ft = (1, False, 2, 3), em_h2n_ft = (1, False, 2, 3), em_n2h_ring = (1, False, 2, 3),
      em_n2h_enable = True, em_h2n_enable = False, em_flow_table_size = 0\<rparr>"


end
