(* ===== verification/Credit_Flow.thy ===== *)
theory Credit_Flow
  imports Emulation Custom_Ring
begin

text \<open>
  Flow control of a custom ring from end to end. The host posts receive buffers through \<open>libnica\<close>, which announces their number; the manager writes an announcement to
  the credit register of the ikernel, which serves all its rings; the ikernel queues a change of the register, applies the queue one clock at a time to its table of
  counters, and sends a message only when the counter of the ring lets it. The parts are those of \<open>Libnica\<close>, \<open>Emulation\<close> and \<open>Ikernel_Base\<close>. A step is one call of
  one part, in any order: announcements may wait, be refused or be overwritten in the register by those of another ring before the ikernel sees them.
\<close>

record 'g credit_state =
  cf_ring :: host_ring
  cf_announced :: "16 word list"
  cf_regs :: "'g emu_ikernel"
  cf_ik :: ikernel
  cf_posted :: nat
  cf_sent :: nat

text \<open>
  The steps, for one ring. \<open>cf_posted\<close> and \<open>cf_sent\<close> count buffers and messages without bound; the code has only 16 bit counters. \<open>conn\<close> is
  the connection to the manager with any answer to come, and the manager may or may not act on the announcement.
\<close>

definition write_credits :: "'g ntl_gateway \<Rightarrow> credit_update_registers \<Rightarrow> 'g credit_state \<Rightarrow> 'g credit_state" where
  "write_credits ng regs s = s\<lparr>cf_regs := snd (ikernel_access ng 0x50 (credit_word regs) False (cf_regs s))\<rparr>"

inductive credit_step :: "'g ntl_gateway \<Rightarrow> ring_id_t \<Rightarrow> 'g credit_state \<Rightarrow> 'g credit_state \<Rightarrow> bool" for ng ring where
  post: "\<lbrakk>custom_ring_post_recv_attr 0 n update_credits (cf_ring s) conn = Inr ((ret, cr), conn'); ann = [] \<or> update_credits \<and> ann = [ch_credits cr]\<rbrakk> \<Longrightarrow>
    credit_step ng ring s (s\<lparr>cf_ring := cr, cf_announced := cf_announced s @ ann, cf_posted := cf_posted s + n\<rparr>)"
| manager: "cf_announced s = c # cs \<Longrightarrow>
    credit_step ng ring s (write_credits ng \<lparr>cu_ring_id = ring, cu_max_msn = c, cu_reset = False\<rparr> (s\<lparr>cf_announced := cs\<rparr>))"
| other_ring: "cu_ring_id regs \<noteq> ring \<Longrightarrow> credit_step ng ring s (write_credits ng regs s)"
| latch: "credit_step ng ring s (s\<lparr>cf_ik := host_credits_update_regs (ei_credit (cf_regs s)) (cf_ik s)\<rparr>)"
| update: "credit_step ng ring s (s\<lparr>cf_ik := snd (ikernel_update (cf_ik s))\<rparr>)"
| send: "can_transmit (cf_ik s) tc i ring l HOST \<Longrightarrow>
    credit_step ng ring s (s\<lparr>cf_ik := new_message ring HOST (cf_ik s), cf_sent := cf_sent s + 1\<rparr>)"
| send_other: "r \<noteq> ring \<Longrightarrow> credit_step ng ring s (s\<lparr>cf_ik := new_message r HOST (cf_ik s)\<rparr>)"

inductive_cases credit_stepE: "credit_step ng ring s s'"

text \<open>
  At the start the ring is new on the host, and the ikernel has applied the manager's reset of its counters: nothing for the ring is queued, and a register that still names it
  is the one the ikernel has seen last.
\<close>

definition ring_values :: "ring_id_t \<Rightarrow> credit_update_registers list \<Rightarrow> 16 word list" where
  "ring_values ring us = map cu_max_msn (filter (\<lambda>u. cu_ring_id u = ring) us)"

definition credit_start :: "ring_id_t \<Rightarrow> 'g credit_state \<Rightarrow> bool" where
  "credit_start ring s \<longleftrightarrow>
     in_table ring \<and> ch_credits (cf_ring s) = 0 \<and> ch_msn_diff (cf_ring s) = 0 \<and> cf_announced s = [] \<and> cf_posted s = 0 \<and> cf_sent s = 0 \<and>
     credit_inv (cf_ik s) \<and> host_credits (cf_ik s) ! ring_index ring = \<lparr>msn = 0, max_msn = 0\<rparr> \<and>
     list_all (\<lambda>u. cu_ring_id u \<noteq> ring) (que (credit_updates (cf_ik s))) \<and>
     (cu_ring_id (ei_credit (cf_regs s)) \<noteq> ring \<or>
      ei_credit (cf_regs s) = last_host_credit_regs (cf_ik s) \<and> cu_max_msn (ei_credit (cf_regs s)) = 0)"

inductive credit_reach :: "'g ntl_gateway \<Rightarrow> ring_id_t \<Rightarrow> 'g credit_state \<Rightarrow> bool" for ng ring where
  start: "credit_start ring s \<Longrightarrow> credit_reach ng ring s"
| step: "credit_reach ng ring s \<Longrightarrow> credit_step ng ring s s' \<Longrightarrow> credit_reach ng ring s'"

section \<open>The chain of announcements\<close>

text \<open>
  The invariant gives every 16 bit value on the way from the host to the counter the number of buffers it stands for: \<open>gm\<close> for the limit in the table, \<open>gq\<close> for the queue, \<open>gr\<close> for the
  register and \<open>ga\<close> for the announcements. These numbers grow along the way, and none exceeds the buffers posted.
\<close>

definition credit_chain :: "ring_id_t \<Rightarrow> 'g credit_state \<Rightarrow> nat \<Rightarrow> nat list \<Rightarrow> nat list \<Rightarrow> nat list \<Rightarrow> bool" where
  "credit_chain ring s gm gq gr ga \<longleftrightarrow>
     cf_sent s \<le> gm \<and> sorted (gm # gq @ gr @ ga @ [cf_posted s]) \<and>
     host_credits (cf_ik s) ! ring_index ring = \<lparr>msn = of_nat (cf_sent s), max_msn = of_nat gm\<rparr> \<and>
     ring_values ring (que (credit_updates (cf_ik s))) = map of_nat gq \<and>
     ring_values ring [ei_credit (cf_regs s)] = map of_nat gr \<and>
     cf_announced s = map of_nat ga"

definition credit_rest :: "ring_id_t \<Rightarrow> 'g credit_state \<Rightarrow> bool" where
  "credit_rest ring s \<longleftrightarrow>
     in_table ring \<and> credit_inv (cf_ik s) \<and> ch_msn_diff (cf_ring s) = 0 \<and> ch_credits (cf_ring s) = of_nat (cf_posted s) \<and>
     list_all (\<lambda>u. cu_ring_id u = ring \<longrightarrow> \<not> cu_reset u) (que (credit_updates (cf_ik s))) \<and>
     (cu_ring_id (ei_credit (cf_regs s)) = ring \<and> cu_reset (ei_credit (cf_regs s)) \<longrightarrow> ei_credit (cf_regs s) = last_host_credit_regs (cf_ik s))"

definition credit_flow :: "ring_id_t \<Rightarrow> 'g credit_state \<Rightarrow> bool" where
  "credit_flow ring s \<longleftrightarrow> credit_rest ring s \<and> (\<exists>gm gq gr ga. credit_chain ring s gm gq gr ga)"

lemma ring_values_simps [simp]:
  "ring_values ring [] = []"
  "ring_values ring (u # us) = (if cu_ring_id u = ring then [cu_max_msn u] else []) @ ring_values ring us"
  "ring_values ring (us @ vs) = ring_values ring us @ ring_values ring vs"
  by (simp_all add: ring_values_def)

lemma start_flow: "credit_start ring s \<Longrightarrow> credit_flow ring s"
proof -
  assume s: "credit_start ring s"
  then have "ring_values ring (que (credit_updates (cf_ik s))) = []"
    by (auto simp: credit_start_def ring_values_def list_all_iff filter_empty_conv)
  with s have "credit_chain ring s 0 [] (if cu_ring_id (ei_credit (cf_regs s)) = ring then [0] else []) []"
    by (auto simp: credit_chain_def credit_start_def)
  moreover have "credit_rest ring s" using s by (auto simp: credit_rest_def credit_start_def list_all_iff)
  ultimately show ?thesis unfolding credit_flow_def by blast
qed

section \<open>Steps\<close>

lemma write_credits_sel [simp]:
  "ei_credit (cf_regs (write_credits ng regs s)) = regs" "cf_ik (write_credits ng regs s) = cf_ik s"
  "cf_ring (write_credits ng regs s) = cf_ring s" "cf_announced (write_credits ng regs s) = cf_announced s"
  "cf_posted (write_credits ng regs s) = cf_posted s" "cf_sent (write_credits ng regs s) = cf_sent s"
  by (simp_all add: write_credits_def ikernel_access_def var_access_def)

lemma post_credits:
  assumes "custom_ring_post_recv_attr 0 n update_credits cr conn = Inr ((ret, cr'), conn')" "ch_msn_diff cr = 0"
  shows "ch_credits cr' = ch_credits cr + of_nat n \<and> ch_msn_diff cr' = 0"
  using assms by (auto simp: custom_ring_post_recv_attr_def Let_def io_bind_def io_return_def split: if_splits sum.splits)

lemma post_flow:
  assumes "credit_flow ring s" "custom_ring_post_recv_attr 0 n update_credits (cf_ring s) conn = Inr ((ret, cr), conn')"
    "ann = [] \<or> update_credits \<and> ann = [ch_credits cr]"
  shows "credit_flow ring (s\<lparr>cf_ring := cr, cf_announced := cf_announced s @ ann, cf_posted := cf_posted s + n\<rparr>)"
proof -
  from assms(1) obtain gm gq gr ga where s: "credit_rest ring s" "credit_chain ring s gm gq gr ga" by (auto simp: credit_flow_def)
  have cr: "ch_credits cr = of_nat (cf_posted s + n)" "ch_msn_diff cr = 0"
    using post_credits [OF assms(2)] s(1) by (auto simp: credit_rest_def)
  let ?s = "s\<lparr>cf_ring := cr, cf_announced := cf_announced s @ ann, cf_posted := cf_posted s + n\<rparr>"
  have "credit_chain ring ?s gm gq gr (ga @ (if ann = [] then [] else [cf_posted s + n]))"
    using s(2) assms(3) cr(1) unfolding credit_chain_def by (auto simp: sorted_append)
  moreover have "credit_rest ring ?s" using s(1) cr by (simp add: credit_rest_def)
  ultimately show ?thesis unfolding credit_flow_def by blast
qed

lemma manager_flow:
  assumes "credit_flow ring s" "cf_announced s = c # cs"
  shows "credit_flow ring (write_credits ng \<lparr>cu_ring_id = ring, cu_max_msn = c, cu_reset = False\<rparr> (s\<lparr>cf_announced := cs\<rparr>))"
proof -
  from assms(1) obtain gm gq gr ga where s: "credit_rest ring s" "credit_chain ring s gm gq gr ga" by (auto simp: credit_flow_def)
  then obtain a ga' where ga: "ga = a # ga'" "c = of_nat a" "cs = map of_nat ga'"
    using assms(2) by (auto simp: credit_chain_def Cons_eq_map_conv)
  let ?s = "write_credits ng \<lparr>cu_ring_id = ring, cu_max_msn = c, cu_reset = False\<rparr> (s\<lparr>cf_announced := cs\<rparr>)"
  have "credit_chain ring ?s gm gq [a] ga'" using s(2) ga unfolding credit_chain_def by (auto simp: sorted_append)
  moreover have "credit_rest ring ?s" using s(1) by (simp add: credit_rest_def)
  ultimately show ?thesis unfolding credit_flow_def by blast
qed

lemma other_ring_flow:
  assumes "credit_flow ring s" "cu_ring_id regs \<noteq> ring"
  shows "credit_flow ring (write_credits ng regs s)"
proof -
  from assms(1) obtain gm gq gr ga where s: "credit_rest ring s" "credit_chain ring s gm gq gr ga" by (auto simp: credit_flow_def)
  have "credit_chain ring (write_credits ng regs s) gm gq [] ga" using s(2) assms(2) unfolding credit_chain_def by (auto simp: sorted_append)
  moreover have "credit_rest ring (write_credits ng regs s)" using s(1) assms(2) by (simp add: credit_rest_def)
  ultimately show ?thesis unfolding credit_flow_def by blast
qed

lemma latch_flow:
  assumes "credit_flow ring s"
  shows "credit_flow ring (s\<lparr>cf_ik := host_credits_update_regs (ei_credit (cf_regs s)) (cf_ik s)\<rparr>)"
proof -
  from assms obtain gm gq gr ga where s: "credit_rest ring s" "credit_chain ring s gm gq gr ga" by (auto simp: credit_flow_def)
  define regs ik where "regs = ei_credit (cf_regs s)" and "ik = host_credits_update_regs regs (cf_ik s)"
  let ?s = "s\<lparr>cf_ik := ik\<rparr>"
  have hc: "host_credits ik = host_credits (cf_ik s)" by (simp add: ik_def host_credits_update_regs_def)
  have inv: "credit_inv ik" using s(1) by (simp add: ik_def credit_inv_host_credits_update credit_rest_def)
  have "que (credit_updates ik) = que (credit_updates (cf_ik s)) \<and> last_host_credit_regs ik \<in> {last_host_credit_regs (cf_ik s), regs} \<or>
      que (credit_updates ik) = que (credit_updates (cf_ik s)) @ [regs] \<and> last_host_credit_regs ik = regs \<and> last_host_credit_regs (cf_ik s) \<noteq> regs"
    by (auto simp: ik_def host_credits_update_regs_def s_write_nb_def s_write_def)
  then show ?thesis
  proof (elim disjE conjE)
    assume *: "que (credit_updates ik) = que (credit_updates (cf_ik s))" "last_host_credit_regs ik \<in> {last_host_credit_regs (cf_ik s), regs}"
    then have "credit_chain ring ?s gm gq gr ga" using s(2) hc by (simp add: credit_chain_def)
    moreover have "credit_rest ring ?s" using s(1) * inv by (auto simp: credit_rest_def regs_def)
    ultimately show ?thesis unfolding credit_flow_def ik_def regs_def by blast
  next
    assume *: "que (credit_updates ik) = que (credit_updates (cf_ik s)) @ [regs]" "last_host_credit_regs ik = regs" "last_host_credit_regs (cf_ik s) \<noteq> regs"
    then have "credit_chain ring ?s gm (gq @ gr) gr ga"
      using s(2) hc by (auto simp: credit_chain_def regs_def sorted_append split: if_splits)
    moreover have "credit_rest ring ?s" using s(1) * inv by (auto simp: credit_rest_def regs_def)
    ultimately show ?thesis unfolding credit_flow_def ik_def regs_def by blast
  qed
qed

lemma ring_in_table: "credit_rest ring s \<Longrightarrow> ring_index ring < length (host_credits (cf_ik s))"
  by (simp add: credit_rest_def credit_inv_def ring_index_in_table)

text \<open>Applying an update of the queue: it changes the entry of its own ring only.\<close>

lemma update_entry:
  assumes "credit_updates ik = st" "que st = u # us" "ring_index ring < length (host_credits ik)"
    "cu_ring_id u = ring \<longrightarrow> \<not> cu_reset u"
  shows "que (credit_updates (snd (ikernel_update ik))) = us \<and>
    host_credits (snd (ikernel_update ik)) ! ring_index ring =
      (let c = host_credits ik ! ring_index ring in if cu_ring_id u = ring then c\<lparr>max_msn := cu_max_msn u\<rparr> else c) \<and>
    last_host_credit_regs (snd (ikernel_update ik)) = last_host_credit_regs ik"
  using assms by (auto simp: ikernel_update_def stream_defs Let_def ring_index_inject nth_list_update)

lemma update_flow:
  assumes "credit_flow ring s"
  shows "credit_flow ring (s\<lparr>cf_ik := snd (ikernel_update (cf_ik s))\<rparr>)"
proof (cases "que (credit_updates (cf_ik s))")
  case Nil
  then have "snd (ikernel_update (cf_ik s)) = cf_ik s" by (simp add: ikernel_update_def stream_defs)
  then show ?thesis using assms by simp
next
  case (Cons u us)
  from assms obtain gm gq gr ga where s: "credit_rest ring s" "credit_chain ring s gm gq gr ga" by (auto simp: credit_flow_def)
  let ?s = "s\<lparr>cf_ik := snd (ikernel_update (cf_ik s))\<rparr>"
  have u: "cu_ring_id u = ring \<longrightarrow> \<not> cu_reset u" using s(1) Cons by (simp add: credit_rest_def)
  note entry = update_entry [OF refl Cons ring_in_table [OF s(1)] u]
  have "credit_rest ring ?s" using s(1) Cons entry by (simp add: credit_rest_def credit_inv_update)
  moreover have "credit_chain ring ?s (if cu_ring_id u = ring then hd gq else gm) (if cu_ring_id u = ring then tl gq else gq) gr ga"
    using s(2) Cons entry by (auto simp: credit_chain_def Let_def Cons_eq_map_conv)
  ultimately show ?thesis unfolding credit_flow_def by blast
qed

lemma new_message_frame [simp]:
  "credit_updates (new_message r dir ik) = credit_updates ik" "last_host_credit_regs (new_message r dir ik) = last_host_credit_regs ik"
  by (simp_all add: new_message_def)

lemma send_flow:
  assumes "credit_flow ring s" "can_transmit (cf_ik s) tc i ring l HOST"
  shows "cf_sent s < cf_posted s \<and> credit_flow ring (s\<lparr>cf_ik := new_message ring HOST (cf_ik s), cf_sent := cf_sent s + 1\<rparr>)"
proof -
  from assms(1) obtain gm gq gr ga where s: "credit_rest ring s" "credit_chain ring s gm gq gr ga" by (auto simp: credit_flow_def)
  let ?s = "s\<lparr>cf_ik := new_message ring HOST (cf_ik s), cf_sent := cf_sent s + 1\<rparr>"
  have "ring \<noteq> 0" using s(1) by (auto simp: credit_rest_def in_table_def)
  then have "ring_can_transmit (host_credits (cf_ik s) ! ring_index ring)" by (rule can_transmit_credit [OF assms(2)])
  then have "cf_sent s \<noteq> gm" using s(2) by (auto simp: credit_chain_def ring_can_transmit_def)
  then have less: "cf_sent s < gm" using s(2) by (simp add: credit_chain_def)
  have "credit_rest ring ?s" using s(1) by (simp add: credit_rest_def credit_inv_new_message)
  moreover have "credit_chain ring ?s gm gq gr ga"
    using s(2) less ring_in_table [OF s(1)] by (simp add: credit_chain_def new_message_def inc_msn_def add.commute)
  moreover have "cf_sent s < cf_posted s" using s(2) less by (simp add: credit_chain_def)
  ultimately show ?thesis unfolding credit_flow_def by blast
qed

lemma send_other_flow:
  assumes "credit_flow ring s" "r \<noteq> ring"
  shows "credit_flow ring (s\<lparr>cf_ik := new_message r HOST (cf_ik s)\<rparr>)"
proof -
  let ?s = "s\<lparr>cf_ik := new_message r HOST (cf_ik s)\<rparr>"
  have "host_credits (new_message r HOST (cf_ik s)) ! ring_index ring = host_credits (cf_ik s) ! ring_index ring"
    using assms(2) by (simp add: new_message_def ring_index_inject)
  then have "credit_chain ring ?s gm gq gr ga = credit_chain ring s gm gq gr ga" "credit_rest ring s \<Longrightarrow> credit_rest ring ?s" for gm gq gr ga
    by (simp_all add: credit_chain_def credit_rest_def credit_inv_new_message)
  then show ?thesis using assms(1) by (auto simp: credit_flow_def)
qed

lemma step_flow: "credit_step ng ring s s' \<Longrightarrow> credit_flow ring s \<Longrightarrow> credit_flow ring s'"
  by (erule credit_stepE) (simp_all add: post_flow manager_flow other_ring_flow latch_flow update_flow send_flow [simplified] send_other_flow)

lemma reach_flow: "credit_reach ng ring s \<Longrightarrow> credit_flow ring s"
  by (induction rule: credit_reach.induct) (auto simp: start_flow step_flow)

section \<open>No message without a buffer\<close>

text \<open>
  C9: A custom ring is never overrun. However the calls of the host, the manager and the ikernel interleave, with announcements delayed, refused or overwritten by those of other
  rings, and however often the 16 bit counters wrap around, the ikernel has sent at most as many messages to the ring as the host has posted buffers, and flow control lets
  it send another one only if a buffer is left for it. This rests on the register's packing, on the order in which the ikernel applies updates, and on the host announcing totals, not differences.
\<close>

theorem ring_never_overrun:
  assumes "credit_reach ng ring s"
  shows "cf_sent s \<le> cf_posted s \<and> (can_transmit (cf_ik s) tc i ring l HOST \<longrightarrow> cf_sent s < cf_posted s)"
proof -
  note flow = reach_flow [OF assms]
  then have "cf_sent s \<le> cf_posted s" by (auto simp: credit_flow_def credit_chain_def)
  then show ?thesis using send_flow [OF flow] by blast
qed

text \<open>A run: three buffers are posted and announced, and one message is sent.\<close>

definition demo_credit_start :: "(31 word \<times> bool \<times> 32 word \<times> 32 word) credit_state" where
  "demo_credit_start =
     \<lparr>cf_ring = \<lparr>ch_credits = 0, ch_msn = 0, ch_msn_diff = 0, ch_handle = 1, ch_qp_num = 5\<rparr>, cf_announced = [],
      cf_regs = emu_ikernel_new (0, False, 0, 0) (replicate 16 0),
      cf_ik = \<lparr>host_credits = replicate NUM_CUSTOM_RINGS \<lparr>msn = 0, max_msn = 0\<rparr>, credit_updates = \<lparr>depth = None, que = []\<rparr>,
        last_host_credit_regs = \<lparr>cu_ring_id = 0, cu_max_msn = 0, cu_reset = False\<rparr>\<rparr>,
      cf_posted = 0, cf_sent = 0\<rparr>"

definition demo_posted :: "(31 word \<times> bool \<times> 32 word \<times> 32 word) credit_state" where
  "demo_posted = demo_credit_start\<lparr>cf_ring := (cf_ring demo_credit_start)\<lparr>ch_credits := 3\<rparr>, cf_announced := [3], cf_posted := 3\<rparr>"

definition demo_granted :: "(31 word \<times> bool \<times> 32 word \<times> 32 word) credit_state" where
  "demo_granted =
     (let s1 = write_credits word_gateway \<lparr>cu_ring_id = 1, cu_max_msn = 3, cu_reset = False\<rparr> (demo_posted\<lparr>cf_announced := []\<rparr>);
          s2 = s1\<lparr>cf_ik := host_credits_update_regs (ei_credit (cf_regs s1)) (cf_ik s1)\<rparr>
      in s2\<lparr>cf_ik := snd (ikernel_update (cf_ik s2))\<rparr>)"

lemma demo_start: "credit_start 1 demo_credit_start"
  by (simp add: credit_start_def demo_credit_start_def in_table_def ring_index_def credit_inv_def NUM_CUSTOM_RINGS_def emu_ikernel_new_def)

lemma demo_post: "credit_step word_gateway 1 demo_credit_start demo_posted"
proof -
  let ?conn = "\<lparr>nc_rx = reply NICA_CR_UPDATE_CREDITS 0 (le32 0), nc_tx = [], nc_errno = 0\<rparr>"
  let ?req = "le32 1 @ le32 3"
  have call: "nica_call NICA_CR_UPDATE_CREDITS ?req 4 None ?conn =
      Inr ((0, Some (le32 0)), ?conn\<lparr>nc_rx := [], nc_tx := request NICA_CR_UPDATE_CREDITS ?req\<rparr>)"
    using call_ok [of ?conn NICA_CR_UPDATE_CREDITS "le32 0" "[]" 4 ?req] by simp
  have "custom_ring_post_recv_attr 0 3 True (cf_ring demo_credit_start) ?conn =
      Inr ((0, cf_ring demo_posted), ?conn\<lparr>nc_rx := [], nc_tx := request NICA_CR_UPDATE_CREDITS ?req\<rparr>)"
    by (simp add: custom_ring_post_recv_attr_def demo_posted_def demo_credit_start_def Let_def call io_bind_def io_return_def)
  from credit_step.post [OF this, where ann = "[3]" and ng = word_gateway and ring = 1]
  show ?thesis by (simp add: demo_posted_def demo_credit_start_def)
qed

lemma demo_reach: "credit_reach word_gateway 1 demo_granted"
proof -
  have "credit_reach word_gateway 1 demo_posted" using demo_start demo_post by (blast intro: credit_reach.intros)
  then have "credit_reach word_gateway 1 (write_credits word_gateway \<lparr>cu_ring_id = 1, cu_max_msn = 3, cu_reset = False\<rparr> (demo_posted\<lparr>cf_announced := []\<rparr>))"
    by (rule credit_reach.step) (rule credit_step.manager, simp add: demo_posted_def)
  then show ?thesis unfolding demo_granted_def Let_def
    by (intro credit_reach.step [OF _ credit_step.update] credit_reach.step [OF _ credit_step.latch])
qed

lemma ring_never_overrun_witness:
  "cf_sent demo_granted \<le> cf_posted demo_granted \<and>
   can_transmit (cf_ik demo_granted) \<lparr>tc_meta_counts = replicate 8 0, tc_data_counts = replicate 8 0\<rparr> 0 1 64 HOST \<and> cf_sent demo_granted < cf_posted demo_granted"
proof -
  have "can_transmit (cf_ik demo_granted) \<lparr>tc_meta_counts = replicate 8 0, tc_data_counts = replicate 8 0\<rparr> 0 1 64 HOST" by code_simp
  with ring_never_overrun [OF demo_reach] show ?thesis by blast
qed

end
