(* ===== verification/Spec2Isabelle.thy ===== *)
theory Spec2Isabelle
  imports Nica Heap Cms Threshold Memcached Echo Pktgen Coap_Parser Receive_Path Indexed_Heap Rxe_Hdr Host_Servers Emulation Credit_Flow
begin

text \<open>
  NICA is a SmartNIC design: accelerators (ikernels) sit on the path between a network port and the host, and the design
  under \<open>src/nica/hls\<close> and \<open>src/ikernels/hls\<close>, written in C++ for high level synthesis, steers packets to them. Programs on the host use it
  through the library under \<open>src/libnica\<close>, as the servers under \<open>src/software\<close> do, and \<open>src/emulation\<close> runs it in software.
  This development models that C++ code and states what its parts guarantee.

  \<^bold>\<open>How the code is modelled.\<close> A unit of the source is a method that runs once per clock, reads and writes
  \<open>hls::stream\<close>s and keeps registers. Here it is a function from the registers and streams it touches to their new values. A
  stream is a record of an optional depth and a queue (\<open>hls_stream\<close>): \<open>full\<close> compares with the depth, a blocking write
  appends, a non-blocking write to a full stream does nothing. Integers keep their width as \<open>word\<close>s. Registers and streams that
  the source leaves uninitialised are parameters. A clock of a larger unit calls the functions of its parts in the source's order.
  Code outside the repository is a parameter too: of \<open>ntl\<close> the context tables (\<open>context_ops\<close>, \<open>base_context_ops\<close>, \<open>ctx_ops\<close>), the
  schedulers (\<open>sched_ops\<close>, \<open>flow_sched_ops\<close>), the hash table (\<open>hash_table_ops\<close>), the programmable fifos (\<open>pfifo_ops\<close>), the
  memory port (\<open>memory_ops\<close>) and the enumerator; further \<open>axi_data::set_data\<close> and \<open>keep_bytes\<close>, and the SHA units, which are
  Verilog. Where a theorem needs a law of such a parameter it is a named hypothesis (\<open>ctx_array\<close>, \<open>context_array\<close>, \<open>ram\<close>,
  \<open>set_data_msb\<close>, \<open>bounded_map\<close>, \<open>data_inverse\<close>, \<open>gateway_lawful\<close>), and the witness of the theorem instantiates it.
  The code of the host is modelled by functions on the bytes of its socket to the manager (\<open>nica_conn\<close>) that end with a value or an error; what the manager, the
  kernel, the verbs library (\<open>verbs\<close>) and the Fibonacci heap of Boost (\<open>fib_ops\<close>) answer are arguments.

  \<^bold>\<open>Prelude and plumbing.\<close>
  \<^item> \<open>Nica_Prelude\<close>: streams and bit ranges, and the contracts of a unit as locales. \<open>conserving\<close> says that a clock keeps the output
    a unit has produced followed by the output it owes; \<open>stage\<close> adds a measure of the work left that decreases, so that the owed
    output appears within that many clocks; the variants with an invariant and with two outputs extend them. \<open>fifo_relay\<close> is
    a queue under pushes, clocks and pops, \<open>packed\<close> and \<open>packed_onto\<close> are packings into words and back.
  \<^item> \<open>Hls_Helper\<close> (\<open>hls_helper.h\<close>, \<open>link_with_reg.hpp\<close>): duplicators, links, bytes of wide words. \<open>Packet_Filter\<close> (\<open>drop_or_pass.hpp\<close>).
    \<open>Mlx\<close> (\<open>mlx.h\<close>, \<open>mlx.cpp\<close>): the interface of the shell.
  \<^item> \<open>Metadata\<close>, \<open>Ikernel_Base\<close>, \<open>Ikernel_Top\<close> (\<open>ikernel.hpp\<close>, \<open>ikernel.cpp\<close>, \<open>either.hpp\<close>, \<open>gateway.hpp\<close>): metadata of packets,
    credits of the custom rings, flow control, the top function of an ikernel, and the contract of its registers (\<open>register_file\<close>).

  \<^bold>\<open>Receive path.\<close>
  \<^item> \<open>Udp_Header\<close> (\<open>udp.h\<close>): header layouts. \<open>Udp_Split\<close> (\<open>header_data_split\<close> of \<open>udp.cpp\<close>): headers and payload are separated without
    losing a bit. \<open>Length_Adjust\<close>: padding is cut to the length the header gives. \<open>Checksum\<close>: ones' complement sums.
  \<^item> \<open>Flow_Table\<close> (\<open>flow_table.cpp\<close>, \<open>flow_table_impl.hpp\<close>) and \<open>Steering\<close> (\<open>udp.cpp\<close>): each packet gets the action of its flow, unless a
    check of its headers overrules it; a packet goes to an ikernel, to the host or nowhere, and its data follows.
  \<^item> \<open>Udp\<close>: the crossbar delivers each packet to the ikernel of its flow; the receive units composed.
  \<^item> \<open>Receive_Path\<close>: the theorems of the units chained. A packet from the wire reaches the ikernel of its flow with the payload that its header announces, and what the
    transmit path builds is received unchanged.

  \<^bold>\<open>Transmit path.\<close>
  \<^item> \<open>Udp_Builder\<close> (\<open>udp.cpp\<close>): headers rebuilt from metadata, Ethernet padding; what is sent is read back by the receive path.
  \<^item> \<open>Custom_Ring\<close> (\<open>custom_rx_ring.cpp\<close>): RoCE packets to the host with consecutive sequence numbers.
  \<^item> \<open>Demux\<close> (\<open>demux.hpp\<close>): packets sorted into traffic classes in order. \<open>Arbiter\<close> (\<open>arbiter-impl.hpp\<close>): classes served in order, within
    quotas and a packet at a time.
  \<^item> \<open>Nica\<close> (\<open>nica.cpp\<close>, \<open>nica-impl.hpp\<close>): both pipelines and the path of raw packets around the ikernels.

  \<^bold>\<open>Ikernels.\<close>
  \<^item> \<open>Passthrough\<close>, \<open>Threshold\<close>, \<open>Echo\<close>, \<open>Pktgen\<close>: metadata and data that leave belong together and in number; statistics,
    answers and bursts are what the registers ask for.
  \<^item> \<open>Heap\<close>, \<open>Cms\<close> (\<open>heap.hpp\<close>, \<open>cms.cpp\<close>, \<open>cms-ikernel.cpp\<close>): the heap is a priority queue (\<open>priority_queue\<close>), the sketch never
    underestimates (\<open>frequency_sketch\<close>). \<open>Indexed_Heap\<close> (\<open>indexed_heap.hpp\<close>, which nothing instantiates yet): a heap whose index always knows where its elements are.
  \<^item> \<open>Memcached_Cache\<close>, \<open>Memcached\<close>: the cache answers with the last value stored under a key or not at all; a response that is sent is
    parsed back to its key and value.
  \<^item> \<open>Coap_Base64\<close>, \<open>Coap\<close>, \<open>Coap_Hmac\<close>, \<open>Coap_Parser\<close> (\<open>coap.cpp\<close>, \<open>coap.hpp\<close>): a request passes if and only if its signature is the
    base64url text of the HMAC-SHA256 of its token; the SHA compression function is a parameter.

  \<^bold>\<open>Host side.\<close>
  \<^item> \<open>Rxe_Hdr\<close> (\<open>rxe_hdr.h\<close>, \<open>ib_pack.h\<close>, \<open>linux_types.h\<close>): the accessors of the RoCE headers keep the fields of a header apart (\<open>header_fields\<close>), and read from the
    packets of the custom rings what \<open>Custom_Ring\<close> put there.
  \<^item> \<open>Libnica\<close> (\<open>nica.cpp\<close>, \<open>nica.h\<close>, \<open>nicamgr.h\<close>): requests and replies stay in step, also after errors; the outcomes of attaching a socket; the credits announced for
    a ring count the buffers posted to it.
  \<^item> \<open>Stat_Server\<close> and \<open>Host_Servers\<close> (\<open>StatisticsUdpServer.cpp\<close>, \<open>EchoUdpServer.cpp\<close>, \<open>CmsUdpServer.cpp\<close>, the reception of \<open>UdpServer.cpp\<close>): the values that arrive through a
    ring are counted once and in order, and no buffer is posted again before it is read.
  \<^item> \<open>Emulation\<close> (\<open>emu-top.cpp\<close>): the start from the environment, the register file and that it stays well formed, packets cut into words and put together again,
    and the IP checksum, which is valid for the receiver.
  \<^item> \<open>Credit_Flow\<close>: host, register and ikernel together. A step relation interleaves the posting of buffers, the announcements, the register that all rings share and the
    counters of the ikernel; in every state that it reaches the ikernel has sent no more messages to a ring than buffers were posted.

  \<^bold>\<open>Bounds.\<close> No definition uses fuel. Most loops of the source have constant bounds and are folds over index lists. The loops of the heaps
  and the loop that adds the carries of the checksum are functions with termination proofs (the index grows towards the size or shrinks towards the root, the sum shrinks).
  Two loops of the servers that a wrong index or heap would keep running are partial functions with an optional result, and that they return is
  proved (\<open>drain_values\<close>, \<open>get_host_topK_returns\<close>). Statements that output appears name the number of clocks
  that is enough, as the measure of the work left. The UDP checksum is stated for up to 4062 words, which keeps its 32 bit
  accumulators from wrapping and covers every Ethernet packet.

  \<^bold>\<open>Not modelled.\<close> The Python manager; the Verilog; the main programs, the clients and the timers of the servers, which are input and output; the function \<open>step\<close> of the
  emulation, which calls the top functions of the design and of the ikernels in turn; structures and constants of the headers copied from Linux that no code reads;
  the single-unit wrappers \<open>arbiter_top\<close>, \<open>demux_top\<close> and \<open>udp_top\<close> of the synthesis tests, tests and build files. What is left of the C++ sources are declarations. The pragmas that
  tell the synthesis how to pipeline a unit have no counterpart: a call of a unit is one step, and the timing between units is not modelled.
\<close>

section \<open>Register errors\<close>

text \<open>
  C35: Every ikernel refuses a command for an address that is not one of its registers: the gateway reports
  \<open>GW_FAIL\<close>, and the ikernel and its ports are as if the clock had carried no command. This holds for the passthrough,
  threshold, echo, packet generator, memcached and CoAP ikernels, for reads and for writes.
\<close>

theorem unknown_registers_refused:
  "(reg_addr a \<in> passthrough_registers \<or>
    (\<exists>w. passthrough_top pt regs (Some (a, v, i)) tc p1 = (Some (GW_FAIL, w), snd (passthrough_top pt regs None tc p1)))) \<and>
   (reg_addr a \<in> threshold_registers \<or>
    (\<exists>w. threshold_top pad th regs (Some (a, v, i)) tc p2 = (Some (GW_FAIL, w), snd (threshold_top pad th regs None tc p2)))) \<and>
   (reg_addr a \<in> echo_registers \<or>
    (\<exists>w. echo_top unused u regs (Some (a, v, i)) tc p3 = (Some (GW_FAIL, w), snd (echo_top unused u regs None tc p3)))) \<and>
   (reg_addr a \<in> pktgen_registers \<or>
    (\<exists>w. pktgen_top pg regs (Some (a, v, i)) tc p4 = (Some (GW_FAIL, w), snd (pktgen_top pg regs None tc p4)))) \<and>
   (reg_addr a \<in> memcached_registers \<or>
    (\<exists>w. memcached_top mc regs (Some (a, v, i)) tc p5 = (Some (GW_FAIL, w), snd (memcached_top mc regs None tc p5)))) \<and>
   (reg_addr a \<in> coap_registers \<or>
    (\<exists>w. coap_ikernel co regs (Some (a, v, i)) tc p6 = (Some (GW_FAIL, w), snd (coap_ikernel co regs None tc p6))))"
  unfolding passthrough_top_def threshold_top_def echo_top_def pktgen_top_def memcached_top_def coap_ikernel_def
  by (intro conjI passthrough_regs.refused threshold_regs.refused echo_regs.refused pktgen_regs.refused
      memcached_regs.refused coap_regs.refused)

end
